(* ===== verification/Prelude.thy ===== *)
theory Prelude
  imports Main "HOL-Library.Code_Target_Nat" "HOL-Library.Word" "HOL-Library.AList" "HOL-Library.Sublist"
begin

text \<open>
  Shared vocabulary of the development: the fixed-width integers of the Go sources, byte
  strings, big-endian field access (Go's \<^verbatim>\<open>encoding/binary\<close>), association-list maps for
  Go's \<^verbatim>\<open>map\<close>, and the two interfaces that several components implement: a wire codec
  and a transition system with an invariant.
\<close>

section \<open>Machine types\<close>

type_synonym u8 = "8 word"
type_synonym u16 = "16 word"
type_synonym u32 = "32 word"
type_synonym u64 = "64 word"
type_synonym bytes = "u8 list"

named_theorems wire_simps \<open>definitions of encoders and decoders\<close>

section \<open>Results\<close>

text \<open>A Go function that returns \<^verbatim>\<open>(value, error)\<close> returns \<open>Inl\<close> of the error or \<open>Inr\<close> of the value.\<close>

fun ok :: "'e + 'a \<Rightarrow> 'a option" where
  "ok (Inl e) = None"
| "ok (Inr a) = Some a"

lemma ok_Some [simp]: "ok r = Some a \<longleftrightarrow> r = Inr a"
  by (cases r) auto

section \<open>Big-endian fields\<close>

text \<open>
  \<open>put_be n v\<close> is the \<open>n\<close>-byte big-endian rendering of \<open>v\<close> (the high bytes of a value
  that does not fit are lost, as a Go conversion loses them); \<open>get_be\<close> reads such a field.
\<close>

fun put_be :: "nat \<Rightarrow> nat \<Rightarrow> bytes" where
  "put_be 0 v = []"
| "put_be (Suc n) v = put_be n (v div 256) @ [word_of_nat v]"

fun get_be :: "bytes \<Rightarrow> nat" where
  "get_be [] = 0"
| "get_be (b # bs) = unat b * 256 ^ length bs + get_be bs"

definition PutUint16 :: "u16 \<Rightarrow> bytes" where "PutUint16 w = put_be 2 (unat w)"
definition PutUint32 :: "u32 \<Rightarrow> bytes" where "PutUint32 w = put_be 4 (unat w)"
definition PutUint64 :: "u64 \<Rightarrow> bytes" where "PutUint64 w = put_be 8 (unat w)"

definition Uint16 :: "bytes \<Rightarrow> u16" where "Uint16 b = word_of_nat (get_be (take 2 b))"
definition Uint32 :: "bytes \<Rightarrow> u32" where "Uint32 b = word_of_nat (get_be (take 4 b))"
definition Uint64 :: "bytes \<Rightarrow> u64" where "Uint64 b = word_of_nat (get_be (take 8 b))"

lemma length_put_be [simp]: "length (put_be n v) = n"
  by (induction n arbitrary: v) auto

lemma get_be_snoc: "get_be (bs @ [b]) = get_be bs * 256 + unat b"
  by (induction bs) (auto simp: algebra_simps)

lemma get_put_be: "get_be (put_be n v) = v mod 256 ^ n"
proof (induction n arbitrary: v)
  case 0
  then show ?case by simp
next
  case (Suc n)
  have "v mod (256 * 256 ^ n) = 256 * (v div 256 mod 256 ^ n) + v mod 256"
    by (rule mod_mult2_eq)
  then show ?case
    by (simp add: get_be_snoc Suc.IH unat_of_nat algebra_simps)
qed

lemma get_be_bound: "get_be bs < 256 ^ length bs"
proof (induction bs)
  case (Cons b bs)
  have "unat b * 256 ^ length bs \<le> 255 * 256 ^ length bs"
    using unsigned_less [of b, where ?'a = nat] by (intro mult_right_mono) auto
  moreover have "256 ^ length (b # bs) = 255 * 256 ^ length bs + (256 ^ length bs :: nat)" by simp
  ultimately show ?case using Cons.IH unfolding get_be.simps by linarith
qed simp

lemma put_get_be: "put_be (length bs) (get_be bs) = bs"
proof (induction bs rule: rev_induct)
  case (snoc b bs)
  have "unat b < 256" using unsigned_less [of b, where ?'a = nat] by simp
  then have d: "unat b div 256 = 0" by simp
  have z: "(256 :: u8) = 0" by (simp add: word_uint_eq_iff)
  have "(word_of_nat (get_be bs * 256 + unat b) :: u8) = b"
    by (simp only: of_nat_add of_nat_mult of_nat_numeral z) simp
  then show ?case using snoc.IH d by (simp add: get_be_snoc)
qed simp

lemma length_PutUint [simp]:
  "length (PutUint16 a) = 2" "length (PutUint32 b) = 4" "length (PutUint64 c) = 8"
  by (simp_all add: PutUint16_def PutUint32_def PutUint64_def)

lemma PutUint_ne_Nil [simp]:
  "PutUint16 a \<noteq> []" "PutUint32 b \<noteq> []" "PutUint64 c \<noteq> []"
  using length_PutUint by (metis list.size(3) zero_neq_numeral)+

lemma unat_bound: "unat (w :: 'a::len word) < 2 ^ LENGTH('a)"
  by (rule unsigned_less)

lemma Uint16_Put [simp]: "Uint16 (PutUint16 w @ bs) = w"
  using unat_bound [of w] by (simp add: Uint16_def PutUint16_def get_put_be)

lemma Uint32_Put [simp]: "Uint32 (PutUint32 w @ bs) = w"
  using unat_bound [of w] by (simp add: Uint32_def PutUint32_def get_put_be)

lemma Uint64_Put [simp]: "Uint64 (PutUint64 w @ bs) = w"
  using unat_bound [of w] by (simp add: Uint64_def PutUint64_def get_put_be)

lemma Uint_Put_self [simp]:
  "Uint16 (PutUint16 a) = a" "Uint32 (PutUint32 b) = b" "Uint64 (PutUint64 c) = c"
  using Uint16_Put [of a "[]"] Uint32_Put [of b "[]"] Uint64_Put [of c "[]"] by simp_all

lemma PutUint32_Uint32:
  assumes "4 \<le> length b"
  shows "PutUint32 (Uint32 b) = take 4 b"
proof -
  have len: "length (take 4 b) = 4" using assms by simp
  then have "get_be (take 4 b) < 2 ^ 32" using get_be_bound [of "take 4 b"] by simp
  then have "unat (Uint32 b) = get_be (take 4 b)" by (simp add: Uint32_def unat_of_nat)
  then show ?thesis using put_get_be [of "take 4 b"] len by (simp add: PutUint32_def)
qed

section \<open>Words as offsets\<close>

lemma unat_word_diff_nat:
  assumes "n \<le> m" "m - n < 2 ^ 32"
  shows "unat (word_of_nat m - word_of_nat n :: u32) = m - n"
proof -
  have "word_of_nat m - word_of_nat n = (word_of_nat (m - n) :: u32)"
    using assms(1) by (simp add: of_nat_diff)
  then show ?thesis using assms(2) by (simp add: unat_of_nat)
qed

lemma sint_pos_less:
  assumes "0 < sint (w :: u32)"
  shows "unat w < 2 ^ 31"
proof (rule ccontr)
  assume "\<not> unat w < 2 ^ 31"
  then have "2 ^ 31 \<le> unat w" "unat w < 2 ^ 32" using unat_bound [of w] by simp_all
  then have "int (2 ^ 31) \<le> int (unat w)" "int (unat w) < int (2 ^ 32)" by (simp_all only: of_nat_le_iff of_nat_less_iff)
  then have u: "2 ^ 31 \<le> uint w" "uint w < 2 ^ 32" by simp_all
  have "sint w = (uint w + 2 ^ 31) mod 2 ^ 32 - 2 ^ 31"
    by (simp add: sint_uint signed_take_bit_eq_take_bit_shift take_bit_eq_mod)
  also have "(uint w + 2 ^ 31) mod 2 ^ 32 = uint w + 2 ^ 31 - 2 ^ 32"
    using u by (simp add: mod_pos_geq mod_pos_pos_trivial)
  finally show False using assms u by simp
qed

section \<open>Lists\<close>

lemma nth_list_update_app:
  "a < length xs \<Longrightarrow> (xs[b := y] @ zs) ! a = (if a = b then y else xs ! a)"
  by (simp add: nth_append nth_list_update)

lemma nth_append_last [simp]: "(xs @ [y]) ! length xs = y"
  by simp

lemma take_drop_split: "n \<le> m \<Longrightarrow> take m xs = take n xs @ take (m - n) (drop n xs)"
  by (metis le_add_diff_inverse take_add)

text \<open>A Go map is an association list with distinct keys; these are the facts the components use.\<close>

lemma map_of_alist_update [simp]: "map_of (AList.update k v m) = (map_of m)(k \<mapsto> v)"
  by (rule AList.update_conv')

lemma map_of_alist_delete [simp]: "map_of (AList.delete k m) = (map_of m)(k := None)"
  by (rule AList.delete_conv')

lemma distinct_fst_update [intro]: "distinct (map fst m) \<Longrightarrow> distinct (map fst (AList.update k v m))"
  by (rule AList.distinct_update)

lemma distinct_fst_delete [intro]: "distinct (map fst m) \<Longrightarrow> distinct (map fst (AList.delete k m))"
  by (rule AList.distinct_delete)

section \<open>Interface: wire codecs\<close>

text \<open>
  What every encode/decode pair of the protocol promises: on the values the sender may build,
  decoding gives the value back. A \<^emph>\<open>prefix\<close> codec also ignores what follows, so its
  encodings can be embedded at the front of a longer packet.
\<close>

locale wire_codec =
  fixes valid :: "'a \<Rightarrow> bool"
    and enc :: "'a \<Rightarrow> bytes"
    and dec :: "bytes \<Rightarrow> 'a option"
  assumes dec_enc: "valid x \<Longrightarrow> dec (enc x) = Some x"
begin

lemma enc_inj: "valid x \<Longrightarrow> valid y \<Longrightarrow> enc x = enc y \<Longrightarrow> x = y"
  using dec_enc by (metis option.inject)

lemma enc_inj_on: "inj_on enc {x. valid x}"
  by (auto intro!: inj_onI enc_inj)

end

locale prefix_codec =
  fixes valid :: "'a \<Rightarrow> bool"
    and enc :: "'a \<Rightarrow> bytes"
    and dec :: "bytes \<Rightarrow> 'a option"
  assumes dec_enc_append: "valid x \<Longrightarrow> dec (enc x @ rest) = Some x"
begin

lemma enc_prefix_free:
  assumes "valid x" "valid y" "enc x @ r = enc y @ q"
  shows "x = y \<and> r = q"
proof -
  have "x = y"
    using dec_enc_append [OF assms(1), of r] dec_enc_append [OF assms(2), of q] assms(3) by simp
  then show ?thesis using assms(3) by simp
qed

end

sublocale prefix_codec \<subseteq> wire_codec valid enc dec
  by unfold_locales (metis append_Nil2 dec_enc_append)

section \<open>Interface: transition systems with an invariant\<close>

locale invariant_system =
  fixes step :: "'s \<Rightarrow> 's \<Rightarrow> bool"
    and inv :: "'s \<Rightarrow> bool"
  assumes step_inv: "step s t \<Longrightarrow> inv s \<Longrightarrow> inv t"
begin

lemma run_inv: "step\<^sup>*\<^sup>* s t \<Longrightarrow> inv s \<Longrightarrow> inv t"
  by (induction rule: rtranclp_induct) (auto dest: step_inv)

end

end
