(* ===== verification/Go_Text.thy ===== *)
theory Go_Text
  imports Prelude
begin

text \<open>
  The parts of Go's \<^verbatim>\<open>strings\<close>, \<^verbatim>\<open>strconv\<close> and \<^verbatim>\<open>fmt\<close> packages that DNX uses on names,
  locators and dotted paths. A Go string is a list of bytes (\<open>string\<close>). Names are ASCII:
  \<open>ToLower\<close> and \<open>TrimSpace\<close> treat the ASCII range, and leave bytes from 128 on alone,
  where Go would consult the Unicode tables.
\<close>

section \<open>Characters\<close>

definition is_space :: "char \<Rightarrow> bool" where
  "is_space c \<longleftrightarrow> c \<in> {CHR 0x09, CHR 0x0A, CHR 0x0B, CHR 0x0C, CHR 0x0D, CHR '' ''}"

definition lower_char :: "char \<Rightarrow> char" where
  "lower_char c = (let n = (of_char c :: nat) in if 65 \<le> n \<and> n \<le> 90 then char_of (n + 32) else c)"

definition digit_char :: "nat \<Rightarrow> char" where
  "digit_char n = char_of (48 + n)"

definition is_digit :: "char \<Rightarrow> bool" where
  "is_digit c \<longleftrightarrow> (let n = (of_char c :: nat) in 48 \<le> n \<and> n \<le> 57)"

section \<open>Package strings\<close>

fun Split :: "char \<Rightarrow> string \<Rightarrow> string list" where
  "Split d [] = [[]]"
| "Split d (c # s) =
     (if c = d then [] # Split d s
      else case Split d s of [] \<Rightarrow> [[c]] | w # ws \<Rightarrow> (c # w) # ws)"

fun Join :: "string \<Rightarrow> string list \<Rightarrow> string" where
  "Join sep [] = []"
| "Join sep [w] = w"
| "Join sep (w # v # ws) = w @ sep @ Join sep (v # ws)"

definition TrimSpace :: "string \<Rightarrow> string" where
  "TrimSpace s = rev (dropWhile is_space (rev (dropWhile is_space s)))"

definition ToLower :: "string \<Rightarrow> string" where
  "ToLower s = map lower_char s"

definition HasSuffix :: "string \<Rightarrow> string \<Rightarrow> bool" where
  "HasSuffix s t \<longleftrightarrow> length t \<le> length s \<and> drop (length s - length t) s = t"

definition TrimSuffix :: "string \<Rightarrow> string \<Rightarrow> string" where
  "TrimSuffix s t = (if HasSuffix s t then take (length s - length t) s else s)"

section \<open>Decimal numbers\<close>

fun show_nat :: "nat \<Rightarrow> string" where
  "show_nat n = (if n < 10 then [digit_char n] else show_nat (n div 10) @ [digit_char (n mod 10)])"

declare show_nat.simps [simp del]

definition show_int :: "int \<Rightarrow> string" where
  "show_int i = (if i < 0 then CHR ''-'' # show_nat (nat (- i)) else show_nat (nat i))"

definition digits_val :: "string \<Rightarrow> nat" where
  "digits_val ds = foldl (\<lambda>a c. a * 10 + (of_char c - 48)) 0 ds"

text \<open>
  \<^verbatim>\<open>fmt.Sscanf(part, "%d", &n)\<close> with \<open>n\<close> a \<^verbatim>\<open>uint64\<close>: leading blanks other than a newline are
  skipped, the longest run of digits is read, and an empty run or a value that does not fit is an error.
  What follows the digits is left unread.
\<close>

definition Sscanf_d :: "string \<Rightarrow> nat option" where
  "Sscanf_d s =
     (let ds = takeWhile is_digit (dropWhile (\<lambda>c. is_space c \<and> c \<noteq> CHR 0x0A) s)
      in if ds = [] \<or> digits_val ds \<ge> 2 ^ 64 then None else Some (digits_val ds))"

section \<open>Facts\<close>

lemma Split_ne_Nil [simp]: "Split d s \<noteq> []"
  by (induction s) (auto split: list.splits)

lemma Split_no_delim: "w \<in> set (Split d s) \<Longrightarrow> d \<notin> set w"
  by (induction s arbitrary: w) (fastforce split: list.splits if_splits)+

lemma set_Split: "w \<in> set (Split d s) \<Longrightarrow> set w \<subseteq> set s"
  by (induction s arbitrary: w) (fastforce split: list.splits if_splits)+

lemma Split_id: "d \<notin> set s \<Longrightarrow> Split d s = [s]"
  by (induction s) auto

lemma Split_append: "d \<notin> set w \<Longrightarrow> Split d (w @ d # s) = w # Split d s"
  by (induction w) auto

lemma Split_Join: "ws \<noteq> [] \<Longrightarrow> \<forall>w\<in>set ws. d \<notin> set w \<Longrightarrow> Split d (Join [d] ws) = ws"
  by (induction "[d]" ws rule: Join.induct) (auto simp: Split_id Split_append)

lemma Join_Split: "Join [d] (Split d s) = s"
proof (induction s)
  case Nil
  then show ?case by simp
next
  case (Cons c s)
  show ?case
  proof (cases "Split d s")
    case Nil
    then show ?thesis by simp
  next
    case (Cons w ws)
    then show ?thesis using Cons.IH by (cases ws) auto
  qed
qed

lemma Join_inj:
  "Join [d] ws = Join [d] vs \<Longrightarrow> ws \<noteq> [] \<Longrightarrow> vs \<noteq> [] \<Longrightarrow>
   \<forall>w\<in>set ws. d \<notin> set w \<Longrightarrow> \<forall>w\<in>set vs. d \<notin> set w \<Longrightarrow> ws = vs"
  by (metis Split_Join)

lemma Join_append:
  "ws \<noteq> [] \<Longrightarrow> vs \<noteq> [] \<Longrightarrow> Join sep (ws @ vs) = Join sep ws @ sep @ Join sep vs"
proof (induction ws)
  case (Cons w ws)
  then show ?case by (cases ws; cases vs) auto
qed simp

lemma set_Join: "set (Join sep ws) \<subseteq> set sep \<union> (\<Union>w\<in>set ws. set w)"
  by (induction sep ws rule: Join.induct) auto

lemma hd_Join: "ws \<noteq> [] \<Longrightarrow> hd ws \<noteq> [] \<Longrightarrow> Join sep ws \<noteq> [] \<and> hd (Join sep ws) = hd (hd ws)"
  by (induction sep ws rule: Join.induct) auto

lemma last_Join: "ws \<noteq> [] \<Longrightarrow> last ws \<noteq> [] \<Longrightarrow> last (Join sep ws) = last (last ws) \<and> Join sep ws \<noteq> []"
  by (induction sep ws rule: Join.induct) auto

lemma length_Split: "length (Split d s) = Suc (length (filter (\<lambda>c. c = d) s))"
  by (induction s) (auto split: list.splits)

lemma HasSuffix_iff: "HasSuffix s t \<longleftrightarrow> (\<exists>u. s = u @ t)"
proof
  assume "HasSuffix s t"
  then show "\<exists>u. s = u @ t"
    unfolding HasSuffix_def by (metis append_take_drop_id)
qed (auto simp: HasSuffix_def)

lemma HasSuffix_append [simp]: "HasSuffix (u @ t) t"
  by (auto simp: HasSuffix_iff)

lemma TrimSuffix_append [simp]: "TrimSuffix (u @ t) t = u"
  by (simp add: TrimSuffix_def)

lemma dropWhile_last_not: "xs \<noteq> [] \<Longrightarrow> \<not> P (last xs) \<Longrightarrow> dropWhile P xs \<noteq> [] \<and> last (dropWhile P xs) = last xs"
  by (induction xs) auto

lemma TrimSpace_id:
  assumes "s \<noteq> [] \<Longrightarrow> \<not> is_space (hd s)" "s \<noteq> [] \<Longrightarrow> \<not> is_space (last s)"
  shows "TrimSpace s = s"
proof (cases s)
  case Nil
  then show ?thesis by (simp add: TrimSpace_def)
next
  case (Cons c r)
  then have "dropWhile is_space s = s" using assms(1) by simp
  moreover have "dropWhile is_space (rev s) = rev s"
    using assms(2) Cons by (metis dropWhile_eq_self_iff hd_rev list.distinct(1))
  ultimately show ?thesis by (simp add: TrimSpace_def)
qed

lemma TrimSpace_edges:
  assumes "TrimSpace s \<noteq> []"
  shows "\<not> is_space (hd (TrimSpace s))" "\<not> is_space (last (TrimSpace s))"
proof -
  let ?t = "dropWhile is_space s" and ?u = "dropWhile is_space (rev (dropWhile is_space s))"
  have u: "?u \<noteq> []" using assms by (simp add: TrimSpace_def)
  then show "\<not> is_space (last (TrimSpace s))"
    by (simp add: TrimSpace_def last_rev hd_dropWhile)
  have t: "?t \<noteq> []"
  proof
    assume "?t = []"
    then have "?u = []" by (simp only: rev.simps dropWhile.simps)
    with u show False by simp
  qed
  have "last ?u = hd ?t"
    using t dropWhile_last_not [of "rev ?t" is_space] hd_dropWhile [OF t] by (simp add: last_rev)
  then show "\<not> is_space (hd (TrimSpace s))"
    using u t by (simp add: TrimSpace_def hd_rev hd_dropWhile)
qed

lemma TrimSpace_idem [simp]: "TrimSpace (TrimSpace s) = TrimSpace s"
  using TrimSpace_edges by (intro TrimSpace_id) auto

lemma set_TrimSpace: "set (TrimSpace s) \<subseteq> set s"
  unfolding TrimSpace_def by (auto dest!: set_dropWhileD)

lemma of_char_less_256: "(of_char c :: nat) < 256"
  by (metis of_char_mod_256 mod_less_divisor zero_less_numeral)

lemma of_char_char_of_small [simp]: "n < 256 \<Longrightarrow> (of_char (char_of n :: char) :: nat) = n"
  by simp

lemma lower_char_idem [simp]: "lower_char (lower_char c) = lower_char c"
  by (auto simp: lower_char_def Let_def)

lemma ToLower_idem [simp]: "ToLower (ToLower s) = ToLower s"
  by (simp add: ToLower_def)

lemma ToLower_append [simp]: "ToLower (s @ t) = ToLower s @ ToLower t"
  by (simp add: ToLower_def)

lemma ToLower_Nil_iff [simp]: "ToLower s = [] \<longleftrightarrow> s = []"
  by (simp add: ToLower_def)

lemma is_digit_digit_char [simp]: "d < 10 \<Longrightarrow> is_digit (digit_char d)"
  by (simp add: is_digit_def digit_char_def)

lemma show_nat_digits: "\<forall>c\<in>set (show_nat n). is_digit c"
proof (induction n rule: show_nat.induct)
  case (1 n)
  then show ?case by (auto simp: show_nat.simps [of n])
qed

lemma show_nat_ne_Nil [simp]: "show_nat n \<noteq> []"
  by (subst show_nat.simps) simp

lemma digits_val_snoc: "digits_val (ds @ [c]) = digits_val ds * 10 + (of_char c - 48)"
  by (simp add: digits_val_def)

lemma digits_val_show [simp]: "digits_val (show_nat n) = n"
proof (induction n rule: show_nat.induct)
  case (1 n)
  show ?case
  proof (cases "n < 10")
    case True
    then show ?thesis by (simp add: show_nat.simps [of n] digits_val_def digit_char_def)
  next
    case False
    then show ?thesis using "1.IH"
      by (simp add: show_nat.simps [of n] digits_val_snoc) (simp add: digit_char_def)
  qed
qed

lemma show_nat_inj: "show_nat m = show_nat n \<longleftrightarrow> m = n"
  by (metis digits_val_show)

lemma Sscanf_show: "n < 2 ^ 64 \<Longrightarrow> Sscanf_d (show_nat n) = Some n"
proof -
  assume n: "n < 2 ^ 64"
  have "\<not> is_space (hd (show_nat n))"
    using show_nat_digits [of n] by (cases "show_nat n") (auto simp: is_digit_def is_space_def)
  then have "dropWhile (\<lambda>c. is_space c \<and> c \<noteq> CHR 0x0A) (show_nat n) = show_nat n"
    by (cases "show_nat n") auto
  moreover have "takeWhile is_digit (show_nat n) = show_nat n"
    using show_nat_digits by (simp only: takeWhile_eq_all_conv)
  ultimately show ?thesis using n unfolding Sscanf_d_def Let_def by (simp only: digits_val_show) simp
qed

lemma is_digit_distinct: "is_digit c \<Longrightarrow> c \<noteq> CHR ''.'' \<and> c \<noteq> CHR ''|'' \<and> c \<noteq> CHR ''-'' \<and> \<not> is_space c"
  by (auto simp: is_digit_def is_space_def)

lemma show_nat_no_sep [simp]:
  "CHR ''.'' \<notin> set (show_nat n)" "CHR ''|'' \<notin> set (show_nat n)" "CHR ''-'' \<notin> set (show_nat n)"
  using show_nat_digits [of n] is_digit_distinct by blast+

lemma show_int_no_bar [simp]: "CHR ''|'' \<notin> set (show_int i)"
  by (simp add: show_int_def)

lemma show_int_inj: "show_int i = show_int j \<longleftrightarrow> i = j"
proof
  assume eq: "show_int i = show_int j"
  have neg: "show_nat n \<noteq> CHR ''-'' # r" for n r
    using show_nat_no_sep(3) [of n] by (metis list.set_intros(1))
  then have neg': "CHR ''-'' # r \<noteq> show_nat n" for n r by metis
  show "i = j"
    using eq neg neg' by (auto simp: show_int_def show_nat_inj split: if_splits)
qed simp

end
