(* ===== verification/Ns_Path.thy ===== *)
theory Ns_Path
  imports Go_Text
begin

text \<open>
  \<^verbatim>\<open>internal/nspath/nspath.go\<close>, the path values: an ordered sequence of parent-scoped 32-bit
  identifiers, its wire form (one count byte, then one big-endian field per level) and its
  dotted text form. Both readers are strict; the lemmas show that each of them is exactly the
  inverse of its writer.
\<close>

section \<open>Paths and their errors\<close>

type_synonym path = "u32 list"

datatype ns_error = ErrTooDeep | ErrEmpty | ErrMalformed | ErrNotAllocated | ErrExhausted | ErrConflict

definition MaxDepth :: nat where "MaxDepth = 16"
definition NIDSize :: nat where "NIDSize = 4"

definition EncodedLen :: "nat \<Rightarrow> nat" where
  "EncodedLen depth = 1 + depth * NIDSize"

definition ns_Encode :: "path \<Rightarrow> ns_error + bytes" where
  "ns_Encode p =
     (if length p = 0 then Inl ErrEmpty
      else if length p > MaxDepth then Inl ErrTooDeep
      else Inr (word_of_nat (length p) # concat (map PutUint32 p)))"

definition ns_Decode :: "bytes \<Rightarrow> ns_error + path" where
  "ns_Decode b =
     (if length b < 1 then Inl ErrMalformed
      else let n = unat (b ! 0)
           in if n = 0 then Inl ErrEmpty
              else if n > MaxDepth then Inl ErrTooDeep
              else if length b < 1 + n * NIDSize then Inl ErrMalformed
              else Inr (map (\<lambda>i. Uint32 (drop (1 + i * NIDSize) b)) [0..<n]))"

definition At :: "path \<Rightarrow> int \<Rightarrow> u32 option" where
  "At p depth = (if depth < 0 \<or> depth \<ge> int (length p) then None else Some (p ! nat depth))"

definition Path_Depth :: "path \<Rightarrow> nat" where
  "Path_Depth p = length p"

definition Path_String :: "path \<Rightarrow> string" where
  "Path_String p = Join ''.'' (map (\<lambda>n. show_nat (unat n)) p)"

fun parse_parts :: "string list \<Rightarrow> ns_error + path" where
  "parse_parts [] = Inr []"
| "parse_parts (part # parts) =
     (case Sscanf_d part of
        None \<Rightarrow> Inl ErrMalformed
      | Some n \<Rightarrow>
          if show_nat n \<noteq> part then Inl ErrMalformed
          else if n = 0 \<or> n > 0xFFFFFFFF then Inl ErrMalformed
          else (case parse_parts parts of
                  Inl e \<Rightarrow> Inl e
                | Inr p \<Rightarrow> Inr (word_of_nat n # p)))"

definition ns_Parse :: "string \<Rightarrow> ns_error + path" where
  "ns_Parse s0 =
     (let s = TrimSpace s0
      in if s = [] then Inl ErrEmpty
         else let parts = Split CHR ''.'' s
              in if length parts > MaxDepth then Inl ErrTooDeep
                 else parse_parts parts)"

fun Path_Equal :: "path \<Rightarrow> path \<Rightarrow> bool" where
  "Path_Equal p q = (if length p \<noteq> length q then False else list_all (\<lambda>i. p ! i = q ! i) [0..<length p])"

definition encodable :: "path \<Rightarrow> bool" where
  "encodable p \<longleftrightarrow> p \<noteq> [] \<and> length p \<le> MaxDepth"

definition addressable :: "path \<Rightarrow> bool" where
  "addressable p \<longleftrightarrow> encodable p \<and> 0 \<notin> set p"

declare MaxDepth_def [wire_simps] NIDSize_def [wire_simps] EncodedLen_def [wire_simps]
  ns_Encode_def [wire_simps] ns_Decode_def [wire_simps] encodable_def [wire_simps]

section \<open>Wire form\<close>

lemma length_fields [simp]: "length (concat (map PutUint32 p)) = length p * 4"
  by (induction p) auto

lemma drop_field [simp]: "drop (4 + n) (PutUint32 a @ xs) = drop n xs"
  by simp

lemma field_at: "i < length p \<Longrightarrow> Uint32 (drop (i * 4) (concat (map PutUint32 p) @ rest)) = p ! i"
proof (induction p arbitrary: i)
  case (Cons a p)
  then show ?case
    by (cases i) (auto simp del: drop_append)
qed simp

lemma Encode_ok_iff: "(\<exists>b. ns_Encode p = Inr b) \<longleftrightarrow> encodable p"
  by (auto simp: wire_simps)

lemma Encode_length: "ns_Encode p = Inr b \<Longrightarrow> length b = EncodedLen (length p)"
  by (auto simp: wire_simps split: if_splits)

lemma Decode_Encode_append:
  assumes "ns_Encode p = Inr b"
  shows "ns_Decode (b @ rest) = Inr p"
proof -
  have b: "b = word_of_nat (length p) # concat (map PutUint32 p)"
    and n: "length p \<noteq> 0" "length p \<le> 16"
    using assms by (auto simp: wire_simps split: if_splits)
  have "unat (word_of_nat (length p) :: u8) = length p"
    using n by (simp add: unat_of_nat)
  then show ?thesis
    using n by (auto simp: b wire_simps Let_def field_at simp del: drop_append intro: nth_equalityI)
qed

lemma fields_concat:
  "length b \<ge> n * 4 \<Longrightarrow> concat (map (\<lambda>i. PutUint32 (Uint32 (drop (i * 4) b))) [0..<n]) = take (n * 4) b"
proof (induction n)
  case (Suc n)
  then have "PutUint32 (Uint32 (drop (n * 4) b)) = take 4 (drop (n * 4) b)"
    by (intro PutUint32_Uint32) simp
  with Suc show ?case by (simp add: take_add [symmetric] add.commute)
qed simp

lemma Decode_encodable: "ns_Decode b = Inr p \<Longrightarrow> encodable p"
  by (auto simp: wire_simps Let_def split: if_splits)

lemma Encode_Decode_prefix:
  assumes "ns_Decode b = Inr p"
  shows "ns_Encode p = Inr (take (EncodedLen (length p)) b)"
proof -
  obtain c r where b: "b = c # r" using assms by (cases b) (auto simp: ns_Decode_def)
  have n: "unat c \<noteq> 0" "unat c \<le> 16" "unat c * 4 \<le> length r"
    and p: "p = map (\<lambda>i. Uint32 (drop (i * 4) r)) [0..<unat c]"
    using assms by (auto simp: b wire_simps Let_def split: if_splits)
  have "concat (map PutUint32 p) = take (unat c * 4) r"
    using fields_concat [OF n(3)] by (simp add: p comp_def)
  then show ?thesis using n by (simp add: wire_simps b p)
qed

interpretation ns_wire: prefix_codec encodable
  "\<lambda>p. case ns_Encode p of Inl e \<Rightarrow> [] | Inr b \<Rightarrow> b" "\<lambda>b. ok (ns_Decode b)"
proof
  fix p rest
  assume "encodable p"
  then obtain b where "ns_Encode p = Inr b" using Encode_ok_iff by blast
  then show "ok (ns_Decode ((case ns_Encode p of Inl e \<Rightarrow> [] | Inr b \<Rightarrow> b) @ rest)) = Some p"
    by (simp add: Decode_Encode_append)
qed

section \<open>Text form\<close>

lemma parse_parts_show:
  "0 \<notin> set p \<Longrightarrow> parse_parts (map (\<lambda>n. show_nat (unat n)) p) = Inr p"
proof (induction p)
  case (Cons n p)
  have lt: "unat n < 2 ^ 32" using unat_bound [of n] by simp
  then have "Sscanf_d (show_nat (unat n)) = Some (unat n)"
    by (intro Sscanf_show) simp
  moreover have "unat n \<noteq> 0" using Cons.prems by (simp add: unat_eq_0)
  ultimately show ?case using Cons lt by simp
qed simp

lemma parse_parts_sound:
  "parse_parts parts = Inr p \<Longrightarrow>
     map (\<lambda>n. show_nat (unat n)) p = parts \<and> 0 \<notin> set p"
proof (induction parts arbitrary: p)
  case (Cons part parts)
  from Cons.prems obtain n q where n: "show_nat n = part" "n \<noteq> 0" "n \<le> 0xFFFFFFFF"
    and q: "parse_parts parts = Inr q" and p: "p = word_of_nat n # q"
    by (auto split: option.splits if_splits sum.splits)
  have "unat (word_of_nat n :: u32) = n" using n(3) by (simp add: unat_of_nat)
  moreover from this n(2) have "(word_of_nat n :: u32) \<noteq> 0" by (metis unat_0)
  ultimately show ?case using Cons.IH [OF q] n(1) p by auto
qed simp

lemma Path_String_ne_Nil: "p \<noteq> [] \<Longrightarrow> Path_String p \<noteq> []"
  by (cases p; cases "tl p") (auto simp: Path_String_def)

lemma Path_String_chars: "c \<in> set (Path_String p) \<Longrightarrow> is_digit c \<or> c = CHR ''.''"
  using set_Join [of "''.''"] show_nat_digits unfolding Path_String_def by fastforce

lemma TrimSpace_Path_String [simp]: "TrimSpace (Path_String p) = Path_String p"
proof (rule TrimSpace_id)
  have dot: "\<not> is_space CHR ''.''" by (simp add: is_space_def)
  have all: "\<not> is_space c" if "c \<in> set (Path_String p)" for c
    using Path_String_chars [OF that] is_digit_distinct dot by blast
  assume "Path_String p \<noteq> []"
  then show "\<not> is_space (hd (Path_String p))" "\<not> is_space (last (Path_String p))"
    using all by auto
qed

lemma Parse_String:
  assumes "addressable p"
  shows "ns_Parse (Path_String p) = Inr p"
proof -
  have p: "p \<noteq> []" "length p \<le> 16" "0 \<notin> set p"
    using assms by (auto simp: addressable_def wire_simps)
  have "Split CHR ''.'' (Path_String p) = map (\<lambda>n. show_nat (unat n)) p"
    unfolding Path_String_def using p(1) by (intro Split_Join) auto
  then show ?thesis
    using p Path_String_ne_Nil by (simp add: ns_Parse_def Let_def MaxDepth_def parse_parts_show)
qed

lemma String_Parse:
  assumes "ns_Parse s = Inr p"
  shows "addressable p \<and> Path_String p = TrimSpace s"
proof -
  let ?parts = "Split CHR ''.'' (TrimSpace s)"
  have ps: "parse_parts ?parts = Inr p" and len: "length ?parts \<le> 16"
    using assms by (auto simp: ns_Parse_def Let_def MaxDepth_def split: if_splits)
  have m: "map (\<lambda>n. show_nat (unat n)) p = ?parts" and z: "0 \<notin> set p"
    using parse_parts_sound [OF ps] by auto
  have "length p = length ?parts" using m by (metis length_map)
  moreover from this have "p \<noteq> []" using Split_ne_Nil by (metis length_0_conv)
  moreover have "Path_String p = TrimSpace s"
    unfolding Path_String_def m by (rule Join_Split)
  ultimately show ?thesis using len z by (simp add: addressable_def wire_simps)
qed

lemma Path_Equal_iff [simp]: "Path_Equal p q \<longleftrightarrow> p = q"
  by (auto simp: list_all_iff intro: nth_equalityI)

declare Path_Equal.simps [simp del]

end
