(* ===== verification/Ns_Tree.thy ===== *)
theory Ns_Tree
  imports Ns_Path
begin

text \<open>
  \<^verbatim>\<open>internal/nspath/nspath.go\<close> and \<^verbatim>\<open>Graft\<close> of \<^verbatim>\<open>persist.go\<close>: the allocator. Each Go node
  holds two maps to the \<^emph>\<open>same\<close> child objects, one keyed by label and one by identifier, and
  a child is later changed through either. The model therefore keeps the objects in an
  explicit heap (a list; an address is an index, \<open>newNode\<close> appends) and the maps hold
  addresses. Operations walk the heap as the code walks the pointers and return the error or
  value together with the heap they leave behind, also when they stop half way.
\<close>

section \<open>Nodes and the heap\<close>

record node =
  nd_label :: string
  nd_nid :: u32
  nd_children :: "(string \<times> nat) list"
  nd_byNID :: "(u32 \<times> nat) list"
  nd_nextNID :: u32

type_synonym heap = "node list"

record tree =
  t_heap :: heap
  t_root :: nat

definition newNode :: "string \<Rightarrow> u32 \<Rightarrow> node" where
  "newNode l k = \<lparr>nd_label = l, nd_nid = k, nd_children = [], nd_byNID = [], nd_nextNID = 1\<rparr>"

definition NewTree :: tree where
  "NewTree = \<lparr>t_heap = [newNode [] 0], t_root = 0\<rparr>"

definition splitName :: "string \<Rightarrow> string list" where
  "splitName fqdn =
     rev (filter (\<lambda>l. l \<noteq> []) (map TrimSpace (Split CHR ''.'' (TrimSpace (ToLower fqdn)))))"

abbreviation child_at :: "heap \<Rightarrow> nat \<Rightarrow> string \<Rightarrow> nat option" where
  "child_at h a l \<equiv> map_of (nd_children (h ! a)) l"

abbreviation nid_at :: "heap \<Rightarrow> nat \<Rightarrow> u32 \<Rightarrow> nat option" where
  "nid_at h a k \<equiv> map_of (nd_byNID (h ! a)) k"

text \<open>Create a child object, enter it in both maps of its parent and set the parent's counter.\<close>

definition add_child :: "heap \<Rightarrow> nat \<Rightarrow> string \<Rightarrow> u32 \<Rightarrow> u32 \<Rightarrow> heap" where
  "add_child h cur l k nxt =
     h[cur := (h ! cur)\<lparr>nd_children := AList.update l (length h) (nd_children (h ! cur)),
                         nd_byNID := AList.update k (length h) (nd_byNID (h ! cur)),
                         nd_nextNID := nxt\<rparr>] @ [newNode l k]"

section \<open>Operations\<close>

fun allocate_from :: "string list \<Rightarrow> nat \<Rightarrow> path \<Rightarrow> heap \<Rightarrow> (ns_error + path) \<times> heap" where
  "allocate_from [] cur acc h = (Inr acc, h)"
| "allocate_from (l # ls) cur acc h =
     (case child_at h cur l of
        Some c \<Rightarrow> allocate_from ls c (acc @ [nd_nid (h ! c)]) h
      | None \<Rightarrow>
          (let k = nd_nextNID (h ! cur)
           in if k = 0 then (Inl ErrExhausted, h)
              else allocate_from ls (length h) (acc @ [k]) (add_child h cur l k (k + 1))))"

definition Allocate :: "string \<Rightarrow> tree \<Rightarrow> (ns_error + path) \<times> tree" where
  "Allocate fqdn t =
     (let labels = splitName fqdn
      in if length labels = 0 then (Inl ErrEmpty, t)
         else if length labels > MaxDepth then (Inl ErrTooDeep, t)
         else let (r, h) = allocate_from labels (t_root t) [] (t_heap t)
              in (r, t\<lparr>t_heap := h\<rparr>))"

fun resolve_from :: "string list \<Rightarrow> nat \<Rightarrow> path \<Rightarrow> heap \<Rightarrow> ns_error + path" where
  "resolve_from [] cur acc h = Inr acc"
| "resolve_from (l # ls) cur acc h =
     (case child_at h cur l of
        None \<Rightarrow> Inl ErrNotAllocated
      | Some c \<Rightarrow> resolve_from ls c (acc @ [nd_nid (h ! c)]) h)"

definition Resolve :: "tree \<Rightarrow> string \<Rightarrow> ns_error + path" where
  "Resolve t fqdn =
     (let labels = splitName fqdn
      in if length labels = 0 then Inl ErrEmpty
         else resolve_from labels (t_root t) [] (t_heap t))"

fun reverse_from :: "path \<Rightarrow> nat \<Rightarrow> string list \<Rightarrow> heap \<Rightarrow> ns_error + string list" where
  "reverse_from [] cur acc h = Inr acc"
| "reverse_from (k # ks) cur acc h =
     (case nid_at h cur k of
        None \<Rightarrow> Inl ErrNotAllocated
      | Some c \<Rightarrow> reverse_from ks c (acc @ [nd_label (h ! c)]) h)"

definition Reverse :: "tree \<Rightarrow> path \<Rightarrow> ns_error + string" where
  "Reverse t p =
     (if length p = 0 then Inl ErrEmpty
      else case reverse_from p (t_root t) [] (t_heap t) of
             Inl e \<Rightarrow> Inl e
           | Inr labels \<Rightarrow> Inr (Join ''.'' (rev labels)))"

fun descend :: "string list \<Rightarrow> nat \<Rightarrow> heap \<Rightarrow> nat option" where
  "descend [] cur h = Some cur"
| "descend (l # ls) cur h =
     (case child_at h cur l of None \<Rightarrow> None | Some c \<Rightarrow> descend ls c h)"

definition unlink :: "heap \<Rightarrow> nat \<Rightarrow> string \<Rightarrow> nat \<Rightarrow> heap" where
  "unlink h cur leaf c =
     h[cur := (h ! cur)\<lparr>nd_children := AList.delete leaf (nd_children (h ! cur)),
                         nd_byNID := AList.delete (nd_nid (h ! c)) (nd_byNID (h ! cur))\<rparr>]"

definition Forget :: "string \<Rightarrow> tree \<Rightarrow> (ns_error + unit) \<times> tree" where
  "Forget fqdn t =
     (let labels = splitName fqdn; h = t_heap t
      in if length labels = 0 then (Inl ErrEmpty, t)
         else case descend (butlast labels) (t_root t) h of
                None \<Rightarrow> (Inl ErrNotAllocated, t)
              | Some cur \<Rightarrow>
                  (case child_at h cur (last labels) of
                     None \<Rightarrow> (Inl ErrNotAllocated, t)
                   | Some c \<Rightarrow> (Inr (), t\<lparr>t_heap := unlink h cur (last labels) c\<rparr>)))"

fun graft_from :: "(string \<times> u32) list \<Rightarrow> nat \<Rightarrow> heap \<Rightarrow> (ns_error + unit) \<times> heap" where
  "graft_from [] cur h = (Inr (), h)"
| "graft_from ((l, k) # lks) cur h =
     (if k = 0 then (Inl ErrMalformed, h)
      else case child_at h cur l of
             Some c \<Rightarrow>
               if nd_nid (h ! c) \<noteq> k then (Inl ErrConflict, h)
               else graft_from lks c h
           | None \<Rightarrow>
               (case nid_at h cur k of
                  Some c \<Rightarrow> (Inl ErrConflict, h)
                | None \<Rightarrow>
                    graft_from lks (length h)
                      (add_child h cur l k
                        (if k \<ge> nd_nextNID (h ! cur) then k + 1 else nd_nextNID (h ! cur)))))"

definition Graft :: "string \<Rightarrow> path \<Rightarrow> tree \<Rightarrow> (ns_error + unit) \<times> tree" where
  "Graft fqdn p t =
     (let labels = splitName fqdn
      in if length labels = 0 then (Inl ErrEmpty, t)
         else if length labels \<noteq> length p then (Inl ErrMalformed, t)
         else if length labels > MaxDepth then (Inl ErrTooDeep, t)
         else let (r, h) = graft_from (zip labels p) (t_root t) (t_heap t)
              in (r, t\<lparr>t_heap := h\<rparr>))"

section \<open>Invariant\<close>

text \<open>
  \<open>node_ok\<close>: the two maps of a node hold the same children, filed under their own label and
  identifier; identifier 0 is never used; addresses grow along edges, so the graph has no
  cycle. \<open>heap_inv\<close> adds that an object hangs under one parent. \<open>counters_ok\<close> is the promise
  behind monotonic allocation: every live child is below its parent's counter (a counter that
  wrapped to 0 stands for \<open>2 ^ 32\<close>).
\<close>

definition node_ok :: "heap \<Rightarrow> nat \<Rightarrow> bool" where
  "node_ok h a \<longleftrightarrow>
     distinct (map fst (nd_children (h ! a))) \<and> distinct (map fst (nd_byNID (h ! a))) \<and>
     (\<forall>l c. child_at h a l = Some c \<longrightarrow>
        a < c \<and> c < length h \<and> nd_label (h ! c) = l \<and> nd_nid (h ! c) \<noteq> 0 \<and>
        nid_at h a (nd_nid (h ! c)) = Some c) \<and>
     (\<forall>k c. nid_at h a k = Some c \<longrightarrow>
        nd_nid (h ! c) = k \<and> child_at h a (nd_label (h ! c)) = Some c)"

definition heap_inv :: "heap \<Rightarrow> bool" where
  "heap_inv h \<longleftrightarrow>
     (\<forall>a < length h. node_ok h a) \<and>
     (\<forall>a < length h. \<forall>b < length h. \<forall>l m c.
        child_at h a l = Some c \<longrightarrow> child_at h b m = Some c \<longrightarrow> a = b)"

definition below_counter :: "u32 \<Rightarrow> u32 \<Rightarrow> bool" where
  "below_counter k nxt \<longleftrightarrow> nxt = 0 \<or> k < nxt"

definition counters_ok :: "heap \<Rightarrow> bool" where
  "counters_ok h \<longleftrightarrow>
     (\<forall>a < length h. \<forall>l c. child_at h a l = Some c \<longrightarrow> below_counter (nd_nid (h ! c)) (nd_nextNID (h ! a)))"

definition tree_inv :: "tree \<Rightarrow> bool" where
  "tree_inv t \<longleftrightarrow> t_root t < length (t_heap t) \<and> heap_inv (t_heap t) \<and> counters_ok (t_heap t)"

text \<open>What later heaps keep of earlier ones when nothing is removed.\<close>

definition heap_ext :: "heap \<Rightarrow> heap \<Rightarrow> bool" where
  "heap_ext h h' \<longleftrightarrow>
     length h \<le> length h' \<and>
     (\<forall>a < length h. nd_label (h' ! a) = nd_label (h ! a) \<and> nd_nid (h' ! a) = nd_nid (h ! a) \<and>
        (\<forall>l c. child_at h a l = Some c \<longrightarrow> child_at h' a l = Some c))"

lemma node_okD:
  assumes "node_ok h a" "child_at h a l = Some c"
  shows "a < c" "c < length h" "nd_label (h ! c) = l" "nd_nid (h ! c) \<noteq> 0"
    "nid_at h a (nd_nid (h ! c)) = Some c"
  using assms by (auto simp: node_ok_def)

lemma node_ok_nidD:
  assumes "node_ok h a" "nid_at h a k = Some c"
  shows "nd_nid (h ! c) = k" "child_at h a (nd_label (h ! c)) = Some c"
  using assms by (auto simp: node_ok_def)

lemma heap_inv_node: "heap_inv h \<Longrightarrow> a < length h \<Longrightarrow> node_ok h a"
  by (simp add: heap_inv_def)

lemma heap_inv_parent:
  "heap_inv h \<Longrightarrow> child_at h a l = Some c \<Longrightarrow> child_at h b m = Some c \<Longrightarrow>
   a < length h \<Longrightarrow> b < length h \<Longrightarrow> a = b"
  by (simp add: heap_inv_def)

lemma heap_ext_refl [simp]: "heap_ext h h"
  by (simp add: heap_ext_def)

lemma heap_ext_trans: "heap_ext h h' \<Longrightarrow> heap_ext h' h'' \<Longrightarrow> heap_ext h h''"
  by (auto simp: heap_ext_def)

subsection \<open>Adding a child\<close>

lemma length_add_child [simp]: "length (add_child h a l k nxt) = Suc (length h)"
  by (simp add: add_child_def)

lemma add_child_new [simp]: "add_child h a l k nxt ! length h = newNode l k"
  by (simp add: add_child_def nth_append)

lemma add_child_old:
  assumes "b < length h"
  shows "add_child h a l k nxt ! b =
    (if b = a then (h ! a)\<lparr>nd_children := AList.update l (length h) (nd_children (h ! a)),
                          nd_byNID := AList.update k (length h) (nd_byNID (h ! a)),
                          nd_nextNID := nxt\<rparr> else h ! b)"
  using assms by (simp add: add_child_def nth_append)

lemma add_child_label [simp]: "b < length h \<Longrightarrow> nd_label (add_child h a l k nxt ! b) = nd_label (h ! b)"
  by (simp add: add_child_old)

lemma add_child_nid [simp]: "b < length h \<Longrightarrow> nd_nid (add_child h a l k nxt ! b) = nd_nid (h ! b)"
  by (simp add: add_child_old)

lemma add_child_nextNID:
  "b < length h \<Longrightarrow> nd_nextNID (add_child h a l k nxt ! b) = (if b = a then nxt else nd_nextNID (h ! b))"
  by (simp add: add_child_old)

lemma newNode_sel [simp]:
  "nd_label (newNode l k) = l" "nd_nid (newNode l k) = k" "nd_children (newNode l k) = []"
  "nd_byNID (newNode l k) = []" "nd_nextNID (newNode l k) = 1"
  by (simp_all add: newNode_def)

lemma child_at_add_child:
  "b < length h \<Longrightarrow> child_at (add_child h a l k nxt) b m =
     (if b = a \<and> m = l then Some (length h) else child_at h b m)"
  by (simp add: add_child_old)

lemma nid_at_add_child:
  "b < length h \<Longrightarrow> nid_at (add_child h a l k nxt) b j =
     (if b = a \<and> j = k then Some (length h) else nid_at h b j)"
  by (simp add: add_child_old)

lemma node_ok_add_child:
  assumes inv: "\<forall>a < length h. node_ok h a" and a: "a < length h"
    and l: "child_at h a l = None" and k: "nid_at h a k = None" "k \<noteq> 0" and b: "b < Suc (length h)"
  shows "node_ok (add_child h a l k nxt) b"
proof (cases "b = length h")
  case True
  then show ?thesis by (simp add: node_ok_def)
next
  case False
  then have b': "b < length h" using b by simp
  then have ok: "node_ok h b" using inv by blast
  let ?h = "add_child h a l k nxt"
  have dist: "distinct (map fst (nd_children (?h ! b)))" "distinct (map fst (nd_byNID (?h ! b)))"
    using ok b' by (auto simp: add_child_old node_ok_def)
  have ch: "b < c \<and> c < length ?h \<and> nd_label (?h ! c) = m \<and> nd_nid (?h ! c) \<noteq> 0 \<and>
      nid_at ?h b (nd_nid (?h ! c)) = Some c" if "child_at ?h b m = Some c" for m c
  proof (cases "b = a \<and> m = l")
    case True
    then have "c = length h" using that a by (simp add: child_at_add_child)
    then show ?thesis using True a k by (simp add: nid_at_add_child)
  next
    case False
    then have "child_at h b m = Some c" using that b' by (auto simp: child_at_add_child)
    note old = node_okD [OF ok this]
    moreover have "\<not> (b = a \<and> nd_nid (h ! c) = k)" using old(5) k by auto
    ultimately show ?thesis using b' by (simp add: nid_at_add_child)
  qed
  have ni: "nd_nid (?h ! c) = j \<and> child_at ?h b (nd_label (?h ! c)) = Some c"
    if "nid_at ?h b j = Some c" for j c
  proof (cases "b = a \<and> j = k")
    case True
    then have "c = length h" using that a by (simp add: nid_at_add_child)
    then show ?thesis using True a by (simp add: child_at_add_child)
  next
    case False
    then have "nid_at h b j = Some c" using that b' by (auto simp: nid_at_add_child)
    note old = node_ok_nidD [OF ok this]
    have "c < length h" using node_okD(2) [OF ok old(2)] .
    moreover have "\<not> (b = a \<and> nd_label (h ! c) = l)" using old(2) l by auto
    ultimately show ?thesis using b' old by (simp add: child_at_add_child)
  qed
  show ?thesis unfolding node_ok_def using dist ch ni by blast
qed

lemma heap_inv_add_child:
  assumes inv: "heap_inv h" and a: "a < length h"
    and l: "child_at h a l = None" and k: "nid_at h a k = None" "k \<noteq> 0"
  shows "heap_inv (add_child h a l k nxt)"
proof -
  let ?h = "add_child h a l k nxt"
  have old: "c \<noteq> length h" if "child_at h b m = Some c" "b < length h" for b m c
    using node_okD(2) [OF heap_inv_node [OF inv that(2)] that(1)] by simp
  have "b = d" if "child_at ?h b m = Some c" "child_at ?h d n = Some c"
    "b < length ?h" "d < length ?h" for b d m n c
  proof -
    have "b \<noteq> length h" "d \<noteq> length h" using that by auto
    then have bd: "b < length h" "d < length h" using that by auto
    show ?thesis
    proof (cases "c = length h")
      case True
      then show ?thesis using that bd old by (auto simp: child_at_add_child split: if_splits)
    next
      case False
      then have "child_at h b m = Some c" "child_at h d n = Some c"
        using that bd by (auto simp: child_at_add_child split: if_splits)
      then show ?thesis using heap_inv_parent [OF inv] bd by blast
    qed
  qed
  then show ?thesis
    using node_ok_add_child [of h a l k _ nxt] inv a l k unfolding heap_inv_def by auto
qed

lemma counters_ok_add_child:
  assumes cnt: "counters_ok h" and inv: "heap_inv h" and a: "a < length h"
    and k: "below_counter k nxt" and mono: "\<And>j. below_counter j (nd_nextNID (h ! a)) \<Longrightarrow> below_counter j nxt"
  shows "counters_ok (add_child h a l k nxt)"
  unfolding counters_ok_def
proof (intro allI impI)
  fix b m c
  assume b: "b < length (add_child h a l k nxt)" and ch: "child_at (add_child h a l k nxt) b m = Some c"
  then have b': "b < length h" by (cases "b = length h") auto
  show "below_counter (nd_nid (add_child h a l k nxt ! c)) (nd_nextNID (add_child h a l k nxt ! b))"
  proof (cases "b = a \<and> m = l")
    case True
    then have "c = length h" using ch a by (simp add: child_at_add_child)
    then show ?thesis using True a k by (simp add: add_child_nextNID)
  next
    case False
    then have old: "child_at h b m = Some c" using ch b' by (auto simp: child_at_add_child)
    have "c < length h" using node_okD(2) [OF heap_inv_node [OF inv b'] old] .
    moreover have "below_counter (nd_nid (h ! c)) (nd_nextNID (h ! b))"
      using cnt b' old by (auto simp: counters_ok_def)
    ultimately show ?thesis using b' mono by (auto simp: add_child_nextNID)
  qed
qed

lemma heap_ext_add_child:
  "child_at h a l = None \<Longrightarrow> heap_ext h (add_child h a l k nxt)"
  by (auto simp: heap_ext_def child_at_add_child)

lemma below_counter_succ: "below_counter k (k + 1)"
proof (cases "k + 1 = 0")
  case False
  then have "k < k + 1" by (simp add: word_less_nat_alt unatSuc add.commute)
  then show ?thesis by (simp add: below_counter_def)
qed (simp add: below_counter_def)

subsection \<open>Allocation\<close>

lemma next_is_fresh:
  assumes "heap_inv h" "counters_ok h" "a < length h" "nd_nextNID (h ! a) \<noteq> 0"
  shows "nid_at h a (nd_nextNID (h ! a)) = None"
proof (rule ccontr)
  assume "\<not> ?thesis"
  then obtain c where c: "nid_at h a (nd_nextNID (h ! a)) = Some c" by auto
  note k = node_ok_nidD [OF heap_inv_node [OF assms(1,3)] c]
  have "below_counter (nd_nid (h ! c)) (nd_nextNID (h ! a))"
    using assms(2,3) k(2) by (auto simp: counters_ok_def)
  then show False using k(1) assms(4) by (simp add: below_counter_def)
qed

lemma add_next_inv:
  assumes "heap_inv h" "counters_ok h" "a < length h" "nd_nextNID (h ! a) = k" "k \<noteq> 0"
    "child_at h a l = None"
  shows "heap_inv (add_child h a l k (k + 1))" "counters_ok (add_child h a l k (k + 1))"
proof -
  show "heap_inv (add_child h a l k (k + 1))"
    using assms next_is_fresh by (intro heap_inv_add_child) auto
  have "below_counter j (k + 1)" if "below_counter j k" for j
    using that assms(5) below_counter_succ [of k] by (auto simp: below_counter_def)
  then show "counters_ok (add_child h a l k (k + 1))"
    using assms below_counter_succ by (intro counters_ok_add_child) auto
qed

lemma allocate_from_inv:
  assumes "allocate_from ls cur acc h = (r, h')" "heap_inv h" "counters_ok h" "cur < length h"
  shows "heap_inv h' \<and> counters_ok h' \<and> heap_ext h h'"
  using assms
proof (induction ls cur acc h rule: allocate_from.induct)
  case (2 l ls cur acc h)
  show ?case
  proof (cases "child_at h cur l")
    case (Some c)
    then have "c < length h" using node_okD(2) heap_inv_node "2.prems" by blast
    then show ?thesis using 2 Some by simp
  next
    case None
    let ?k = "nd_nextNID (h ! cur)"
    let ?h = "add_child h cur l ?k (?k + 1)"
    show ?thesis
    proof (cases "?k = 0")
      case False
      have "heap_inv ?h" "counters_ok ?h"
        using add_next_inv "2.prems" False None by auto
      moreover have "allocate_from ls (length h) (acc @ [?k]) ?h = (r, h')"
        using "2.prems"(1) None False by (simp add: Let_def)
      ultimately have "heap_inv h' \<and> counters_ok h' \<and> heap_ext ?h h'"
        using "2.IH"(1) [OF None refl False] by simp
      then show ?thesis using heap_ext_trans heap_ext_add_child [OF None] by blast
    qed (use "2.prems" None in \<open>simp add: Let_def\<close>)
  qed
qed simp

lemma resolve_from_ext:
  assumes "resolve_from ls cur acc h = Inr p" "heap_inv h" "heap_ext h h'" "cur < length h"
  shows "resolve_from ls cur acc h' = Inr p"
  using assms
proof (induction ls arbitrary: cur acc)
  case (Cons l ls)
  then obtain c where c: "child_at h cur l = Some c"
    and r: "resolve_from ls c (acc @ [nd_nid (h ! c)]) h = Inr p"
    by (auto split: option.splits)
  have "c < length h" using node_okD(2) heap_inv_node Cons.prems c by blast
  moreover have "child_at h' cur l = Some c" "nd_nid (h' ! c) = nd_nid (h ! c)"
    using Cons.prems c \<open>c < length h\<close> by (auto simp: heap_ext_def)
  ultimately show ?case using Cons r by simp
qed simp

lemma allocate_from_resolve:
  assumes "allocate_from ls cur acc h = (Inr p, h')" "heap_inv h" "counters_ok h" "cur < length h"
  shows "resolve_from ls cur acc h' = Inr p"
  using assms
proof (induction ls cur acc h rule: allocate_from.induct)
  case (2 l ls cur acc h)
  have inv': "heap_inv h' \<and> heap_ext h h'" using allocate_from_inv "2.prems" by blast
  show ?case
  proof (cases "child_at h cur l")
    case (Some c)
    then have "c < length h" using node_okD(2) heap_inv_node "2.prems" by blast
    moreover have "child_at h' cur l = Some c" "nd_nid (h' ! c) = nd_nid (h ! c)"
      using inv' "2.prems"(4) Some calculation by (auto simp: heap_ext_def)
    ultimately show ?thesis using 2 Some by simp
  next
    case None
    let ?k = "nd_nextNID (h ! cur)"
    let ?h = "add_child h cur l ?k (?k + 1)"
    have False: "?k \<noteq> 0" and al: "allocate_from ls (length h) (acc @ [?k]) ?h = (Inr p, h')"
      using "2.prems"(1) None by (auto simp: Let_def split: if_splits)
    have inv: "heap_inv ?h" "counters_ok ?h" using add_next_inv "2.prems" False None by auto
    have r: "resolve_from ls (length h) (acc @ [?k]) h' = Inr p"
      using "2.IH"(1) [OF None refl False al inv] by simp
    have "heap_ext ?h h'" using allocate_from_inv [OF al inv] by simp
    moreover have "child_at ?h cur l = Some (length h)"
      using "2.prems"(4) by (simp add: child_at_add_child)
    ultimately have "child_at h' cur l = Some (length h)" "nd_nid (h' ! length h) = ?k"
      using "2.prems"(4) by (auto simp: heap_ext_def)
    then show ?thesis using r by simp
  qed
qed simp

lemma resolve_from_acc:
  "resolve_from ls cur acc h =
     (case resolve_from ls cur [] h of Inl e \<Rightarrow> Inl e | Inr p \<Rightarrow> Inr (acc @ p))"
proof (induction ls arbitrary: cur acc)
  case (Cons l ls)
  show ?case
  proof (cases "child_at h cur l")
    case (Some c)
    then show ?thesis
      using Cons.IH [of c "acc @ [nd_nid (h ! c)]"] Cons.IH [of c "[nd_nid (h ! c)]"]
      by (simp split: sum.splits)
  qed simp
qed simp

lemma resolve_from_Cons:
  "resolve_from (l # ls) cur [] h = Inr p \<longleftrightarrow>
     (\<exists>c q. child_at h cur l = Some c \<and> resolve_from ls c [] h = Inr q \<and> p = nd_nid (h ! c) # q)"
proof (cases "child_at h cur l")
  case (Some c)
  then show ?thesis using resolve_from_acc [of ls c "[nd_nid (h ! c)]" h]
    by (auto split: sum.splits)
qed simp

lemma resolve_from_length: "resolve_from ls cur [] h = Inr p \<Longrightarrow> length p = length ls"
  by (induction ls arbitrary: cur p) (auto simp: resolve_from_Cons simp del: resolve_from.simps(2))

subsection \<open>Reverse resolution\<close>

lemma reverse_resolve_from:
  assumes "resolve_from ls cur [] h = Inr p" "heap_inv h" "cur < length h"
  shows "reverse_from p cur acc h = Inr (acc @ ls)"
  using assms
proof (induction ls arbitrary: cur p acc)
  case (Cons l ls)
  then obtain c q where c: "child_at h cur l = Some c"
    and q: "resolve_from ls c [] h = Inr q" and p: "p = nd_nid (h ! c) # q"
    by (auto simp only: resolve_from_Cons)
  note n = node_okD [OF heap_inv_node [OF Cons.prems(2,3)] c]
  show ?case using Cons.IH [OF q Cons.prems(2) n(2)] n p by simp
qed simp

lemma resolve_reverse_from:
  assumes "reverse_from p cur acc h = Inr labels" "heap_inv h" "cur < length h"
  shows "\<exists>ls. labels = acc @ ls \<and> resolve_from ls cur [] h = Inr p"
  using assms
proof (induction p arbitrary: cur acc)
  case (Cons k p)
  then obtain c where c: "nid_at h cur k = Some c"
    and r: "reverse_from p c (acc @ [nd_label (h ! c)]) h = Inr labels"
    by (auto split: option.splits)
  note ok = heap_inv_node [OF Cons.prems(2,3)]
  note n = node_ok_nidD [OF ok c]
  have "c < length h" using node_okD(2) [OF ok n(2)] .
  then obtain ls where "labels = (acc @ [nd_label (h ! c)]) @ ls" "resolve_from ls c [] h = Inr p"
    using Cons.IH [OF r Cons.prems(2)] by blast
  then have "labels = acc @ (nd_label (h ! c) # ls) \<and> resolve_from (nd_label (h ! c) # ls) cur [] h = Inr (k # p)"
    using n by (simp only: resolve_from_Cons) auto
  then show ?case by blast
qed simp

end
