(* ===== verification/Ns_Laws.thy ===== *)
theory Ns_Laws
  imports Ns_Tree
begin

text \<open>
  What the allocator promises its clients: names are canonical label lists, allocation and
  resolution agree, an identifier path names one name only, removal and grafting touch nothing
  else, and an identifier that was issued once is never issued to another name.
\<close>

section \<open>Canonical names\<close>

definition label_ok :: "string \<Rightarrow> bool" where
  "label_ok l \<longleftrightarrow> l \<noteq> [] \<and> CHR ''.'' \<notin> set l \<and> ToLower l = l \<and> TrimSpace l = l"

definition written :: "string list \<Rightarrow> string" where
  "written labels = Join ''.'' (rev labels)"

lemma ToLower_fixed: "ToLower s = s \<longleftrightarrow> (\<forall>c\<in>set s. lower_char c = c)"
  by (simp add: ToLower_def map_idI list.map_ident_strong) (metis map_eq_conv map_ident)

lemma splitName_labels:
  assumes "l \<in> set (splitName n)"
  shows "label_ok l"
proof -
  let ?s = "TrimSpace (ToLower n)"
  obtain w where w: "w \<in> set (Split CHR ''.'' ?s)" and l: "l = TrimSpace w" "l \<noteq> []"
    using assms by (auto simp: splitName_def)
  have "set l \<subseteq> set (ToLower n)"
    using set_TrimSpace [of w] set_Split [OF w] set_TrimSpace [of "ToLower n"] l by blast
  moreover have "\<forall>c\<in>set (ToLower n). lower_char c = c" by (auto simp: ToLower_def)
  ultimately have "ToLower l = l" by (auto simp: ToLower_fixed)
  moreover have "CHR ''.'' \<notin> set l" using Split_no_delim [OF w] set_TrimSpace [of w] l by blast
  ultimately show ?thesis using l by (simp add: label_ok_def)
qed

lemma label_ok_edges: "label_ok l \<Longrightarrow> \<not> is_space (hd l) \<and> \<not> is_space (last l)"
  using TrimSpace_edges [of l] by (simp add: label_ok_def)

lemma splitName_written:
  assumes ne: "ls \<noteq> []" and ok: "\<forall>l\<in>set ls. label_ok l"
  shows "splitName (written ls) = ls"
proof -
  let ?r = "rev ls" let ?w = "Join ''.'' ?r"
  have labs: "l \<in> set ls \<Longrightarrow> l \<noteq> [] \<and> TrimSpace l = l \<and> CHR ''.'' \<notin> set l" for l
    using ok by (auto simp: label_ok_def)
  have edges: "hd ?r \<in> set ls" "last ?r \<in> set ls" using ne by (auto simp: hd_rev last_rev)
  have "lower_char CHR ''.'' = CHR ''.''" by (simp add: lower_char_def)
  then have "\<forall>c\<in>set ?w. lower_char c = c"
    using set_Join [of "''.''" ?r] ok by (fastforce simp: label_ok_def ToLower_fixed)
  then have low: "ToLower ?w = ?w" by (simp add: ToLower_fixed)
  have "\<not> is_space (hd ?w)" "\<not> is_space (last ?w)"
    using hd_Join [of ?r "''.''"] last_Join [of ?r "''.''"] edges ne ok labs label_ok_edges by auto
  then have trim: "TrimSpace ?w = ?w" by (intro TrimSpace_id) auto
  have split: "Split CHR ''.'' ?w = ?r" using ne labs by (intro Split_Join) auto
  have "map TrimSpace ?r = ?r" "filter (\<lambda>l. l \<noteq> []) ?r = ?r"
    using labs by (auto intro: map_idI simp: filter_id_conv)
  then show ?thesis by (simp add: splitName_def written_def low trim split)
qed

lemma splitName_idem: "splitName n \<noteq> [] \<Longrightarrow> splitName (written (splitName n)) = splitName n"
  using splitName_written splitName_labels by blast

section \<open>Allocate, Resolve and Reverse\<close>

lemma tree_inv_New: "tree_inv NewTree"
  by (auto simp: tree_inv_def NewTree_def heap_inv_def counters_ok_def node_ok_def)

lemma Allocate_inv: "tree_inv t \<Longrightarrow> tree_inv (snd (Allocate n t))"
  using allocate_from_inv [of "splitName n" "t_root t" "[]" "t_heap t"]
  by (auto simp: Allocate_def Let_def tree_inv_def heap_ext_def split: prod.splits)

lemma Allocate_root [simp]: "t_root (snd (Allocate n t)) = t_root t"
  by (auto simp: Allocate_def Let_def split: prod.splits)

lemma Allocate_ext: "tree_inv t \<Longrightarrow> heap_ext (t_heap t) (t_heap (snd (Allocate n t)))"
  using allocate_from_inv [of "splitName n" "t_root t" "[]" "t_heap t"]
  by (auto simp: Allocate_def Let_def tree_inv_def split: prod.splits)

lemma Resolve_ext:
  assumes "tree_inv t" "heap_ext (t_heap t) (t_heap t')" "t_root t' = t_root t" "Resolve t m = Inr q"
  shows "Resolve t' m = Inr q"
  using assms resolve_from_ext [of "splitName m" "t_root t" "[]" "t_heap t" q]
  by (auto simp: Resolve_def Let_def tree_inv_def split: if_splits)

lemma Resolve_Inr_iff:
  "Resolve t n = Inr p \<longleftrightarrow> splitName n \<noteq> [] \<and> resolve_from (splitName n) (t_root t) [] (t_heap t) = Inr p"
  by (simp add: Resolve_def Let_def)

lemma Resolve_Allocate:
  assumes "tree_inv t" "Allocate n t = (Inr p, t')"
  shows "Resolve t' n = Inr p"
  using assms allocate_from_resolve [of "splitName n" "t_root t" "[]" "t_heap t" p]
  by (auto simp: Allocate_def Resolve_Inr_iff Let_def tree_inv_def split: prod.splits if_splits)

lemma Reverse_Resolve:
  assumes "tree_inv t" "Resolve t n = Inr p"
  shows "Reverse t p = Inr (written (splitName n))"
proof -
  have r: "resolve_from (splitName n) (t_root t) [] (t_heap t) = Inr p" and ne: "splitName n \<noteq> []"
    using assms(2) by (auto simp: Resolve_Inr_iff)
  have "p \<noteq> []" using resolve_from_length [OF r] ne by auto
  then show ?thesis
    using reverse_resolve_from [OF r] assms(1) by (simp add: Reverse_def tree_inv_def written_def)
qed

text \<open>
  The interface a name directory offers: a canonical form of names, a lookup and its inverse.
  From the one law that reverse lookup undoes lookup follows that no two names share a path.
\<close>

locale name_directory =
  fixes good :: "'t \<Rightarrow> bool"
    and canon :: "string \<Rightarrow> string"
    and lookup :: "'t \<Rightarrow> string \<Rightarrow> ns_error + path"
    and explain :: "'t \<Rightarrow> path \<Rightarrow> ns_error + string"
  assumes explain_lookup: "good t \<Longrightarrow> lookup t n = Inr p \<Longrightarrow> explain t p = Inr (canon n)"
begin

lemma lookup_inj: "good t \<Longrightarrow> lookup t n = Inr p \<Longrightarrow> lookup t m = Inr p \<Longrightarrow> canon n = canon m"
  using explain_lookup by (metis sum.inject(2))

lemma explain_total: "good t \<Longrightarrow> lookup t n = Inr p \<Longrightarrow> \<exists>m. explain t p = Inr m"
  using explain_lookup by blast

end

interpretation ns_dir: name_directory tree_inv "\<lambda>n. written (splitName n)" Resolve Reverse
  by unfold_locales (rule Reverse_Resolve)

lemma written_splitName_inj:
  assumes "written (splitName n) = written (splitName m)" "splitName n \<noteq> []" "splitName m \<noteq> []"
  shows "splitName n = splitName m"
  using assms splitName_idem by metis

lemma Resolve_inj:
  assumes "tree_inv t" "Resolve t n = Inr p" "Resolve t m = Inr p"
  shows "splitName n = splitName m"
  using ns_dir.lookup_inj [OF assms] assms written_splitName_inj by (auto simp: Resolve_Inr_iff)

section \<open>Forget\<close>

lemma length_unlink [simp]: "length (unlink h a l c) = length h"
  by (simp add: unlink_def)

lemma unlink_sel [simp]:
  "b < length h \<Longrightarrow> nd_label (unlink h a l c ! b) = nd_label (h ! b)"
  "b < length h \<Longrightarrow> nd_nid (unlink h a l c ! b) = nd_nid (h ! b)"
  "b < length h \<Longrightarrow> nd_nextNID (unlink h a l c ! b) = nd_nextNID (h ! b)"
  by (cases "a = b"; simp add: unlink_def)+

lemma unlink_maps:
  assumes "a < length h"
  shows "child_at (unlink h a l c) b m = (if b = a \<and> m = l then None else child_at h b m)"
    "nid_at (unlink h a l c) b k = (if b = a \<and> k = nd_nid (h ! c) then None else nid_at h b k)"
  using assms by (cases "b = a"; simp add: unlink_def)+

lemma unlink_distinct:
  assumes "a < length h" "node_ok h b"
  shows "distinct (map fst (nd_children (unlink h a l c ! b)))"
    "distinct (map fst (nd_byNID (unlink h a l c ! b)))"
  using assms by (cases "b = a"; auto simp: unlink_def node_ok_def)+

lemma heap_inv_unlink:
  assumes inv: "heap_inv h" and a: "a < length h" and c: "child_at h a l = Some c"
  shows "heap_inv (unlink h a l c)"
proof -
  let ?h = "unlink h a l c"
  have "node_ok ?h b" if b: "b < length h" for b
  proof -
    note ok = heap_inv_node [OF inv b]
    note cn = node_okD [OF heap_inv_node [OF inv a] c]
    have "b < d \<and> d < length ?h \<and> nd_label (?h ! d) = m \<and> nd_nid (?h ! d) \<noteq> 0 \<and>
        nid_at ?h b (nd_nid (?h ! d)) = Some d" if "child_at ?h b m = Some d" for m d
    proof -
      have nl: "\<not> (b = a \<and> m = l)" and old: "child_at h b m = Some d"
        using that by (auto simp: unlink_maps [OF a] split: if_splits)
      note dn = node_okD [OF ok old]
      have "\<not> (b = a \<and> nd_nid (h ! d) = nd_nid (h ! c))"
        using nl dn(3,5) cn(3,5) by (metis option.inject)
      then show ?thesis using dn by (simp add: unlink_maps [OF a])
    qed
    moreover have "nd_nid (?h ! d) = k \<and> child_at ?h b (nd_label (?h ! d)) = Some d"
      if "nid_at ?h b k = Some d" for k d
    proof -
      have nk: "\<not> (b = a \<and> k = nd_nid (h ! c))" and old: "nid_at h b k = Some d"
        using that by (auto simp: unlink_maps [OF a] split: if_splits)
      note dn = node_ok_nidD [OF ok old]
      have "d < length h" using node_okD(2) [OF ok dn(2)] .
      moreover have "\<not> (b = a \<and> nd_label (h ! d) = l)" using nk dn c by auto
      ultimately show ?thesis using dn by (simp add: unlink_maps [OF a])
    qed
    ultimately show ?thesis
      unfolding node_ok_def using unlink_distinct [OF a ok] by blast
  qed
  moreover have "b = d" if "child_at ?h b m = Some e" "child_at ?h d n = Some e"
    "b < length h" "d < length h" for b d m n e
    using that heap_inv_parent [OF inv] by (auto simp: unlink_maps [OF a] split: if_splits)
  ultimately show ?thesis unfolding heap_inv_def by auto
qed

lemma counters_ok_unlink:
  assumes "counters_ok h" "heap_inv h" "a < length h"
  shows "counters_ok (unlink h a l c)"
  unfolding counters_ok_def
proof (intro allI impI)
  fix b m d
  assume b: "b < length (unlink h a l c)" and "child_at (unlink h a l c) b m = Some d"
  then have d: "child_at h b m = Some d" using assms(3) by (auto simp: unlink_maps split: if_splits)
  have "d < length h" using node_okD(2) [OF heap_inv_node [OF assms(2)] d] b by simp
  then show "below_counter (nd_nid (unlink h a l c ! d)) (nd_nextNID (unlink h a l c ! b))"
    using assms(1) b d by (auto simp: counters_ok_def)
qed

lemma descend_bound:
  assumes "descend ls cur h = Some c" "heap_inv h" "cur < length h"
  shows "cur \<le> c \<and> c < length h"
  using assms
proof (induction ls arbitrary: cur)
  case (Cons l ls)
  then obtain d where d: "child_at h cur l = Some d" "descend ls d h = Some c"
    by (auto split: option.splits)
  note n = node_okD(1,2) [OF heap_inv_node [OF Cons.prems(2,3)] d(1)]
  show ?case using Cons.IH [OF d(2) Cons.prems(2) n(2)] n(1) by simp
qed simp

lemma Forget_cases:
  assumes "Forget n t = (Inr (), t')"
  obtains cur c where "splitName n \<noteq> []" "descend (butlast (splitName n)) (t_root t) (t_heap t) = Some cur"
    "child_at (t_heap t) cur (last (splitName n)) = Some c"
    "t' = t\<lparr>t_heap := unlink (t_heap t) cur (last (splitName n)) c\<rparr>"
  using assms by (auto simp: Forget_def Let_def split: if_splits option.splits)

lemma Forget_error_frame: "fst (Forget n t) = Inl e \<Longrightarrow> snd (Forget n t) = t"
  by (auto simp: Forget_def Let_def split: if_splits option.splits)

lemma Forget_inv:
  assumes "tree_inv t"
  shows "tree_inv (snd (Forget n t))"
proof (cases "fst (Forget n t)")
  case (Inr u)
  then have f: "Forget n t = (Inr (), snd (Forget n t))" by (metis old.unit.exhaust prod.collapse)
  obtain cur c where "descend (butlast (splitName n)) (t_root t) (t_heap t) = Some cur"
    and c: "child_at (t_heap t) cur (last (splitName n)) = Some c"
    and t': "snd (Forget n t) = t\<lparr>t_heap := unlink (t_heap t) cur (last (splitName n)) c\<rparr>"
    using Forget_cases [OF f] by metis
  then have "cur < length (t_heap t)" using descend_bound assms by (auto simp: tree_inv_def)
  then show ?thesis
    using assms c by (simp add: t' tree_inv_def heap_inv_unlink counters_ok_unlink)
qed (use assms Forget_error_frame in force)

text \<open>Below a detached edge nothing resolves; a walk that avoids the edge is unchanged.\<close>

lemma resolve_unlink_gone:
  assumes "descend ls cur h = Some a" "heap_inv h" "cur < length h" "a < length h"
  shows "resolve_from (ls @ l # ms) cur acc (unlink h a l c) = Inl ErrNotAllocated"
  using assms
proof (induction ls arbitrary: cur acc)
  case Nil
  then show ?case by (simp add: unlink_maps)
next
  case (Cons m ls)
  then obtain d where d: "child_at h cur m = Some d" "descend ls d h = Some a"
    by (auto split: option.splits)
  note n = node_okD(1,2) [OF heap_inv_node [OF Cons.prems(2,3)] d(1)]
  have "d \<le> a" using descend_bound [OF d(2) Cons.prems(2) n(2)] by simp
  then have "child_at (unlink h a l c) cur m = Some d"
    using n(1) d(1) Cons.prems(4) by (simp add: unlink_maps)
  then show ?case using Cons.IH [OF d(2) Cons.prems(2) n(2) Cons.prems(4)] by simp
qed

lemma resolve_unlink_keep:
  assumes "resolve_from ms cur acc h = Inr q" "heap_inv h" "cur < length h" "a < length h"
    "\<And>ls rest. ms = ls @ l # rest \<Longrightarrow> descend ls cur h \<noteq> Some a"
  shows "resolve_from ms cur acc (unlink h a l c) = Inr q"
  using assms
proof (induction ms arbitrary: cur acc)
  case (Cons m ms)
  then obtain d where d: "child_at h cur m = Some d"
    and r: "resolve_from ms d (acc @ [nd_nid (h ! d)]) h = Inr q"
    by (auto split: option.splits)
  have dl: "d < length h" using node_okD(2) [OF heap_inv_node [OF Cons.prems(2,3)] d] .
  have "\<not> (cur = a \<and> m = l)" using Cons.prems(5) [of "[]" ms] by auto
  then have keep: "child_at (unlink h a l c) cur m = Some d" "nd_nid (unlink h a l c ! d) = nd_nid (h ! d)"
    using d dl Cons.prems(4) by (auto simp: unlink_maps)
  have "descend ls d h \<noteq> Some a" if "ms = ls @ l # rest" for ls rest
    using Cons.prems(5) [of "m # ls" rest] that d by simp
  then show ?case using Cons.IH [OF r Cons.prems(2) dl Cons.prems(4)] keep by simp
qed simp

text \<open>In a tree an address is reached along one label list only.\<close>

lemma descend_snoc:
  "descend (ls @ [l]) cur h = (case descend ls cur h of None \<Rightarrow> None | Some a \<Rightarrow> child_at h a l)"
  by (induction ls arbitrary: cur) (auto split: option.splits)

lemma descend_inj:
  assumes "heap_inv h" "cur < length h" "descend ls cur h = Some a" "descend ms cur h = Some a"
  shows "ls = ms"
  using assms(3,4)
proof (induction ls arbitrary: ms a rule: rev_induct)
  case Nil
  have "a \<noteq> cur" if "ms = ns @ [m]" for ns m
  proof -
    obtain b where b: "descend ns cur h = Some b" "child_at h b m = Some a"
      using Nil(2) \<open>ms = ns @ [m]\<close> by (auto simp: descend_snoc split: option.splits)
    have "cur \<le> b" "b < length h" using descend_bound [OF b(1) assms(1,2)] by auto
    then show ?thesis using node_okD(1) [OF heap_inv_node [OF assms(1)] b(2)] by simp
  qed
  then show ?case using Nil by (cases ms rule: rev_cases) auto
next
  case (snoc l ls)
  obtain b where b: "descend ls cur h = Some b" "child_at h b l = Some a"
    using snoc.prems(1) by (auto simp: descend_snoc split: option.splits)
  have bb: "cur \<le> b" "b < length h" using descend_bound [OF b(1) assms(1,2)] by auto
  note nb = node_okD [OF heap_inv_node [OF assms(1) bb(2)] b(2)]
  have "ms \<noteq> []" using snoc.prems(2) nb(1) bb(1) by auto
  then obtain ns m where ms: "ms = ns @ [m]" by (cases ms rule: rev_cases) auto
  obtain d where d: "descend ns cur h = Some d" "child_at h d m = Some a"
    using snoc.prems(2) by (auto simp: ms descend_snoc split: option.splits)
  have dd: "d < length h" using descend_bound [OF d(1) assms(1,2)] by simp
  have "b = d" using heap_inv_parent [OF assms(1) b(2) d(2) bb(2) dd] .
  moreover have "l = m" using nb(3) node_okD(3) [OF heap_inv_node [OF assms(1) dd] d(2)] by simp
  ultimately show ?case using snoc.IH b(1) d(1) ms by simp
qed

lemma Forget_gone:
  assumes inv: "tree_inv t" and f: "Forget n t = (Inr (), t')" and m: "splitName m = splitName n @ below"
  shows "Resolve t' m = Inl ErrNotAllocated"
proof -
  obtain cur c where ne: "splitName n \<noteq> []"
    and d: "descend (butlast (splitName n)) (t_root t) (t_heap t) = Some cur"
    and t': "t' = t\<lparr>t_heap := unlink (t_heap t) cur (last (splitName n)) c\<rparr>"
    using Forget_cases [OF f] by metis
  have h: "heap_inv (t_heap t)" "t_root t < length (t_heap t)" using inv by (auto simp: tree_inv_def)
  have eq: "splitName m = butlast (splitName n) @ last (splitName n) # below"
    using ne m by (metis append_Cons append_Nil append_assoc append_butlast_last_id)
  show ?thesis
    using resolve_unlink_gone [OF d h] descend_bound [OF d h] t' unfolding Resolve_def eq Let_def by simp
qed

lemma Forget_keeps:
  assumes inv: "tree_inv t" and f: "Forget n t = (Inr (), t')" and q: "Resolve t m = Inr q"
    and apart: "\<not> prefix (splitName n) (splitName m)"
  shows "Resolve t' m = Inr q"
proof -
  obtain cur c where ne: "splitName n \<noteq> []"
    and d: "descend (butlast (splitName n)) (t_root t) (t_heap t) = Some cur"
    and t': "t' = t\<lparr>t_heap := unlink (t_heap t) cur (last (splitName n)) c\<rparr>"
    using Forget_cases [OF f] by metis
  have h: "heap_inv (t_heap t)" "t_root t < length (t_heap t)" using inv by (auto simp: tree_inv_def)
  have r: "resolve_from (splitName m) (t_root t) [] (t_heap t) = Inr q" "splitName m \<noteq> []"
    using q by (auto simp: Resolve_Inr_iff)
  have "descend ls (t_root t) (t_heap t) \<noteq> Some cur"
    if "splitName m = ls @ last (splitName n) # rest" for ls rest
  proof
    assume "descend ls (t_root t) (t_heap t) = Some cur"
    then have "ls = butlast (splitName n)" using descend_inj [OF h] d by blast
    then have "splitName m = splitName n @ rest" using that ne by simp
    then show False using apart by (simp add: prefix_def)
  qed
  then show ?thesis
    using resolve_unlink_keep [OF r(1) h] descend_bound [OF d h] r(2) t' by (simp add: Resolve_Inr_iff)
qed

section \<open>Graft\<close>

definition unexhausted :: "nat \<Rightarrow> heap \<Rightarrow> bool" where
  "unexhausted a h \<longleftrightarrow> (\<forall>b. a \<le> b \<and> b < length h \<longrightarrow> nd_nextNID (h ! b) \<noteq> 0)"

lemma graft_from_inv:
  assumes "graft_from lks cur h = (r, h')" "heap_inv h" "cur < length h"
  shows "heap_inv h' \<and> heap_ext h h'"
  using assms
proof (induction lks cur h rule: graft_from.induct)
  case (2 l k lks cur h)
  let ?nxt = "if k \<ge> nd_nextNID (h ! cur) then k + 1 else nd_nextNID (h ! cur)"
  show ?case
  proof (cases "child_at h cur l")
    case (Some c)
    then have "c < length h" using node_okD(2) heap_inv_node "2.prems" by blast
    then show ?thesis using 2 Some by (auto split: if_splits)
  next
    case None
    show ?thesis
    proof (cases "k = 0 \<or> nid_at h cur k \<noteq> None")
      case True
      then show ?thesis using 2 None by (auto split: if_splits)
    next
      case False
      let ?h = "add_child h cur l k ?nxt"
      have "heap_inv ?h" using heap_inv_add_child "2.prems" None False by auto
      moreover have "graft_from lks (length h) ?h = (r, h')" using "2.prems"(1) None False by auto
      ultimately have "heap_inv h' \<and> heap_ext ?h h'" using "2.IH"(1) None False by simp
      then show ?thesis using heap_ext_trans heap_ext_add_child [OF None] by blast
    qed
  qed
qed simp

lemma graft_counter:
  fixes k N :: u32
  assumes "N \<noteq> 0"
  shows "below_counter k (if k \<ge> N then k + 1 else N)"
    "below_counter j N \<Longrightarrow> below_counter j (if k \<ge> N then k + 1 else N)"
  using assms below_counter_succ [of k] by (auto simp: below_counter_def)

lemma graft_from_counters:
  assumes "graft_from lks cur h = (r, h')" "heap_inv h" "counters_ok h" "cur < length h" "unexhausted cur h"
  shows "counters_ok h'"
  using assms
proof (induction lks cur h rule: graft_from.induct)
  case (2 l k lks cur h)
  let ?nxt = "if k \<ge> nd_nextNID (h ! cur) then k + 1 else nd_nextNID (h ! cur)"
  show ?case
  proof (cases "child_at h cur l")
    case (Some c)
    note c = node_okD(1,2) [OF heap_inv_node [OF "2.prems"(2,4)] Some]
    then have "unexhausted c h" using "2.prems"(5) by (auto simp: unexhausted_def)
    then show ?thesis using 2 Some c by (auto split: if_splits)
  next
    case None
    show ?thesis
    proof (cases "k = 0 \<or> nid_at h cur k \<noteq> None")
      case True
      then show ?thesis using 2 None by (auto split: if_splits)
    next
      case False
      let ?h = "add_child h cur l k ?nxt"
      have N: "nd_nextNID (h ! cur) \<noteq> 0" using "2.prems"(4,5) by (simp add: unexhausted_def)
      have "heap_inv ?h" using heap_inv_add_child "2.prems" None False by auto
      moreover have "counters_ok ?h"
        using counters_ok_add_child [OF "2.prems"(3,2,4)] graft_counter [OF N] by blast
      moreover have "unexhausted (length h) ?h"
        unfolding unexhausted_def length_add_child by (metis add_child_new le_antisym less_Suc_eq_le newNode_sel(5) zero_neq_one)
      moreover have "graft_from lks (length h) ?h = (r, h')" using "2.prems"(1) None False by auto
      ultimately show ?thesis using "2.IH"(1) None False by simp
    qed
  qed
qed simp

lemma graft_from_resolve:
  assumes "graft_from lks cur h = (Inr (), h')" "heap_inv h" "cur < length h"
  shows "resolve_from (map fst lks) cur acc h' = Inr (acc @ map snd lks)"
  using assms
proof (induction lks cur h arbitrary: acc rule: graft_from.induct)
  case (2 l k lks cur h)
  let ?nxt = "if k \<ge> nd_nextNID (h ! cur) then k + 1 else nd_nextNID (h ! cur)"
  have ext: "heap_ext h h'" using graft_from_inv [OF "2.prems"] by simp
  show ?case
  proof (cases "child_at h cur l")
    case (Some c)
    then have c: "c < length h" using node_okD(2) heap_inv_node "2.prems" by blast
    then have "child_at h' cur l = Some c" "nd_nid (h' ! c) = nd_nid (h ! c)"
      using ext Some "2.prems"(3) by (auto simp: heap_ext_def)
    then show ?thesis using 2 Some c by (auto split: if_splits)
  next
    case None
    let ?h = "add_child h cur l k ?nxt"
    have nk: "k \<noteq> 0" "nid_at h cur k = None" and g: "graft_from lks (length h) ?h = (Inr (), h')"
      using "2.prems"(1) None by (auto split: if_splits option.splits)
    have inv: "heap_inv ?h" using heap_inv_add_child "2.prems" None nk by auto
    have "heap_ext ?h h'" using graft_from_inv [OF g inv] by simp
    moreover have "child_at ?h cur l = Some (length h)" using "2.prems"(3) by (simp add: child_at_add_child)
    ultimately have "child_at h' cur l = Some (length h)" "nd_nid (h' ! length h) = k"
      using "2.prems"(3) by (auto simp: heap_ext_def)
    then show ?thesis using "2.IH"(1) [OF nk(1) None nk(2) g inv] by simp
  qed
qed simp

lemma Graft_root [simp]: "t_root (snd (Graft n p t)) = t_root t"
  by (auto simp: Graft_def Let_def split: prod.splits)

lemma Graft_ext:
  assumes "tree_inv t"
  shows "heap_inv (t_heap (snd (Graft n p t)))" "heap_ext (t_heap t) (t_heap (snd (Graft n p t)))"
  using assms graft_from_inv [of "zip (splitName n) p" "t_root t" "t_heap t"]
  by (auto simp: Graft_def Let_def tree_inv_def split: prod.splits)

lemma Graft_inv:
  assumes "tree_inv t" "unexhausted (t_root t) (t_heap t)"
  shows "tree_inv (snd (Graft n p t))"
proof -
  have "counters_ok (t_heap (snd (Graft n p t)))"
    using assms graft_from_counters [of "zip (splitName n) p" "t_root t" "t_heap t"]
    by (auto simp: Graft_def Let_def tree_inv_def split: prod.splits)
  moreover have "length (t_heap t) \<le> length (t_heap (snd (Graft n p t)))"
    using Graft_ext(2) [OF assms(1)] by (simp add: heap_ext_def)
  ultimately show ?thesis using assms(1) Graft_ext(1) [OF assms(1)] by (simp add: tree_inv_def)
qed

lemma Resolve_Graft:
  assumes "tree_inv t" "Graft n p t = (Inr (), t')"
  shows "Resolve t' n = Inr p"
  using assms graft_from_resolve [of "zip (splitName n) p" "t_root t" "t_heap t" _ "[]"]
  by (auto simp: Graft_def Resolve_Inr_iff Let_def tree_inv_def split: prod.splits if_splits)

section \<open>Identifiers are never reissued\<close>

text \<open>
  The objects stay in the heap after \<open>Forget\<close> detaches them, so the heap remembers every
  identifier that was ever issued. \<open>issued par h\<close> says so: \<open>par c\<close> is the node that created
  object \<open>c\<close>, all objects ever created under one node carry different identifiers, and the
  counter of that node is above all of them.
\<close>

definition issued :: "(nat \<Rightarrow> nat) \<Rightarrow> heap \<Rightarrow> bool" where
  "issued par h \<longleftrightarrow>
     (\<forall>c. 0 < c \<and> c < length h \<longrightarrow>
        par c < c \<and> below_counter (nd_nid (h ! c)) (nd_nextNID (h ! par c))) \<and>
     (\<forall>c d. 0 < c \<and> c < length h \<and> 0 < d \<and> d < length h \<and> par c = par d \<and> nd_nid (h ! c) = nd_nid (h ! d) \<longrightarrow> c = d) \<and>
     (\<forall>a l c. a < length h \<longrightarrow> child_at h a l = Some c \<longrightarrow> par c = a)"

lemma issued_par:
  assumes "issued par h" "0 < c" "c < length h"
  shows "par c < c" "below_counter (nd_nid (h ! c)) (nd_nextNID (h ! par c))"
  using assms by (simp_all add: issued_def)

lemma issued_distinct:
  "issued par h \<Longrightarrow> 0 < c \<Longrightarrow> c < length h \<Longrightarrow> 0 < d \<Longrightarrow> d < length h \<Longrightarrow>
   par c = par d \<Longrightarrow> nd_nid (h ! c) = nd_nid (h ! d) \<Longrightarrow> c = d"
  unfolding issued_def by blast

lemma issued_child: "issued par h \<Longrightarrow> a < length h \<Longrightarrow> child_at h a l = Some c \<Longrightarrow> par c = a"
  unfolding issued_def by blast

definition grows :: "(nat \<Rightarrow> nat) \<Rightarrow> heap \<Rightarrow> (nat \<Rightarrow> nat) \<Rightarrow> heap \<Rightarrow> bool" where
  "grows par h par' h' \<longleftrightarrow> length h \<le> length h' \<and>
     (\<forall>c < length h. par' c = par c \<and> nd_nid (h' ! c) = nd_nid (h ! c) \<and> nd_label (h' ! c) = nd_label (h ! c))"

lemma grows_refl [simp]: "grows par h par h"
  by (simp add: grows_def)

lemma grows_trans: "grows p h p' h' \<Longrightarrow> grows p' h' p'' h'' \<Longrightarrow> grows p h p'' h''"
  by (simp add: grows_def)

lemma issued_add_next:
  assumes iss: "issued par h" and inv: "heap_inv h" and a: "a < length h"
    and k: "nd_nextNID (h ! a) = k" "k \<noteq> 0" and l: "child_at h a l = None"
  shows "issued (par(length h := a)) (add_child h a l k (k + 1))"
proof -
  let ?h = "add_child h a l k (k + 1)" and ?p = "par(length h := a)"
  have old: "0 < c \<Longrightarrow> c < length h \<Longrightarrow> par c < c \<and> below_counter (nd_nid (h ! c)) (nd_nextNID (h ! par c))" for c
    using iss by (simp add: issued_def)
  have fresh: "nd_nid (h ! c) \<noteq> k" if "0 < c" "c < length h" "par c = a" for c
    using old [OF that(1,2)] that(3) k by (auto simp: below_counter_def)
  have up: "below_counter j (k + 1)" if "below_counter j k" for j
    using that k(2) below_counter_succ [of k] by (auto simp: below_counter_def)
  have "?p c < c \<and> below_counter (nd_nid (?h ! c)) (nd_nextNID (?h ! ?p c))" if "0 < c" "c < length ?h" for c
  proof (cases "c = length h")
    case True
    then show ?thesis using a below_counter_succ by (simp add: add_child_nextNID)
  next
    case False
    then have c: "c < length h" using that by simp
    moreover have "par c < length h" using old [OF that(1) c] c by simp
    ultimately show ?thesis using old [OF that(1) c] k up by (auto simp: add_child_nextNID)
  qed
  moreover have "c = d" if "0 < c" "c < length ?h" "0 < d" "d < length ?h" "?p c = ?p d"
    "nd_nid (?h ! c) = nd_nid (?h ! d)" for c d
  proof (cases "c = length h \<or> d = length h")
    case True
    have new: "e = length h" if e: "0 < e" "e < length ?h" "?p e = a" "nd_nid (?h ! e) = k" for e
      using fresh [of e] e by (cases "e = length h") auto
    have at: "?p (length h) = a" "nd_nid (?h ! length h) = k" by simp_all
    show ?thesis
    proof (cases "c = length h")
      case True
      then show ?thesis using new [OF that(3,4)] that(5,6) at by metis
    next
      case False
      then show ?thesis using True new [OF that(1,2)] that(5,6) at by metis
    qed
  next
    case False
    then have "c < length h" "d < length h" using that by auto
    then show ?thesis using that False issued_distinct [OF iss] by simp
  qed
  moreover have "?p c = b" if "b < length ?h" "child_at ?h b m = Some c" for b m c
  proof -
    have b: "b < length h" using that by (cases "b = length h") auto
    show ?thesis
    proof (cases "b = a \<and> m = l")
      case True
      then show ?thesis using that b by (simp add: child_at_add_child)
    next
      case False
      then have oldc: "child_at h b m = Some c" using that b by (auto simp: child_at_add_child)
      have "c < length h" using node_okD(2) [OF heap_inv_node [OF inv b] oldc] .
      then show ?thesis using issued_child [OF iss b oldc] by simp
    qed
  qed
  ultimately show ?thesis unfolding issued_def by blast
qed

lemma allocate_from_issued:
  assumes "allocate_from ls cur acc h = (r, h')" "heap_inv h" "counters_ok h" "cur < length h" "issued par h"
  shows "\<exists>par'. issued par' h' \<and> grows par h par' h'"
  using assms
proof (induction ls cur acc h arbitrary: par rule: allocate_from.induct)
  case (1 cur acc h)
  then show ?case by (metis allocate_from.simps(1) grows_refl prod.inject)
next
  case (2 l ls cur acc h)
  show ?case
  proof (cases "child_at h cur l")
    case (Some c)
    then have "c < length h" using node_okD(2) heap_inv_node "2.prems" by blast
    then show ?thesis using 2 Some by simp
  next
    case None
    let ?k = "nd_nextNID (h ! cur)"
    let ?h = "add_child h cur l ?k (?k + 1)"
    show ?thesis
    proof (cases "?k = 0")
      case True
      then show ?thesis using "2.prems" None by (auto simp: Let_def)
    next
      case False
      have "allocate_from ls (length h) (acc @ [?k]) ?h = (r, h')"
        using "2.prems"(1) None False by (simp add: Let_def)
      moreover have "issued (par(length h := cur)) ?h"
        using issued_add_next "2.prems" None False by simp
      ultimately obtain par' where p: "issued par' h' \<and> grows (par(length h := cur)) ?h par' h'"
        using "2.IH"(1) [OF None refl False] add_next_inv "2.prems" None False by fastforce
      moreover have "grows par h (par(length h := cur)) ?h" by (simp add: grows_def)
      ultimately show ?thesis using grows_trans by blast
    qed
  qed
qed

lemma issued_unlink:
  assumes "issued par h" "heap_inv h" "a < length h"
  shows "issued par (unlink h a l c)" "grows par h par (unlink h a l c)"
proof -
  show "grows par h par (unlink h a l c)" by (simp add: grows_def)
  show "issued par (unlink h a l c)"
    unfolding issued_def
  proof (intro conjI allI impI; (elim conjE)?)
    fix d assume d: "0 < d" "d < length (unlink h a l c)"
    then show "par d < d" using issued_par(1) [OF assms(1)] by simp
    then show "below_counter (nd_nid (unlink h a l c ! d)) (nd_nextNID (unlink h a l c ! par d))"
      using issued_par(2) [OF assms(1)] d by simp
  next
    fix d e assume "0 < d" "d < length (unlink h a l c)" "0 < e" "e < length (unlink h a l c)"
      "par d = par e" "nd_nid (unlink h a l c ! d) = nd_nid (unlink h a l c ! e)"
    then show "d = e" using issued_distinct [OF assms(1)] by simp
  next
    fix b m d assume "b < length (unlink h a l c)" "child_at (unlink h a l c) b m = Some d"
    then show "par d = b" using issued_child [OF assms(1)] assms(3) by (simp add: unlink_maps split: if_splits)
  qed
qed

lemma issued_same_path:
  assumes "resolve_from ls a [] h = Inr p" "resolve_from ms a [] h' = Inr p"
    "issued par h" "issued par' h'" "grows par h par' h'" "heap_inv h" "heap_inv h'" "a < length h"
  shows "ls = ms"
  using assms
proof (induction ls arbitrary: a p ms)
  case Nil
  then show ?case using resolve_from_length [OF Nil(2)] by simp
next
  case (Cons l ls)
  obtain c q where c: "child_at h a l = Some c" "resolve_from ls c [] h = Inr q" "p = nd_nid (h ! c) # q"
    using Cons.prems(1) by (auto simp only: resolve_from_Cons)
  have "length ms = length p" using resolve_from_length [OF Cons.prems(2)] by simp
  then obtain m ms' where ms: "ms = m # ms'" using c(3) by (cases ms) auto
  obtain d where d: "child_at h' a m = Some d" "resolve_from ms' d [] h' = Inr q" "nd_nid (h' ! d) = nd_nid (h ! c)"
    using Cons.prems(2) c(3) by (auto simp only: ms resolve_from_Cons)
  have a': "a < length h'" using Cons.prems(5,8) by (simp add: grows_def)
  note nc = node_okD [OF heap_inv_node [OF Cons.prems(6,8)] c(1)]
  note nd = node_okD [OF heap_inv_node [OF Cons.prems(7) a'] d(1)]
  have "par' c = a" "nd_nid (h' ! c) = nd_nid (h ! c)" "nd_label (h' ! c) = l" "c < length h'"
    using issued_child [OF Cons.prems(3,8) c(1)] Cons.prems(5) nc by (auto simp: grows_def)
  moreover have "par' d = a" by (rule issued_child [OF Cons.prems(4) a' d(1)])
  ultimately have "c = d" using issued_distinct [OF Cons.prems(4)] nc(1) nd(1,2) d(3) by simp
  then show ?case using Cons.IH [OF c(2) _ Cons.prems(3-7) nc(2)] d nd(3) \<open>nd_label (h' ! c) = l\<close> ms by simp
qed

datatype tree_op = OpAllocate string | OpForget string

fun tree_step :: "tree_op \<Rightarrow> tree \<Rightarrow> tree" where
  "tree_step (OpAllocate n) t = snd (Allocate n t)"
| "tree_step (OpForget n) t = snd (Forget n t)"

definition tree_run :: "tree_op list \<Rightarrow> tree \<Rightarrow> tree" where
  "tree_run ops t = fold tree_step ops t"

definition ledger :: "(nat \<Rightarrow> nat) \<Rightarrow> tree \<Rightarrow> bool" where
  "ledger par t \<longleftrightarrow> tree_inv t \<and> issued par (t_heap t)"

lemma tree_step_ledger:
  assumes "ledger par t"
  shows "\<exists>par'. ledger par' (tree_step e t) \<and> grows par (t_heap t) par' (t_heap (tree_step e t)) \<and>
    t_root (tree_step e t) = t_root t"
proof (cases e)
  case (OpAllocate n)
  have "\<exists>par'. issued par' (t_heap (snd (Allocate n t))) \<and> grows par (t_heap t) par' (t_heap (snd (Allocate n t)))"
    using assms allocate_from_issued [of "splitName n" "t_root t" "[]" "t_heap t"]
    by (fastforce simp: Allocate_def Let_def tree_inv_def ledger_def split: prod.splits)
  then show ?thesis using OpAllocate assms Allocate_inv by (auto simp: ledger_def)
next
  case (OpForget n)
  show ?thesis
  proof (cases "fst (Forget n t)")
    case (Inl err)
    then show ?thesis using OpForget assms Forget_error_frame by fastforce
  next
    case (Inr u)
    then have f: "Forget n t = (Inr (), snd (Forget n t))" by (metis old.unit.exhaust prod.collapse)
    obtain cur c where d: "descend (butlast (splitName n)) (t_root t) (t_heap t) = Some cur"
      and t': "snd (Forget n t) = t\<lparr>t_heap := unlink (t_heap t) cur (last (splitName n)) c\<rparr>"
      using Forget_cases [OF f] by metis
    have "cur < length (t_heap t)" using descend_bound [OF d] assms by (auto simp: tree_inv_def ledger_def)
    then have "issued par (t_heap (snd (Forget n t)))" "grows par (t_heap t) par (t_heap (snd (Forget n t)))"
      "t_root (snd (Forget n t)) = t_root t"
      using assms issued_unlink by (auto simp: t' tree_inv_def ledger_def)
    then show ?thesis using OpForget assms Forget_inv by (auto simp: ledger_def)
  qed
qed

lemma tree_run_ledger:
  assumes "ledger par t"
  shows "\<exists>par'. ledger par' (tree_run ops t) \<and> grows par (t_heap t) par' (t_heap (tree_run ops t)) \<and>
    t_root (tree_run ops t) = t_root t"
  using assms
proof (induction ops arbitrary: par t)
  case Nil
  then show ?case by (auto simp: tree_run_def)
next
  case (Cons e ops)
  obtain p1 where p1: "ledger p1 (tree_step e t)" "grows par (t_heap t) p1 (t_heap (tree_step e t))"
    "t_root (tree_step e t) = t_root t"
    using tree_step_ledger [OF Cons.prems] by blast
  show ?case using Cons.IH [OF p1(1)] p1 grows_trans by (fastforce simp: tree_run_def)
qed

lemma ledger_New: "ledger par NewTree"
  using tree_inv_New by (auto simp: ledger_def issued_def NewTree_def)

end
