(* ===== verification/Ns_Props.thy ===== *)
theory Ns_Props
  imports Ns_Laws
begin

text \<open>
  The properties of the namespace allocator: identifiers are never reissued, what was allocated
  resolves and keeps resolving, names and paths are in one-to-one correspondence, a released
  name takes its subtree with it and nothing else, grafting reproduces the published path, and
  the one case in which grafting breaks the promise. The tree \<open>ex_tree\<close> serves as the example.
\<close>

definition ex_ops :: "tree_op list" where
  "ex_ops = [OpAllocate ''b.a'', OpAllocate ''c.a'', OpForget ''b.a'']"

definition ex_tree :: tree where
  "ex_tree = tree_run [OpAllocate ''b.a'', OpAllocate ''c.a''] NewTree"

lemma tree_run_inv: "tree_inv (tree_run ops NewTree)"
  using tree_run_ledger [OF ledger_New] by (auto simp: ledger_def)

lemma ex_tree_inv: "tree_inv ex_tree"
  by (simp add: ex_tree_def tree_run_inv)

lemma ex_tree_facts:
  "Resolve ex_tree ''b.a'' = Inr [1, 1]" "Resolve ex_tree ''c.a'' = Inr [1, 2]"
  "Allocate ''d.a'' ex_tree = (Inr [1, 3], snd (Allocate ''d.a'' ex_tree))"
  "Graft ''z.y'' [9, 4] ex_tree = (Inr (), snd (Graft ''z.y'' [9, 4] ex_tree))"
  "Forget ''b.a'' ex_tree = (Inr (), snd (Forget ''b.a'' ex_tree))"
  "splitName ''b.a'' = [''a'', ''b'']" "splitName ''c.a'' = [''a'', ''c'']" "splitName ''x.B.a'' = [''a'', ''b'', ''x'']"
  "list_all (\<lambda>d. nd_nextNID d \<noteq> 0) (t_heap ex_tree)" "splitName ''B.a'' = [''a'', ''b'']"
  "Resolve (tree_run [OpForget ''c.a''] ex_tree) ''B.a'' = Inr [1, 1]"
  by code_simp+

section \<open>Properties\<close>

text \<open>C1. Identifiers are never reissued. Take any history of allocations and releases from the
  empty tree, and let it continue in any way: if a path that once named \<open>n\<close> later names \<open>m\<close>, then
  \<open>n\<close> and \<open>m\<close> are the same name.\<close>

theorem path_never_reissued:
  assumes "Resolve (tree_run ops NewTree) n = Inr p" "Resolve (tree_run later (tree_run ops NewTree)) m = Inr p"
  shows "splitName n = splitName m"
proof -
  obtain par where l: "ledger par (tree_run ops NewTree)" using tree_run_ledger [OF ledger_New] by blast
  obtain par' where l': "ledger par' (tree_run later (tree_run ops NewTree))"
    "grows par (t_heap (tree_run ops NewTree)) par' (t_heap (tree_run later (tree_run ops NewTree)))"
    "t_root (tree_run later (tree_run ops NewTree)) = t_root (tree_run ops NewTree)"
    using tree_run_ledger [OF l] by blast
  have r: "resolve_from (splitName n) (t_root (tree_run ops NewTree)) [] (t_heap (tree_run ops NewTree)) = Inr p"
    "resolve_from (splitName m) (t_root (tree_run ops NewTree)) [] (t_heap (tree_run later (tree_run ops NewTree))) = Inr p"
    using assms l'(3) by (auto simp: Resolve_Inr_iff)
  show ?thesis
    by (rule issued_same_path [OF r _ _ l'(2)]) (use l l'(1) in \<open>auto simp: ledger_def tree_inv_def\<close>)
qed

theorem path_never_reissued_witness: "splitName ''b.a'' = splitName ''B.a''"
  using path_never_reissued [of "[OpAllocate ''b.a'', OpAllocate ''c.a'']" "''b.a''" "[1, 1]" "[OpForget ''c.a'']" "''B.a''"]
    ex_tree_facts(1,11) by (simp add: ex_tree_def)

text \<open>What \<^verbatim>\<open>Allocate\<close> returns is what \<^verbatim>\<open>Resolve\<close> finds afterwards, and everything that resolved
  before resolves to the same path: allocating is idempotent and disturbs nothing.\<close>

theorem Allocate_then_Resolve:
  assumes "tree_inv t" "Allocate n t = (Inr p, t')"
  shows "Resolve t' n = Inr p \<and> (\<forall>m q. Resolve t m = Inr q \<longrightarrow> Resolve t' m = Inr q) \<and> tree_inv t'"
proof -
  have "heap_ext (t_heap t) (t_heap t')" "t_root t' = t_root t" "tree_inv t'"
    using Allocate_ext [OF assms(1), of n] Allocate_root [of n t] Allocate_inv [OF assms(1), of n] assms(2) by simp_all
  then show ?thesis using Resolve_Allocate [OF assms] Resolve_ext [OF assms(1)] by blast
qed

theorem Allocate_then_Resolve_witness: "Resolve (snd (Allocate ''d.a'' ex_tree)) ''d.a'' = Inr [1, 3]"
  using Allocate_then_Resolve [OF ex_tree_inv ex_tree_facts(3)] by blast

text \<open>C35. \<^verbatim>\<open>Reverse\<close> undoes \<^verbatim>\<open>Resolve\<close>: the path of a name gives back the name in canonical
  written form, so two names with one path are spellings of the same name.\<close>

theorem Reverse_of_Resolve:
  assumes "tree_inv t" "Resolve t n = Inr p"
  shows "Reverse t p = Inr (written (splitName n)) \<and> (\<forall>m. Resolve t m = Inr p \<longrightarrow> splitName m = splitName n)"
  using Reverse_Resolve [OF assms] Resolve_inj [OF assms(1) _ assms(2)] by blast

theorem Reverse_of_Resolve_witness: "Reverse ex_tree [1, 1] = Inr ''b.a''"
  using Reverse_of_Resolve [OF ex_tree_inv ex_tree_facts(1)] ex_tree_facts(6) by (simp add: written_def)

text \<open>C36. A released name no longer resolves, nor does anything below it; every name outside that
  subtree resolves to the path it had.\<close>

theorem Forget_exactly_the_subtree:
  assumes "tree_inv t" "Forget n t = (Inr (), t')" "Resolve t m = Inr q"
  shows "Resolve t' m = (if prefix (splitName n) (splitName m) then Inl ErrNotAllocated else Inr q) \<and> tree_inv t'"
proof -
  have "tree_inv t'" using Forget_inv [OF assms(1), of n] assms(2) by simp
  then show ?thesis
    using Forget_gone [OF assms(1,2)] Forget_keeps [OF assms] by (auto elim: prefixE)
qed

theorem Forget_exactly_the_subtree_witness: "Resolve (snd (Forget ''b.a'' ex_tree)) ''c.a'' = Inr [1, 2]"
  using Forget_exactly_the_subtree [OF ex_tree_inv ex_tree_facts(5) ex_tree_facts(2)] ex_tree_facts(6,7) by simp

text \<open>A successful \<^verbatim>\<open>Graft\<close> makes the name resolve to exactly the identifiers the caller chose
  and leaves every other name as it was; while no counter is used up, it keeps the invariant, so
  allocations made afterwards do not collide with it.\<close>

theorem Graft_exact:
  assumes "tree_inv t" "Graft n p t = (Inr (), t')"
  shows "Resolve t' n = Inr p \<and> (\<forall>m q. Resolve t m = Inr q \<longrightarrow> Resolve t' m = Inr q) \<and>
    (unexhausted (t_root t) (t_heap t) \<longrightarrow> tree_inv t')"
proof -
  have "heap_ext (t_heap t) (t_heap t')" "t_root t' = t_root t"
    "unexhausted (t_root t) (t_heap t) \<longrightarrow> tree_inv t'"
    using Graft_ext(2) [OF assms(1), of n p] Graft_root [of n p t] Graft_inv [OF assms(1), of n p] assms(2) by simp_all
  then show ?thesis using Resolve_Graft [OF assms] Resolve_ext [OF assms(1)] by blast
qed

theorem Graft_exact_witness:
  "Resolve (snd (Graft ''z.y'' [9, 4] ex_tree)) ''z.y'' = Inr [9, 4] \<and> tree_inv (snd (Graft ''z.y'' [9, 4] ex_tree))"
proof -
  have "unexhausted (t_root ex_tree) (t_heap ex_tree)"
    using ex_tree_facts(9) by (auto simp: unexhausted_def list_all_length)
  then show ?thesis using Graft_exact [OF ex_tree_inv ex_tree_facts(4)] by blast
qed

text \<open>The comment on \<^verbatim>\<open>Graft\<close> promises that later allocations never collide with a grafted
  name. They can: grafting the largest identifier wraps the counter to 0, the next graft lowers it,
  and \<^verbatim>\<open>Allocate\<close> then gives a name the path of another one.\<close>

theorem Graft_then_Allocate_collides:
  "\<exists>t1 t2 t3 t4. Graft ''x'' [6] NewTree = (Inr (), t1) \<and> Graft ''y'' [0xFFFFFFFF] t1 = (Inr (), t2) \<and>
     Graft ''z'' [5] t2 = (Inr (), t3) \<and> Allocate ''w'' t3 = (Inr [6], t4) \<and>
     Resolve t4 ''x'' = Inr [6] \<and> Resolve t4 ''w'' = Inr [6] \<and> splitName ''x'' \<noteq> splitName ''w''"
proof -
  define t1 where "t1 = snd (Graft ''x'' [6] NewTree)"
  define t2 where "t2 = snd (Graft ''y'' [0xFFFFFFFF] t1)"
  define t3 where "t3 = snd (Graft ''z'' [5] t2)"
  define t4 where "t4 = snd (Allocate ''w'' t3)"
  note d = t4_def t3_def t2_def t1_def
  have "Graft ''x'' [6] NewTree = (Inr (), t1)" unfolding d by code_simp
  moreover have "Graft ''y'' [0xFFFFFFFF] t1 = (Inr (), t2)" unfolding d by code_simp
  moreover have "Graft ''z'' [5] t2 = (Inr (), t3)" unfolding d by code_simp
  moreover have "Allocate ''w'' t3 = (Inr [6], t4)" unfolding d by code_simp
  moreover have "Resolve t4 ''x'' = Inr [6]" unfolding d by code_simp
  moreover have "Resolve t4 ''w'' = Inr [6]" unfolding d by code_simp
  moreover have "splitName ''x'' \<noteq> splitName ''w''" by code_simp
  ultimately show ?thesis by blast
qed

text \<open>The wire form of a path: a path of one to sixteen levels is encoded in exactly
  \<^verbatim>\<open>EncodedLen\<close> bytes and read back whatever follows it in the packet, and whatever
  \<^verbatim>\<open>Decode\<close> accepts is the encoding it would itself have produced.\<close>

theorem path_wire_roundtrip:
  "(ns_Encode p = Inr b \<longrightarrow> ns_Decode (b @ rest) = Inr p \<and> length b = EncodedLen (Path_Depth p)) \<and>
   (ns_Decode c = Inr q \<longrightarrow> ns_Encode q = Inr (take (EncodedLen (Path_Depth q)) c))"
  using Decode_Encode_append Encode_length Encode_Decode_prefix by (auto simp: Path_Depth_def)

theorem path_wire_roundtrip_witness:
  "ns_Decode ([2, 0, 0, 0, 1, 0, 0, 1, 2] @ [99]) = Inr [1, 258] \<and> ns_Encode [1, 258] = Inr [2, 0, 0, 0, 1, 0, 0, 1, 2]"
proof -
  have "ns_Encode [1, 258] = Inr [2, 0, 0, 0, 1, 0, 0, 1, 2]" by code_simp
  then show ?thesis using path_wire_roundtrip [of "[1, 258]" "[2, 0, 0, 0, 1, 0, 0, 1, 2]" "[99]"] by simp
qed

text \<open>The text form of a path: printing a path of one to sixteen non-zero identifiers and
  parsing it gives the path back, and whatever \<^verbatim>\<open>Parse\<close> accepts is (up to surrounding blanks) the
  canonical printing of the result.\<close>

theorem path_text_roundtrip:
  "(addressable p \<longrightarrow> ns_Parse (Path_String p) = Inr p) \<and>
   (ns_Parse s = Inr q \<longrightarrow> Path_String q = TrimSpace s \<and> addressable q)"
  using Parse_String String_Parse by blast

theorem path_text_roundtrip_witness: "ns_Parse (Path_String [1, 42]) = Inr [1, 42]"
  using path_text_roundtrip [of "[1, 42]"] by (simp add: addressable_def encodable_def MaxDepth_def)

end
