(* ===== verification/Go_Time.thy ===== *)
theory Go_Time
  imports Prelude
begin

text \<open>
  Go's \<^verbatim>\<open>time\<close> package as DNX uses it. A \<^verbatim>\<open>time.Time\<close> is a number of nanoseconds since the
  Unix epoch; a \<^verbatim>\<open>time.Duration\<close> is a signed 64-bit number of nanoseconds, and \<^verbatim>\<open>Time.Sub\<close>
  saturates at its ends. Negating the least duration gives the least duration again.
\<close>

type_synonym time = int
type_synonym duration = int

definition Millisecond :: duration where "Millisecond = 1000000"
definition Second :: duration where "Second = 1000000000"

definition maxDuration :: duration where "maxDuration = 2 ^ 63 - 1"
definition minDuration :: duration where "minDuration = - (2 ^ 63)"

definition Time_Sub :: "time \<Rightarrow> time \<Rightarrow> duration" where
  "Time_Sub t u =
     (if t - u < minDuration then minDuration
      else if t - u > maxDuration then maxDuration
      else t - u)"

definition Duration_neg :: "duration \<Rightarrow> duration" where
  "Duration_neg d = (if d = minDuration then minDuration else - d)"

definition UnixMilli :: "int \<Rightarrow> time" where
  "UnixMilli ms = ms * 1000000"

text \<open>\<^verbatim>\<open>t.UnixMilli()\<close> of a clock reading.\<close>

definition to_millis :: "time \<Rightarrow> int" where
  "to_millis t = t div 1000000"

text \<open>\<^verbatim>\<open>time.Time{}\<close>: the first of January of the year 1.\<close>

definition zeroTime :: time where
  "zeroTime = - 62135596800 * 1000000000"

text \<open>Integer division of Go, which rounds towards zero.\<close>

definition quot :: "int \<Rightarrow> int \<Rightarrow> int" where
  "quot a b = sgn a * sgn b * (\<bar>a\<bar> div \<bar>b\<bar>)"

lemma quot_nonneg: "0 \<le> a \<Longrightarrow> 0 < b \<Longrightarrow> quot a b = a div b"
  by (cases "a = 0") (auto simp: quot_def sgn_if)

text \<open>
  The replay window shared by the registry (\<^verbatim>\<open>freshTS\<close>) and the handshake (\<^verbatim>\<open>FreshTS\<close>): the
  same code with the same 30 second tolerance.
\<close>

definition skew_ok :: "time \<Rightarrow> duration \<Rightarrow> int \<Rightarrow> bool" where
  "skew_ok now maxSkew tsMillis =
     (let d = Time_Sub now (UnixMilli tsMillis);
          d' = (if d < 0 then Duration_neg d else d)
      in d' < maxSkew)"

lemma skew_ok_iff:
  assumes "0 < maxSkew" "maxSkew \<le> maxDuration"
  shows "skew_ok now maxSkew ts \<longleftrightarrow>
    \<bar>now - UnixMilli ts\<bar> < maxSkew \<or> now - UnixMilli ts \<le> minDuration"
  using assms by (auto simp: skew_ok_def Let_def Time_Sub_def Duration_neg_def minDuration_def maxDuration_def)

end
