(* ===== verification/Stream.thy ===== *)
theory Stream
  imports Go_Time
begin

text \<open>
  \<^verbatim>\<open>internal/stream/stream.go\<close>: the reliable byte stream. One record holds the fields of the Go
  struct; each method is a function from the state (and a clock reading where the code calls
  \<^verbatim>\<open>time.Now\<close>) to the new state and the frames it hands to \<^verbatim>\<open>sendFn\<close>. A region the code runs
  under the lock is one step. A blocking \<^verbatim>\<open>cond.Wait\<close> is a result of its own, and the
  one place where the code can divide by zero returns \<open>None\<close>.
\<close>

section \<open>Constants\<close>

definition FrameData :: u8 where "FrameData = 1"
definition FrameAck :: u8 where "FrameAck = 2"
definition FrameFin :: u8 where "FrameFin = 3"
definition FrameRst :: u8 where "FrameRst = 4"

definition headerLen :: nat where "headerLen = 13"
definition MaxSegment :: nat where "MaxSegment = 1200"
definition RecvBufMax :: nat where "RecvBufMax = 256 * 1024"

definition minRTO :: duration where "minRTO = 200 * Millisecond"
definition maxRTO :: duration where "maxRTO = 10 * Second"
definition initialCwnd :: u32 where "initialCwnd = 4 * word_of_nat MaxSegment"
definition maxRetries :: nat where "maxRetries = 12"

section \<open>State\<close>

datatype stream_err = ErrClosed | ErrReset | ErrUnreachable u32 nat | ErrEOF

record segment =
  sg_seq :: u32
  sg_data :: bytes
  sg_sentAt :: time
  sg_retries :: nat

record stream =
  st_closed :: bool
  st_reset :: bool
  st_err :: "stream_err option"
  sndNext :: u32
  sndUnack :: u32
  sndQueue :: "segment list"
  peerWnd :: u32
  cwnd :: u32
  ssthresh :: u32
  finSent :: bool
  rcvNext :: u32
  rcvOOO :: "(u32 \<times> bytes) list"
  rcvBuf :: bytes
  finRecvd :: bool
  srtt :: duration
  rttvar :: duration
  rto :: duration
  haveRTT :: bool
  ackPending :: bool
  lastProbe :: time
  probeInterval :: duration

definition New :: stream where
  "New = \<lparr>st_closed = False, st_reset = False, st_err = None,
          sndNext = 0, sndUnack = 0, sndQueue = [],
          peerWnd = word_of_nat RecvBufMax, cwnd = initialCwnd, ssthresh = word_of_nat RecvBufMax,
          finSent = False,
          rcvNext = 0, rcvOOO = [], rcvBuf = [], finRecvd = False,
          srtt = 0, rttvar = 0, rto = minRTO * 3, haveRTT = False,
          ackPending = False, lastProbe = zeroTime, probeInterval = minRTO\<rparr>"

section \<open>Frames\<close>

record frame =
  fr_typ :: u8
  fr_seq :: u32
  fr_ack :: u32
  fr_wnd :: u16
  fr_payload :: bytes

datatype frame_error = FrameTooShort nat | FrameLenExceeds u16

definition encodeFrame :: "u8 \<Rightarrow> u32 \<Rightarrow> u32 \<Rightarrow> u16 \<Rightarrow> bytes \<Rightarrow> bytes" where
  "encodeFrame ty seq ack wnd payload =
     [ty] @ PutUint32 seq @ PutUint32 ack @ PutUint16 wnd @
     PutUint16 (word_of_nat (length payload)) @ payload"

definition decodeFrame :: "bytes \<Rightarrow> frame_error + frame" where
  "decodeFrame b =
     (if length b < headerLen then Inl (FrameTooShort (length b))
      else let n = Uint16 (drop 11 b)
           in if unat n > length b - headerLen then Inl (FrameLenExceeds n)
              else Inr \<lparr>fr_typ = b ! 0, fr_seq = Uint32 (drop 1 b), fr_ack = Uint32 (drop 5 b),
                        fr_wnd = Uint16 (drop 9 b), fr_payload = take (unat n) (drop headerLen b)\<rparr>)"

section \<open>Helpers\<close>

definition seqLT :: "u32 \<Rightarrow> u32 \<Rightarrow> bool" where "seqLT a b \<longleftrightarrow> sint (a - b) < 0"
definition seqLE :: "u32 \<Rightarrow> u32 \<Rightarrow> bool" where "seqLE a b \<longleftrightarrow> sint (a - b) \<le> 0"

definition windowAvailable :: "stream \<Rightarrow> u32" where
  "windowAvailable s =
     (let inFlight = sndNext s - sndUnack s;
          limit = (if peerWnd s < cwnd s then peerWnd s else cwnd s)
      in if inFlight \<ge> limit then 0 else limit - inFlight)"

definition advertiseWindow :: "stream \<Rightarrow> u16" where
  "advertiseWindow s =
     (let free = int RecvBufMax - int (length (rcvBuf s));
          free1 = (if free < 0 then 0 else free);
          free2 = (if free1 > 65535 then 65535 else free1)
      in word_of_int free2)"

definition ackFrame :: "stream \<Rightarrow> bytes" where
  "ackFrame s = encodeFrame FrameAck (sndNext s) (rcvNext s) (advertiseWindow s) []"

definition sendAck :: "stream \<Rightarrow> stream \<times> bytes list" where
  "sendAck s = (s\<lparr>ackPending := False\<rparr>, [ackFrame s])"

definition Stats :: "stream \<Rightarrow> u32 \<times> u32 \<times> duration \<times> nat" where
  "Stats s = (sndNext s - sndUnack s, cwnd s, rto s, length (sndQueue s))"

section \<open>Write, Read, Close\<close>

datatype write_out = WDone nat | WErr nat stream_err | WBlocked nat bytes

text \<open>The part of the loop of \<^verbatim>\<open>Write\<close> from the taking of \<open>n\<close> bytes to the hand-over of the frame.\<close>

definition write_chunk :: "bytes \<Rightarrow> stream \<Rightarrow> nat" where
  "write_chunk p s =
     (let n = unat (windowAvailable s);
          n1 = (if n > length p then length p else n)
      in if n1 > MaxSegment then MaxSegment else n1)"

definition write_seg :: "time \<Rightarrow> bytes \<Rightarrow> stream \<Rightarrow> stream \<times> bytes" where
  "write_seg now p s =
     (let n = write_chunk p s;
          seg = \<lparr>sg_seq = sndNext s, sg_data = take n p, sg_sentAt = now, sg_retries = 0\<rparr>;
          s' = s\<lparr>sndNext := sndNext s + word_of_nat n, sndQueue := sndQueue s @ [seg]\<rparr>
      in (s'\<lparr>ackPending := False\<rparr>,
          encodeFrame FrameData (sg_seq seg) (rcvNext s') (advertiseWindow s') (sg_data seg)))"

lemma write_chunk_pos: "p \<noteq> [] \<Longrightarrow> windowAvailable s > 0 \<Longrightarrow> 0 < write_chunk p s"
  by (auto simp: write_chunk_def Let_def MaxSegment_def word_less_nat_alt)

text \<open>
  \<^verbatim>\<open>Write\<close> until it is done, refused, or blocked on a full window; \<open>clk w\<close> is the clock
  reading when \<open>w\<close> bytes are written.
\<close>

function Write :: "(nat \<Rightarrow> time) \<Rightarrow> bytes \<Rightarrow> nat \<Rightarrow> stream \<Rightarrow> write_out \<times> bytes list \<times> stream" where
  "Write clk p written s =
     (if p = [] then (WDone written, [], s)
      else if st_closed s \<or> st_reset s then
        (WErr written (case st_err s of None \<Rightarrow> ErrClosed | Some e \<Rightarrow> e), [], s)
      else if \<not> windowAvailable s > 0 then (WBlocked written p, [], s)
      else let n = write_chunk p s;
               (s', f) = write_seg (clk written) p s;
               (out, fs, s'') = Write clk (drop n p) (written + n) s'
           in (out, f # fs, s''))"
  by pat_completeness auto

termination
  by (relation "measure (\<lambda>(clk, p, w, s). length p)") (auto simp: write_chunk_pos)

declare Write.simps [simp del]

datatype read_out = ROk bytes | RErr stream_err | RBlocked

definition Read :: "nat \<Rightarrow> stream \<Rightarrow> read_out \<times> bytes list \<times> stream" where
  "Read k s =
     (if length (rcvBuf s) > 0 then
        let n = min k (length (rcvBuf s));
            s1 = s\<lparr>rcvBuf := drop n (rcvBuf s), ackPending := True\<rparr>;
            (s2, fs) = sendAck s1
        in (ROk (take n (rcvBuf s)), fs, s2)
      else if st_reset s then (RErr ErrReset, [], s)
      else if finRecvd s then (RErr ErrEOF, [], s)
      else if st_closed s then (RErr ErrClosed, [], s)
      else (RBlocked, [], s))"

definition Close :: "stream \<Rightarrow> bytes list \<times> stream" where
  "Close s =
     (if st_closed s then ([], s)
      else let sendFin = (\<not> finSent s);
               s' = s\<lparr>st_closed := True, finSent := True\<rparr>
           in (if sendFin then [encodeFrame FrameFin (sndNext s') (rcvNext s') (advertiseWindow s') []] else [],
               s'))"

section \<open>Inbound frames\<close>

lemma length_alist_delete: "map_of m k = Some v \<Longrightarrow> length (AList.delete k m) < length m"
proof -
  assume "map_of m k = Some v"
  then have "(k, v) \<in> set m" by (rule map_of_SomeD)
  then show ?thesis
    unfolding AList.delete_eq by (intro length_filter_less [of "(k, v)"]) auto
qed

function drainOOO :: "stream \<Rightarrow> stream" where
  "drainOOO s =
     (case map_of (rcvOOO s) (rcvNext s) of
        None \<Rightarrow> s
      | Some data \<Rightarrow>
          let s1 = s\<lparr>rcvOOO := AList.delete (rcvNext s) (rcvOOO s)\<rparr>
          in if length data = 0 then s1\<lparr>finRecvd := True\<rparr>
             else drainOOO (s1\<lparr>rcvBuf := rcvBuf s1 @ data,
                               rcvNext := rcvNext s1 + word_of_nat (length data)\<rparr>))"
  by pat_completeness auto

termination
  by (relation "measure (\<lambda>s. length (rcvOOO s))") (auto simp: length_alist_delete)

declare drainOOO.simps [simp del]

text \<open>The second half of \<^verbatim>\<open>acceptData\<close>, once the overlap is trimmed off.\<close>

definition placeData :: "u32 \<Rightarrow> bytes \<Rightarrow> stream \<Rightarrow> stream" where
  "placeData seq data s =
     (if length (rcvBuf s) + length data > RecvBufMax then s
      else if seq = rcvNext s then
        drainOOO (s\<lparr>rcvBuf := rcvBuf s @ data, rcvNext := rcvNext s + word_of_nat (length data)\<rparr>)
      else case map_of (rcvOOO s) seq of
             Some d \<Rightarrow> s
           | None \<Rightarrow> s\<lparr>rcvOOO := AList.update seq data (rcvOOO s)\<rparr>)"

definition acceptData :: "u32 \<Rightarrow> bytes \<Rightarrow> stream \<Rightarrow> stream" where
  "acceptData seq data s =
     (if seqLE (seq + word_of_nat (length data)) (rcvNext s) then s
      else if seqLT seq (rcvNext s) then
        let trim = rcvNext s - seq
        in if unat trim < length data then placeData (rcvNext s) (drop (unat trim) data) s
           else s
      else placeData seq data s)"

definition updateRTT :: "duration \<Rightarrow> stream \<Rightarrow> stream" where
  "updateRTT sample s =
     (let s1 = (if \<not> haveRTT s then s\<lparr>srtt := sample, rttvar := quot sample 2, haveRTT := True\<rparr>
                else let d = srtt s - sample;
                         d' = (if d < 0 then - d else d)
                     in s\<lparr>rttvar := quot (3 * rttvar s + d') 4, srtt := quot (7 * srtt s + sample) 8\<rparr>);
          r = srtt s1 + 4 * rttvar s1;
          r1 = (if r < minRTO then minRTO else r);
          r2 = (if r1 > maxRTO then maxRTO else r1)
      in s1\<lparr>rto := r2\<rparr>)"

definition seg_end :: "segment \<Rightarrow> u32" where
  "seg_end g = sg_seq g + word_of_nat (length (sg_data g))"

text \<open>The loop of \<^verbatim>\<open>processAck\<close>: bytes retired, segments kept, and the RTT samples taken on the way.\<close>

fun ack_loop :: "time \<Rightarrow> u32 \<Rightarrow> segment list \<Rightarrow> stream \<Rightarrow> u32 \<times> segment list \<times> stream" where
  "ack_loop now ack [] s = (0, [], s)"
| "ack_loop now ack (g # gs) s =
     (if seqLE (seg_end g) ack then
        let s1 = (if sg_retries g = 0 then updateRTT (Time_Sub now (sg_sentAt g)) s else s);
            (acked, kept, s2) = ack_loop now ack gs s1
        in (word_of_nat (length (sg_data g)) + acked, kept, s2)
      else
        let (acked, kept, s2) = ack_loop now ack gs s
        in (acked, g # kept, s2))"

definition grow_cwnd :: "u32 \<Rightarrow> stream \<Rightarrow> stream option" where
  "grow_cwnd acked s =
     (let clamp = (\<lambda>c. if c > word_of_nat RecvBufMax then word_of_nat RecvBufMax else c)
      in if cwnd s < ssthresh s then Some (s\<lparr>cwnd := clamp (cwnd s + acked)\<rparr>)
         else if cwnd s = 0 then None
         else Some (s\<lparr>cwnd := clamp (cwnd s + word_of_nat MaxSegment * acked div cwnd s)\<rparr>))"

definition processAck :: "time \<Rightarrow> u32 \<Rightarrow> stream \<Rightarrow> stream option" where
  "processAck now ack s =
     (if seqLE ack (sndUnack s) then Some s
      else let (acked, kept, s1) = ack_loop now ack (sndQueue s) s;
               s2 = s1\<lparr>sndQueue := kept, sndUnack := ack\<rparr>
           in if acked > 0 then grow_cwnd acked s2 else Some s2)"

definition OnFrame :: "time \<Rightarrow> bytes \<Rightarrow> stream \<Rightarrow> (stream \<times> bytes list) option" where
  "OnFrame now b s =
     (case decodeFrame b of
        Inl e \<Rightarrow> Some (s, [])
      | Inr f \<Rightarrow>
          (case processAck now (fr_ack f) (s\<lparr>peerWnd := ucast (fr_wnd f)\<rparr>) of
             None \<Rightarrow> None
           | Some s1 \<Rightarrow>
               if fr_typ f = FrameRst then Some (s1\<lparr>st_reset := True, st_err := Some ErrReset\<rparr>, [])
               else if fr_typ f = FrameFin then
                 Some (sendAck (if fr_seq f = rcvNext s1 then s1\<lparr>finRecvd := True\<rparr>
                                else s1\<lparr>rcvOOO := AList.update (fr_seq f) [] (rcvOOO s1)\<rparr>))
               else if fr_typ f = FrameData then
                 Some (sendAck (if length (fr_payload f) > 0
                                then acceptData (fr_seq f) (fr_payload f) s1 else s1))
               else Some (s1, [])))"

section \<open>Timers\<close>

fun tick_segs :: "time \<Rightarrow> duration \<Rightarrow> (segment \<Rightarrow> bytes) \<Rightarrow> segment list \<Rightarrow>
    segment list \<times> bytes list \<times> bool \<times> segment option" where
  "tick_segs now r mk [] = ([], [], False, None)"
| "tick_segs now r mk (g # gs) =
     (if Time_Sub now (sg_sentAt g) < r then
        let (gs', fs, lost, dead) = tick_segs now r mk gs in (g # gs', fs, lost, dead)
      else if sg_retries g \<ge> maxRetries then (g # gs, [], False, Some g)
      else
        let g' = g\<lparr>sg_retries := sg_retries g + 1, sg_sentAt := now\<rparr>;
            (gs', fs, lost, dead) = tick_segs now r mk gs
        in (g' # gs', mk g' # fs, True, dead))"

definition data_frame :: "stream \<Rightarrow> segment \<Rightarrow> bytes" where
  "data_frame s g = encodeFrame FrameData (sg_seq g) (rcvNext s) (advertiseWindow s) (sg_data g)"

definition on_loss :: "stream \<Rightarrow> stream" where
  "on_loss s =
     (let t = cwnd s div 2;
          t' = (if t < 2 * word_of_nat MaxSegment then 2 * word_of_nat MaxSegment else t);
          r = rto s * 2
      in s\<lparr>ssthresh := t', cwnd := initialCwnd, rto := (if r > maxRTO then maxRTO else r)\<rparr>)"

definition probe_step :: "time \<Rightarrow> stream \<Rightarrow> stream \<times> bytes list" where
  "probe_step now s =
     (if peerWnd s = 0 \<and> \<not> st_closed s then
        if Time_Sub now (lastProbe s) \<ge> probeInterval s then
          let i = probeInterval s * 2;
              s' = s\<lparr>lastProbe := now, probeInterval := (if i > maxRTO then maxRTO else i)\<rparr>
          in (s', [encodeFrame FrameData (sndNext s') (rcvNext s') (advertiseWindow s') []])
        else (s, [])
      else (s\<lparr>probeInterval := minRTO\<rparr>, []))"

definition Tick :: "time \<Rightarrow> stream \<Rightarrow> bool \<times> bytes list \<times> stream" where
  "Tick now s =
     (if st_reset s then (False, [], s)
      else let (q, toSend, lost, dead) = tick_segs now (rto s) (data_frame s) (sndQueue s);
               s1 = s\<lparr>sndQueue := q\<rparr>
           in case dead of
                Some g \<Rightarrow> (False, [], s1\<lparr>st_reset := True,
                                          st_err := Some (ErrUnreachable (sg_seq g) (sg_retries g))\<rparr>)
              | None \<Rightarrow>
                  let s2 = (if lost then on_loss s1 else s1);
                      (s3, probe) = probe_step now s2;
                      needAck = ackPending s3
                  in (True, toSend @ probe @ (if needAck then [ackFrame s3] else []),
                      s3\<lparr>ackPending := False\<rparr>))"

declare FrameData_def [wire_simps] FrameAck_def [wire_simps] FrameFin_def [wire_simps]
  FrameRst_def [wire_simps] headerLen_def [wire_simps]

section \<open>Frame codec\<close>

lemma length_encodeFrame [simp]: "length (encodeFrame t q a w p) = headerLen + length p"
  by (simp add: encodeFrame_def headerLen_def)

lemma decode_encodeFrame_append:
  assumes "length p < 2 ^ 16"
  shows "decodeFrame (encodeFrame t q a w p @ rest) =
    Inr \<lparr>fr_typ = t, fr_seq = q, fr_ack = a, fr_wnd = w, fr_payload = p\<rparr>"
proof -
  let ?b = "encodeFrame t q a w p @ rest"
  have n: "unat (word_of_nat (length p) :: u16) = length p" using assms by (simp add: unat_of_nat)
  have d1: "drop 1 ?b = PutUint32 q @ PutUint32 a @ PutUint16 w @ PutUint16 (word_of_nat (length p)) @ p @ rest"
    by (simp add: encodeFrame_def)
  have "drop 5 ?b = drop 4 (drop 1 ?b)" "drop 9 ?b = drop 8 (drop 1 ?b)"
    "drop 11 ?b = drop 10 (drop 1 ?b)" "drop 13 ?b = drop 12 (drop 1 ?b)"
    by (simp_all only: drop_drop) simp_all
  then have ds: "drop 5 ?b = PutUint32 a @ PutUint16 w @ PutUint16 (word_of_nat (length p)) @ p @ rest"
    "drop 9 ?b = PutUint16 w @ PutUint16 (word_of_nat (length p)) @ p @ rest"
    "drop 11 ?b = PutUint16 (word_of_nat (length p)) @ p @ rest" "drop 13 ?b = p @ rest"
    unfolding d1 by simp_all
  have "?b ! 0 = t" by (simp add: encodeFrame_def)
  moreover have "length ?b = 13 + length p + length rest" by (simp add: headerLen_def)
  ultimately show ?thesis
    unfolding decodeFrame_def headerLen_def Let_def d1 ds by (simp add: n)
qed

definition frame_valid :: "frame \<Rightarrow> bool" where
  "frame_valid f \<longleftrightarrow> length (fr_payload f) < 2 ^ 16"

interpretation stream_wire: prefix_codec frame_valid
  "\<lambda>f. encodeFrame (fr_typ f) (fr_seq f) (fr_ack f) (fr_wnd f) (fr_payload f)" "\<lambda>b. ok (decodeFrame b)"
  by unfold_locales (simp add: frame_valid_def decode_encodeFrame_append)

end
