(* ===== verification/Stream_Recv.thy ===== *)
theory Stream_Recv
  imports Stream
begin

text \<open>
  The receiving half of a stream against the byte sequence its peer wrote. \<open>is_slice S m x\<close> says that
  \<open>x\<close> is what the peer wrote from offset \<open>m\<close> on; \<open>rcv_inv\<close> is the reassembly invariant: what was
  read plus what is buffered is the prefix of \<open>S\<close> up to \<open>rcvNext\<close>, parked segments are slices,
  and an empty parked segment or the FIN flag stands for the end of a closed stream.
\<close>

section \<open>Sequence arithmetic below two gigabytes\<close>

lemma sint_diff:
  assumes "m < 2 ^ 31" "n < 2 ^ 31"
  shows "sint (word_of_nat m - word_of_nat n :: u32) = int m - int n"
proof -
  have "(word_of_nat m - word_of_nat n :: u32) = word_of_int (int m - int n)" by simp
  then show ?thesis
    using assms by (simp add: signed_of_int signed_take_bit_int_eq_self del: of_int_diff of_int_of_nat_eq)
qed

lemma seqLE_nat: "m < 2 ^ 31 \<Longrightarrow> n < 2 ^ 31 \<Longrightarrow> seqLE (word_of_nat m) (word_of_nat n) \<longleftrightarrow> m \<le> n"
  by (simp add: seqLE_def sint_diff)

lemma seqLT_nat: "m < 2 ^ 31 \<Longrightarrow> n < 2 ^ 31 \<Longrightarrow> seqLT (word_of_nat m) (word_of_nat n) \<longleftrightarrow> m < n"
  by (simp add: seqLT_def sint_diff)

lemma word_of_nat_inj_31:
  assumes b: "m < 2 ^ 31" "n < 2 ^ 31"
  shows "(word_of_nat m :: u32) = word_of_nat n \<longleftrightarrow> m = n"
proof
  assume "(word_of_nat m :: u32) = word_of_nat n"
  then have "unat (word_of_nat m :: u32) = unat (word_of_nat n :: u32)" by simp
  then show "m = n" using b by (simp add: unat_of_nat)
qed simp

section \<open>Slices\<close>

definition is_slice :: "bytes \<Rightarrow> nat \<Rightarrow> bytes \<Rightarrow> bool" where
  "is_slice S m x \<longleftrightarrow> m + length x \<le> length S \<and> x = take (length x) (drop m S)"

lemma is_slice_extend: "is_slice S m x \<Longrightarrow> is_slice (S @ T) m x"
  by (auto simp: is_slice_def)

lemma is_slice_drop:
  assumes "is_slice S m x" "t \<le> length x"
  shows "is_slice S (m + t) (drop t x)"
proof -
  have "drop t x = drop t (take (length x) (drop m S))" using assms by (simp add: is_slice_def)
  also have "\<dots> = take (length x - t) (drop (m + t) S)" by (simp add: drop_take add.commute)
  finally have "drop t x = take (length x - t) (drop (m + t) S)" .
  then have eq: "drop t x = take (length (drop t x)) (drop (m + t) S)" unfolding length_drop .
  have "m + t + length (drop t x) \<le> length S" using assms by (simp add: is_slice_def)
  then show ?thesis unfolding is_slice_def using eq by (rule conjI)
qed

lemma take_is_slice: "is_slice S n x \<Longrightarrow> take n S @ x = take (n + length x) S"
  by (metis is_slice_def take_add)

section \<open>The reassembly invariant\<close>

definition parked_ok :: "bytes \<Rightarrow> bool \<Rightarrow> u32 \<Rightarrow> bytes \<Rightarrow> bool" where
  "parked_ok S fin q x \<longleftrightarrow>
     (if x = [] then fin \<and> q = word_of_nat (length S) else \<exists>m. q = word_of_nat m \<and> is_slice S m x)"

definition rcv_at :: "bytes \<Rightarrow> bool \<Rightarrow> bytes \<Rightarrow> nat \<Rightarrow> stream \<Rightarrow> bool" where
  "rcv_at S fin got n s \<longleftrightarrow>
     n \<le> length S \<and> rcvNext s = word_of_nat n \<and> got @ rcvBuf s = take n S \<and>
     (\<forall>q x. map_of (rcvOOO s) q = Some x \<longrightarrow> parked_ok S fin q x) \<and>
     (finRecvd s \<longrightarrow> fin \<and> n = length S)"

definition rcv_inv :: "bytes \<Rightarrow> bool \<Rightarrow> bytes \<Rightarrow> stream \<Rightarrow> bool" where
  "rcv_inv S fin got s \<longleftrightarrow> (\<exists>n. rcv_at S fin got n s)"

lemma rcv_inv_New: "rcv_inv [] False [] New"
  by (auto simp: rcv_inv_def rcv_at_def New_def)

lemma parked_ok_extend: "parked_ok S False q x \<Longrightarrow> parked_ok (S @ T) False q x"
  unfolding parked_ok_def using is_slice_extend by (metis (full_types))

lemma rcv_inv_extend: "rcv_inv S False got s \<Longrightarrow> rcv_inv (S @ T) False got s"
proof -
  assume "rcv_inv S False got s"
  then obtain n where "rcv_at S False got n s" by (auto simp: rcv_inv_def)
  then have "rcv_at (S @ T) False got n s" by (auto simp: rcv_at_def intro: parked_ok_extend)
  then show ?thesis by (auto simp: rcv_inv_def)
qed

lemma rcv_inv_fin: "rcv_inv S fin got s \<Longrightarrow> rcv_inv S True got s"
  unfolding rcv_inv_def rcv_at_def parked_ok_def by (metis (full_types))

lemma rcv_at_append:
  "rcv_at S fin got n s \<Longrightarrow> is_slice S n data \<Longrightarrow> got @ rcvBuf s @ data = take (n + length data) S"
  using take_is_slice by (metis append_assoc rcv_at_def)

lemma drainOOO_inv:
  "rcv_at S fin got n s \<Longrightarrow> length S < 2 ^ 31 \<Longrightarrow> \<exists>n'. n \<le> n' \<and> rcv_at S fin got n' (drainOOO s)"
proof (induction s arbitrary: n rule: drainOOO.induct)
  case (1 s)
  show ?case
  proof (cases "map_of (rcvOOO s) (rcvNext s)")
    case None
    then show ?thesis using 1 by (auto simp: drainOOO.simps [of s])
  next
    case (Some data)
    let ?s1 = "s\<lparr>rcvOOO := AList.delete (rcvNext s) (rcvOOO s)\<rparr>"
    have ok: "parked_ok S fin (rcvNext s) data" and n: "rcvNext s = word_of_nat n" "n \<le> length S"
      using "1.prems" Some by (auto simp: rcv_at_def)
    show ?thesis
    proof (cases "data = []")
      case True
      have "n = length S" using ok n True "1.prems"(2) by (simp add: parked_ok_def word_of_nat_inj_31)
      then have "rcv_at S fin got n (?s1\<lparr>finRecvd := True\<rparr>)"
        using "1.prems" ok True by (auto simp: rcv_at_def parked_ok_def split: if_splits)
      then show ?thesis using Some True by (auto simp: drainOOO.simps [of s])
    next
      case False
      let ?s2 = "?s1\<lparr>rcvBuf := rcvBuf s @ data, rcvNext := rcvNext s + word_of_nat (length data)\<rparr>"
      obtain m where m: "rcvNext s = word_of_nat m" "is_slice S m data"
        using ok False by (auto simp: parked_ok_def)
      have "m = n" using m n "1.prems"(2) by (auto simp: is_slice_def word_of_nat_inj_31)
      then have sl: "is_slice S n data" using m by simp
      have "\<not> finRecvd s" using sl False "1.prems"(1) by (auto simp: rcv_at_def is_slice_def)
      then have "rcv_at S fin got (n + length data) ?s2"
        using "1.prems" sl rcv_at_append [OF "1.prems"(1) sl] by (auto simp: rcv_at_def is_slice_def split: if_splits)
      then obtain n' where "n + length data \<le> n'" "rcv_at S fin got n' (drainOOO ?s2)"
        using "1.IH" [OF Some refl] False "1.prems"(2) by auto
      then show ?thesis using Some False by (auto simp: drainOOO.simps [of s] Let_def intro!: exI [of _ n'])
    qed
  qed
qed

lemma placeData_inv:
  assumes "rcv_at S fin got n s" "length S < 2 ^ 31" "is_slice S m data" "data \<noteq> []"
  shows "rcv_inv S fin got (placeData (word_of_nat m) data s)"
proof -
  have n: "rcvNext s = word_of_nat n" "n \<le> length S" using assms(1) by (auto simp: rcv_at_def)
  show ?thesis
  proof (cases "length (rcvBuf s) + length data > RecvBufMax")
    case True
    then show ?thesis using assms(1) by (auto simp: placeData_def rcv_inv_def)
  next
    case small: False
    show ?thesis
    proof (cases "m = n")
      case True
      let ?s = "s\<lparr>rcvBuf := rcvBuf s @ data, rcvNext := rcvNext s + word_of_nat (length data)\<rparr>"
      have sl: "is_slice S n data" using assms(3) True by simp
      have "\<not> finRecvd s" using sl assms(1,4) by (auto simp: rcv_at_def is_slice_def)
      then have "rcv_at S fin got (n + length data) ?s"
        using assms(1) sl rcv_at_append [OF assms(1) sl] by (auto simp: rcv_at_def is_slice_def)
      then show ?thesis
        using drainOOO_inv assms(2) small True n by (fastforce simp: placeData_def rcv_inv_def)
    next
      case False
      then have "(word_of_nat m :: u32) \<noteq> rcvNext s"
        using n assms(2,3) by (auto simp: is_slice_def word_of_nat_inj_31)
      moreover have "rcv_at S fin got n (s\<lparr>rcvOOO := AList.update (word_of_nat m) data (rcvOOO s)\<rparr>)"
        using assms(1,3,4) by (auto simp: rcv_at_def parked_ok_def)
      ultimately show ?thesis
        using small assms(1) by (auto simp: placeData_def rcv_inv_def split: option.splits)
    qed
  qed
qed

lemma acceptData_inv:
  assumes "rcv_inv S fin got s" "length S < 2 ^ 31" "is_slice S m data" "data \<noteq> []"
  shows "rcv_inv S fin got (acceptData (word_of_nat m) data s)"
proof -
  obtain n where at: "rcv_at S fin got n s" using assms(1) by (auto simp: rcv_inv_def)
  then have n: "rcvNext s = word_of_nat n" "n \<le> length S" by (auto simp: rcv_at_def)
  have m: "m + length data \<le> length S" using assms(3) by (simp add: is_slice_def)
  have le: "seqLE (word_of_nat m + word_of_nat (length data)) (rcvNext s) \<longleftrightarrow> m + length data \<le> n"
    using seqLE_nat [of "m + length data" n] m n assms(2) by simp
  have lt: "seqLT (word_of_nat m) (rcvNext s) \<longleftrightarrow> m < n"
    using seqLT_nat [of m n] m n assms(2) by simp
  show ?thesis
  proof (cases "m < n \<and> n < m + length data")
    case True
    have "unat (rcvNext s - word_of_nat m) = n - m"
      using True n assms(2) by (simp add: unat_word_diff_nat)
    moreover have "is_slice S n (drop (n - m) data)"
      using is_slice_drop [OF assms(3), of "n - m"] True by auto
    moreover have "n - m < length data" using True by linarith
    ultimately show ?thesis
      using placeData_inv [OF at assms(2)] True le lt n by (simp add: acceptData_def Let_def)
  next
    case False
    then show ?thesis
      using placeData_inv [OF at assms(2-4)] assms(1) le lt by (auto simp: acceptData_def Let_def)
  qed
qed

section \<open>Frames of an honest peer\<close>

definition sent_ok :: "bytes \<Rightarrow> bool \<Rightarrow> bytes \<Rightarrow> bool" where
  "sent_ok S fin b \<longleftrightarrow>
     (\<exists>ty q ack wnd p. b = encodeFrame ty q ack wnd p \<and> length p \<le> MaxSegment \<and>
        ty \<in> {FrameData, FrameAck, FrameFin} \<and>
        (ty = FrameData \<longrightarrow> p = [] \<or> (\<exists>m. q = word_of_nat m \<and> is_slice S m p)) \<and>
        (ty = FrameFin \<longrightarrow> fin \<and> q = word_of_nat (length S)))"

lemma sent_okI:
  assumes "length p \<le> MaxSegment" "ty \<in> {FrameData, FrameAck, FrameFin}"
    "ty = FrameData \<Longrightarrow> p \<noteq> [] \<Longrightarrow> \<exists>m. q = word_of_nat m \<and> is_slice S m p"
    "ty = FrameFin \<Longrightarrow> fin \<and> q = word_of_nat (length S)"
  shows "sent_ok S fin (encodeFrame ty q ack wnd p)"
  unfolding sent_ok_def using assms by blast

lemma sent_ok_ack [simp]: "sent_ok S fin (encodeFrame FrameAck q a w [])"
  by (rule sent_okI) (auto simp: wire_simps)

lemma sent_ok_probe [simp]: "sent_ok S fin (encodeFrame FrameData q a w [])"
  by (rule sent_okI) (auto simp: wire_simps)

lemma sent_ok_data: "is_slice S m p \<Longrightarrow> length p \<le> MaxSegment \<Longrightarrow> sent_ok S fin (encodeFrame FrameData (word_of_nat m) a w p)"
  by (rule sent_okI) (auto simp: wire_simps)

lemma sent_ok_fin: "sent_ok S True (encodeFrame FrameFin (word_of_nat (length S)) a w [])"
  by (rule sent_okI) (auto simp: wire_simps)

lemma sent_ok_extend: "sent_ok S False b \<Longrightarrow> sent_ok (S @ T) False b"
proof -
  assume "sent_ok S False b"
  then obtain ty q ack wnd p where b: "b = encodeFrame ty q ack wnd p"
    and f: "length p \<le> MaxSegment" "ty \<in> {FrameData, FrameAck, FrameFin}" "ty \<noteq> FrameFin"
      "ty = FrameData \<longrightarrow> p = [] \<or> (\<exists>m. q = word_of_nat m \<and> is_slice S m p)"
    unfolding sent_ok_def by blast
  show ?thesis unfolding b by (rule sent_okI) (use f is_slice_extend in blast)+
qed

lemma sent_ok_mono_fin: "sent_ok S fin b \<Longrightarrow> sent_ok S True b"
  unfolding sent_ok_def by blast

section \<open>What the acknowledgement side leaves alone\<close>

definition recv_view :: "stream \<Rightarrow> u32 \<times> (u32 \<times> bytes) list \<times> bytes \<times> bool" where
  "recv_view s = (rcvNext s, rcvOOO s, rcvBuf s, finRecvd s)"

lemma rcv_inv_view: "recv_view s' = recv_view s \<Longrightarrow> rcv_inv S fin got s' = rcv_inv S fin got s"
  by (simp add: rcv_inv_def rcv_at_def recv_view_def)

lemma recv_view_updateRTT [simp]: "recv_view (updateRTT x s) = recv_view s"
  by (simp add: recv_view_def updateRTT_def Let_def)

lemma recv_view_ack_loop: "ack_loop now ack q s = (a, k, s') \<Longrightarrow> recv_view s' = recv_view s"
proof (induction q arbitrary: s a k)
  case (Cons g q)
  then show ?case by (auto simp: Let_def split: if_splits prod.splits)
qed simp

lemma recv_view_processAck:
  assumes "processAck now ack s = Some s'"
  shows "recv_view s' = recv_view s"
proof (cases "seqLE ack (sndUnack s)")
  case False
  obtain a k s1 where l: "ack_loop now ack (sndQueue s) s = (a, k, s1)" by (metis prod.exhaust)
  have "recv_view s' = recv_view (s1\<lparr>sndQueue := k, sndUnack := ack\<rparr>)"
    using assms False l
    by (auto simp: processAck_def grow_cwnd_def recv_view_def Let_def split: if_splits)
  then show ?thesis using recv_view_ack_loop [OF l] by (simp add: recv_view_def)
qed (use assms in \<open>simp add: processAck_def\<close>)

lemma recv_view_sendAck [simp]: "recv_view (fst (sendAck s)) = recv_view s"
  by (simp add: sendAck_def recv_view_def)

section \<open>Delivery\<close>

lemma finFrame_inv:
  assumes "rcv_inv S fin got s" "length S < 2 ^ 31" "fin" "q = word_of_nat (length S)"
  shows "rcv_inv S fin got (if q = rcvNext s then s\<lparr>finRecvd := True\<rparr>
                            else s\<lparr>rcvOOO := AList.update q [] (rcvOOO s)\<rparr>)"
proof -
  obtain n where at: "rcv_at S fin got n s" using assms(1) by (auto simp: rcv_inv_def)
  show ?thesis
  proof (cases "q = rcvNext s")
    case True
    then have "n = length S" using at assms(2,4) by (auto simp: rcv_at_def word_of_nat_inj_31)
    then have "rcv_at S fin got n (s\<lparr>finRecvd := True\<rparr>)" using at assms(3) by (simp add: rcv_at_def)
    then show ?thesis using True by (auto simp: rcv_inv_def)
  next
    case False
    have "parked_ok S fin q []" using assms(3,4) by (simp add: parked_ok_def)
    then have "rcv_at S fin got n (s\<lparr>rcvOOO := AList.update q [] (rcvOOO s)\<rparr>)"
      using at unfolding rcv_at_def by simp
    then show ?thesis using False by (auto simp: rcv_inv_def)
  qed
qed

lemma OnFrame_sent_inv:
  assumes inv: "rcv_inv S fin got s" and len: "length S < 2 ^ 31" and b: "sent_ok S fin b"
    and on: "OnFrame now b s = Some (s', fs)"
  shows "rcv_inv S fin got s'"
proof -
  obtain ty q ack wnd p where e: "b = encodeFrame ty q ack wnd p" "length p \<le> MaxSegment"
    and t: "ty \<in> {FrameData, FrameAck, FrameFin}"
    and d: "ty = FrameData \<Longrightarrow> p \<noteq> [] \<Longrightarrow> \<exists>m. q = word_of_nat m \<and> is_slice S m p"
    and f: "ty = FrameFin \<Longrightarrow> fin \<and> q = word_of_nat (length S)"
    using b unfolding sent_ok_def by blast
  have "length p < 2 ^ 16" using e(2) by (simp add: MaxSegment_def)
  then have dec: "decodeFrame b = Inr \<lparr>fr_typ = ty, fr_seq = q, fr_ack = ack, fr_wnd = wnd, fr_payload = p\<rparr>"
    using decode_encodeFrame_append [of p ty q ack wnd "[]"] e(1) by simp
  obtain s1 where pa: "processAck now ack (s\<lparr>peerWnd := ucast wnd\<rparr>) = Some s1"
    using on by (auto simp: OnFrame_def dec split: option.splits)
  have "recv_view s1 = recv_view s" using recv_view_processAck [OF pa] by (simp add: recv_view_def)
  then have inv1: "rcv_inv S fin got s1" using inv rcv_inv_view by blast
  consider "ty = FrameFin" "ty \<noteq> FrameRst" | "ty = FrameData" "ty \<noteq> FrameRst" "ty \<noteq> FrameFin"
    | "ty \<noteq> FrameFin" "ty \<noteq> FrameRst" "ty \<noteq> FrameData"
    using t by (auto simp: wire_simps)
  then show ?thesis
  proof cases
    case 1
    let ?s2 = "if q = rcvNext s1 then s1\<lparr>finRecvd := True\<rparr> else s1\<lparr>rcvOOO := AList.update q [] (rcvOOO s1)\<rparr>"
    have "rcv_inv S fin got ?s2" using finFrame_inv [OF inv1 len] f [OF 1(1)] by blast
    moreover have "s' = fst (sendAck ?s2)"
      using on 1 by (cases "q = rcvNext s1") (simp_all add: OnFrame_def dec pa)
    ultimately show ?thesis using rcv_inv_view recv_view_sendAck by blast
  next
    case 2
    let ?s2 = "if p \<noteq> [] then acceptData q p s1 else s1"
    have "rcv_inv S fin got ?s2" using acceptData_inv [OF inv1 len] d [OF 2(1)] inv1 by auto
    moreover have "s' = fst (sendAck ?s2)" using on 2 by (simp add: OnFrame_def dec pa split: if_splits)
    ultimately show ?thesis using rcv_inv_view recv_view_sendAck by blast
  next
    case 3
    then show ?thesis using on inv1 by (simp add: OnFrame_def dec pa)
  qed
qed

lemma Read_inv:
  assumes "rcv_inv S fin got s" "Read k s = (ROk data, fs, s')"
  shows "rcv_inv S fin (got @ data) s'"
proof -
  let ?n = "min k (length (rcvBuf s))"
  have "data = take ?n (rcvBuf s)" and s': "s' = s\<lparr>rcvBuf := drop ?n (rcvBuf s), ackPending := False\<rparr>"
    using assms(2) by (auto simp: Read_def sendAck_def Let_def split: if_splits)
  then have "data @ rcvBuf s' = rcvBuf s" by simp
  then show ?thesis using assms(1) s' unfolding rcv_inv_def rcv_at_def by auto
qed

end
