(* ===== verification/Stream_Send.thy ===== *)
theory Stream_Send
  imports Stream_Recv
begin

text \<open>
  The sending half. \<open>snd_src\<close>: everything in the retransmission queue is a slice of what the
  application wrote, so every frame the sender ever emits is honest. \<open>snd_win\<close>: the queue is a
  contiguous run that ends at \<open>sndNext\<close> and starts at most one segment before \<open>sndUnack\<close>; from
  it follow the bounds on the bytes in flight and on the congestion window, and that the code
  never divides by zero, whatever acknowledgements arrive.
\<close>

section \<open>Honest frames\<close>

definition snd_src :: "bytes \<Rightarrow> stream \<Rightarrow> bool" where
  "snd_src S s \<longleftrightarrow> sndNext s = word_of_nat (length S) \<and>
     (\<forall>g \<in> set (sndQueue s). \<exists>m. sg_seq g = word_of_nat m \<and> is_slice S m (sg_data g) \<and>
        length (sg_data g) \<le> MaxSegment)"

definition send_view :: "stream \<Rightarrow> u32 \<times> bool \<times> bool" where
  "send_view s = (sndNext s, st_closed s, finSent s)"

fun written_of :: "write_out \<Rightarrow> nat" where
  "written_of (WDone n) = n"
| "written_of (WErr n e) = n"
| "written_of (WBlocked n p) = n"

lemma snd_src_New: "snd_src [] New"
  by (simp add: snd_src_def New_def)

lemma write_chunk_le: "write_chunk p s \<le> length p" "write_chunk p s \<le> MaxSegment"
  "write_chunk p s \<le> unat (windowAvailable s)"
  by (auto simp: write_chunk_def Let_def)

lemma slice_appended: "n \<le> length p \<Longrightarrow> is_slice (S @ take n p) (length S) (take n p)"
  by (simp add: is_slice_def)

lemma write_seg_src:
  assumes "snd_src S s" "write_seg now p s = (s', f)" "n = write_chunk p s"
  shows "snd_src (S @ take n p) s'" "sent_ok (S @ take n p) fin f"
proof -
  have n: "n \<le> length p" "n \<le> MaxSegment" using write_chunk_le assms(3) by auto
  have sl: "is_slice (S @ take n p) (length S) (take n p)" using n(1) by (rule slice_appended)
  have nx: "sndNext s = word_of_nat (length S)" using assms(1) by (simp add: snd_src_def)
  show "sent_ok (S @ take n p) fin f"
    using assms(2,3) nx sent_ok_data [OF sl] n by (auto simp: write_seg_def Let_def)
  have "\<exists>m. sg_seq g = word_of_nat m \<and> is_slice (S @ take n p) m (sg_data g) \<and> length (sg_data g) \<le> MaxSegment"
    if "g \<in> set (sndQueue s)" for g
    using assms(1) that is_slice_extend unfolding snd_src_def by blast
  moreover have "sndQueue s' = sndQueue s @ [\<lparr>sg_seq = sndNext s, sg_data = take n p, sg_sentAt = now, sg_retries = 0\<rparr>]"
    "sndNext s' = word_of_nat (length (S @ take n p))"
    using assms(2,3) nx n(1) by (auto simp: write_seg_def Let_def)
  ultimately show "snd_src (S @ take n p) s'"
    unfolding snd_src_def using sl nx n by auto
qed

lemma write_seg_closed: "write_seg now p s = (s', f) \<Longrightarrow> st_closed s' = st_closed s \<and> recv_view s' = recv_view s"
  by (auto simp: write_seg_def Let_def recv_view_def)

lemma Write_src:
  assumes "Write clk p w s = (out, fs, s')" "snd_src S s" "\<not> st_closed s"
  shows "\<exists>k. written_of out = w + k \<and> k \<le> length p \<and> snd_src (S @ take k p) s' \<and>
     (\<forall>f \<in> set fs. sent_ok (S @ take k p) False f) \<and> st_closed s' = st_closed s"
  using assms
proof (induction clk p w s arbitrary: S out fs s' rule: Write.induct)
  case (1 clk p w s)
  show ?case
  proof (cases "p = [] \<or> st_reset s \<or> \<not> windowAvailable s > 0")
    case True
    then show ?thesis
      using "1.prems" by (intro exI [of _ 0]) (auto simp: Write.simps [of clk p] split: if_splits)
  next
    case False
    define n where "n = write_chunk p s"
    obtain s1 f where seg: "write_seg (clk w) p s = (s1, f)" by (metis prod.exhaust)
    obtain out' fs' s2 where rec: "Write clk (drop n p) (w + n) s1 = (out', fs', s2)" by (metis prod.exhaust)
    have res: "out = out'" "fs = f # fs'" "s' = s2"
      using "1.prems"(1,3) False seg rec by (auto simp: Write.simps [of clk p] n_def Let_def)
    have n: "n \<le> length p" using write_chunk_le n_def by simp
    note src = write_seg_src [OF "1.prems"(2) seg n_def]
    have "\<exists>k. written_of out' = (w + n) + k \<and> k \<le> length (drop n p) \<and>
        snd_src ((S @ take n p) @ take k (drop n p)) s2 \<and>
        (\<forall>f \<in> set fs'. sent_ok ((S @ take n p) @ take k (drop n p)) False f) \<and> st_closed s2 = st_closed s1"
      using "1.IH" [OF _ _ _ n_def seg [symmetric] refl rec src(1)] False "1.prems"(3) write_seg_closed [OF seg] by auto
    then obtain k where k: "written_of out' = w + n + k" "k \<le> length p - n"
      "snd_src (S @ take (n + k) p) s2" "\<forall>f \<in> set fs'. sent_ok (S @ take (n + k) p) False f" "st_closed s2 = st_closed s1"
      by (auto simp: take_add)
    have "sent_ok ((S @ take n p) @ take k (drop n p)) False f"
      using src(2) by (rule sent_ok_extend)
    then have "\<forall>g \<in> set fs. sent_ok (S @ take (n + k) p) False g" using k(4) res by (auto simp: take_add)
    then show ?thesis using k res n write_seg_closed [OF seg] by (intro exI [of _ "n + k"]) auto
  qed
qed

lemma tick_segs_src:
  assumes "tick_segs now r mk q = (q', fs, lost, dead)"
  shows "map sg_seq q' = map sg_seq q \<and> map sg_data q' = map sg_data q \<and>
    (\<forall>f \<in> set fs. \<exists>g \<in> set q. \<exists>g'. f = mk g' \<and> sg_seq g' = sg_seq g \<and> sg_data g' = sg_data g)"
  using assms
proof (induction q arbitrary: q' fs lost dead)
  case (Cons g q)
  obtain q1 fs1 l1 d1 where r: "tick_segs now r mk q = (q1, fs1, l1, d1)" by (metis prod.exhaust)
  note ih = Cons.IH [OF r]
  let ?g = "g\<lparr>sg_retries := sg_retries g + 1, sg_sentAt := now\<rparr>"
  consider "q' = g # q1 \<and> fs = fs1" | "q' = g # q \<and> fs = []" | "q' = ?g # q1 \<and> fs = mk ?g # fs1"
    using Cons.prems r by (auto simp: Let_def split: if_splits)
  then show ?case
  proof cases
    case 3
    have "\<exists>h \<in> set (g # q). \<exists>g'. mk ?g = mk g' \<and> sg_seq g' = sg_seq h \<and> sg_data g' = sg_data h"
      by (intro bexI [of _ g] exI [of _ ?g]) simp_all
    then show ?thesis using 3 ih by simp
  qed (use ih in auto)
qed simp

section \<open>The send window\<close>

fun seg_chain :: "u32 \<Rightarrow> segment list \<Rightarrow> u32 \<Rightarrow> bool" where
  "seg_chain a [] b \<longleftrightarrow> a = b"
| "seg_chain a (g # gs) b \<longleftrightarrow>
     sg_seq g = a \<and> 0 < length (sg_data g) \<and> length (sg_data g) \<le> MaxSegment \<and> seg_chain (seg_end g) gs b"

definition q_bytes :: "segment list \<Rightarrow> nat" where
  "q_bytes q = sum_list (map (\<lambda>g. length (sg_data g)) q)"

definition inFlight :: "stream \<Rightarrow> nat" where
  "inFlight s = unat (sndNext s - sndUnack s)"

definition snd_win :: "stream \<Rightarrow> bool" where
  "snd_win s \<longleftrightarrow>
     (\<exists>a. seg_chain a (sndQueue s) (sndNext s)) \<and>
     (sndQueue s \<noteq> [] \<longrightarrow> q_bytes (tl (sndQueue s)) < inFlight s \<and> inFlight s \<le> RecvBufMax) \<and>
     unat initialCwnd \<le> unat (cwnd s) \<and> unat (cwnd s) \<le> RecvBufMax"

lemma q_bytes_simps [simp]:
  "q_bytes [] = 0" "q_bytes (g # gs) = length (sg_data g) + q_bytes gs" "q_bytes (p @ q) = q_bytes p + q_bytes q"
  by (simp_all add: q_bytes_def)

lemma q_bytes_tl: "q_bytes (tl q) \<le> q_bytes q"
  by (cases q) auto

lemma unat_initialCwnd [simp]: "unat initialCwnd = 4800"
  by (simp add: initialCwnd_def MaxSegment_def)

lemma snd_win_New: "snd_win New"
  by (auto simp: snd_win_def New_def RecvBufMax_def)

lemma seg_chain_start: "seg_chain a q b \<Longrightarrow> a = b - word_of_nat (q_bytes q)"
proof (induction q arbitrary: a)
  case (Cons g q)
  then have "seg_end g = b - word_of_nat (q_bytes q)" "a = sg_seq g" by auto
  then show ?case by (simp add: seg_end_def algebra_simps)
qed simp

lemma seg_chain_snoc:
  "seg_chain a q b \<Longrightarrow> sg_seq g = b \<Longrightarrow> 0 < length (sg_data g) \<Longrightarrow> length (sg_data g) \<le> MaxSegment \<Longrightarrow>
   seg_chain a (q @ [g]) (seg_end g)"
  by (induction q arbitrary: a) auto

lemma seg_chain_cong:
  "map sg_seq q' = map sg_seq q \<Longrightarrow> map sg_data q' = map sg_data q \<Longrightarrow> seg_chain a q' b = seg_chain a q b"
proof (induction q arbitrary: q' a)
  case (Cons g q)
  then obtain g' r where q': "q' = g' # r" by (cases q') auto
  then have eq: "sg_seq g' = sg_seq g" "sg_data g' = sg_data g" "seg_end g' = seg_end g"
    using Cons.prems by (auto simp: seg_end_def)
  have "seg_chain (seg_end g) r b = seg_chain (seg_end g) q b"
    using Cons.prems q' by (intro Cons.IH) auto
  then show ?case by (simp add: q' eq)
qed simp

lemma q_bytes_cong: "map sg_data q' = map sg_data q \<Longrightarrow> q_bytes q' = q_bytes q"
proof -
  have "q_bytes p = sum_list (map length (map sg_data p))" for p by (simp add: q_bytes_def comp_def)
  then show "map sg_data q' = map sg_data q \<Longrightarrow> q_bytes q' = q_bytes q" by metis
qed

text \<open>An acknowledgement \<open>A\<close> bytes above \<open>sndUnack\<close> retires exactly the segments that end there or before.\<close>

lemma seqLE_end:
  assumes "unat (nx - U) = F" "F < 2 ^ 31" "r \<le> F" "A < 2 ^ 31"
  shows "seqLE (nx - word_of_nat r) (U + word_of_nat A) \<longleftrightarrow> F - r \<le> A"
proof -
  have "word_of_nat F = nx - U" using assms(1) by auto
  then have "nx = U + word_of_nat F" by simp
  then have "(nx - word_of_nat r) - (U + word_of_nat A) = (word_of_nat (F - r) :: u32) - word_of_nat A"
    using assms(3) by (simp add: of_nat_diff)
  moreover have "sint ((word_of_nat (F - r) :: u32) - word_of_nat A) = int (F - r) - int A"
    using assms by (intro sint_diff) auto
  ultimately have "sint ((nx - word_of_nat r) - (U + word_of_nat A)) = int (F - r) - int A"
    by (simp only:)
  then show ?thesis by (simp add: seqLE_def)
qed

abbreviation kept_by :: "u32 \<Rightarrow> segment list \<Rightarrow> segment list" where
  "kept_by ack q \<equiv> filter (\<lambda>g. \<not> seqLE (seg_end g) ack) q"

lemma kept_all:
  assumes "seg_chain a q nx" "unat (nx - U) = F" "F < 2 ^ 31" "A < 2 ^ 31" "q_bytes q + A < F"
  shows "kept_by (U + word_of_nat A) q = q"
  using assms
proof (induction q arbitrary: a)
  case (Cons g q)
  have "seg_end g = nx - word_of_nat (q_bytes q)" using seg_chain_start Cons.prems(1) by auto
  then have "\<not> seqLE (seg_end g) (U + word_of_nat A)"
    using seqLE_end [OF Cons.prems(2,3) _ Cons.prems(4)] Cons.prems(5) by simp
  then show ?case using Cons by auto
qed simp

lemma kept_chain:
  assumes "seg_chain a q nx" "unat (nx - U) = F" "F < 2 ^ 31" "A < 2 ^ 31" "q \<noteq> [] \<Longrightarrow> q_bytes (tl q) < F"
  shows "\<exists>a'. seg_chain a' (kept_by (U + word_of_nat A) q) nx \<and>
    (kept_by (U + word_of_nat A) q \<noteq> [] \<longrightarrow> A < F \<and> q_bytes (tl (kept_by (U + word_of_nat A) q)) < F - A)"
  using assms
proof (induction q arbitrary: a)
  case (Cons g q)
  have e: "seg_end g = nx - word_of_nat (q_bytes q)" using seg_chain_start Cons.prems(1) by auto
  have r: "q_bytes q < F" using Cons.prems(5) by simp
  then have le: "seqLE (seg_end g) (U + word_of_nat A) \<longleftrightarrow> F - q_bytes q \<le> A"
    using seqLE_end [OF Cons.prems(2,3) _ Cons.prems(4)] e by simp
  show ?case
  proof (cases "F - q_bytes q \<le> A")
    case True
    have "q_bytes (tl q) < F" using r q_bytes_tl [of q] by linarith
    then show ?thesis using True le Cons by auto
  next
    case False
    then have "kept_by (U + word_of_nat A) q = q"
      using kept_all [of "seg_end g" q nx U F A] Cons.prems by auto
    then show ?thesis using False le Cons.prems(1) by (auto intro!: exI [of _ a])
  qed
qed simp

lemma ack_loop_result:
  assumes "ack_loop now ack q s = (acked, kept, s')"
  shows "kept = kept_by ack q \<and> acked = word_of_nat (q_bytes (filter (\<lambda>g. seqLE (seg_end g) ack) q)) \<and>
    sndNext s' = sndNext s \<and> sndUnack s' = sndUnack s \<and> sndQueue s' = sndQueue s \<and> cwnd s' = cwnd s \<and>
    ssthresh s' = ssthresh s \<and> st_closed s' = st_closed s \<and> st_reset s' = st_reset s \<and> finSent s' = finSent s"
  using assms
proof (induction q arbitrary: s acked kept s')
  case (Cons g q)
  let ?s1 = "if seqLE (seg_end g) ack \<and> sg_retries g = 0 then updateRTT (Time_Sub now (sg_sentAt g)) s else s"
  obtain a k s2 where r: "ack_loop now ack q ?s1 = (a, k, s2)" by (metis prod.exhaust)
  have "sndNext ?s1 = sndNext s \<and> sndUnack ?s1 = sndUnack s \<and> sndQueue ?s1 = sndQueue s \<and> cwnd ?s1 = cwnd s \<and>
    ssthresh ?s1 = ssthresh s \<and> st_closed ?s1 = st_closed s \<and> st_reset ?s1 = st_reset s \<and> finSent ?s1 = finSent s"
    by (simp add: updateRTT_def Let_def)
  then show ?case using Cons.IH [OF r] Cons.prems r by (cases "seqLE (seg_end g) ack"; cases "sg_retries g = 0") auto
qed simp

subsection \<open>Every operation keeps the window invariant\<close>

definition snd_part :: "stream \<Rightarrow> u32 \<times> u32 \<times> segment list \<times> u32" where
  "snd_part s = (sndNext s, sndUnack s, sndQueue s, cwnd s)"

lemma snd_win_part: "snd_part s' = snd_part s \<Longrightarrow> snd_win s' = snd_win s"
  by (simp add: snd_win_def snd_part_def inFlight_def)

lemma snd_win_bytes:
  assumes "snd_win s"
  shows "q_bytes (sndQueue s) \<le> RecvBufMax + MaxSegment"
proof (cases "sndQueue s")
  case (Cons g q)
  then have "length (sg_data g) \<le> MaxSegment" "q_bytes q < inFlight s" "inFlight s \<le> RecvBufMax"
    using assms by (auto simp: snd_win_def)
  then show ?thesis using Cons by simp
qed simp

lemma grow_cwnd_bounds:
  assumes "unat acked \<le> RecvBufMax + MaxSegment" "unat initialCwnd \<le> unat (cwnd s)" "unat (cwnd s) \<le> RecvBufMax"
  shows "\<exists>c. grow_cwnd acked s = Some (s\<lparr>cwnd := c\<rparr>) \<and> unat (cwnd s) \<le> unat c \<and> unat c \<le> RecvBufMax"
proof -
  define inc where "inc = (if cwnd s < ssthresh s then acked else word_of_nat MaxSegment * acked div cwnd s)"
  have b: "4800 \<le> unat (cwnd s)" "unat (cwnd s) \<le> 262144" "unat acked \<le> 263344"
    using assms by (auto simp: RecvBufMax_def MaxSegment_def)
  have "unat (word_of_nat MaxSegment * acked) = 1200 * unat acked"
    using b by (simp add: unat_mult_lem [THEN iffD1] MaxSegment_def unat_word_ariths)
  then have "unat (word_of_nat MaxSegment * acked div cwnd s) \<le> 1200 * unat acked"
    by (simp add: unat_div)
  then have "unat inc \<le> 316012800" using b by (auto simp: inc_def)
  then have sum: "unat (cwnd s + inc) = unat (cwnd s) + unat inc"
    using b by (simp add: unat_word_ariths)
  define c where "c = (if cwnd s + inc > word_of_nat RecvBufMax then word_of_nat RecvBufMax else cwnd s + inc)"
  have "unat (cwnd s) \<le> unat c \<and> unat c \<le> RecvBufMax"
    using sum b by (auto simp: c_def RecvBufMax_def word_less_nat_alt)
  moreover have "cwnd s \<noteq> 0" using b(1) by auto
  then have "grow_cwnd acked s = Some (s\<lparr>cwnd := c\<rparr>)" by (auto simp: grow_cwnd_def c_def inc_def Let_def)
  ultimately show ?thesis by blast
qed

lemma q_bytes_filter: "q_bytes (filter P q) \<le> q_bytes q"
  by (induction q) auto

lemma processAck_win:
  assumes win: "snd_win s"
  shows "\<exists>s'. processAck now ack s = Some s' \<and> snd_win s' \<and> sndNext s' = sndNext s \<and>
    set (sndQueue s') \<subseteq> set (sndQueue s) \<and> st_closed s' = st_closed s \<and> st_reset s' = st_reset s \<and> finSent s' = finSent s"
proof (cases "seqLE ack (sndUnack s)")
  case True
  then show ?thesis using win by (simp add: processAck_def)
next
  case False
  let ?nx = "sndNext s" and ?U = "sndUnack s" and ?q = "sndQueue s"
  define A where "A = unat (ack - ?U)"
  define F where "F = unat (?nx - ?U)"
  have "0 < sint (ack - ?U)" using False by (simp add: seqLE_def)
  then have A: "A < 2 ^ 31" "ack = ?U + word_of_nat A" unfolding A_def
    using sint_pos_less by auto
  obtain acked kept s1 where l: "ack_loop now ack ?q s = (acked, kept, s1)" by (metis prod.exhaust)
  note res = ack_loop_result [OF l]
  let ?s2 = "s1\<lparr>sndQueue := kept, sndUnack := ack\<rparr>"
  obtain a where chain: "seg_chain a ?q ?nx" using win by (auto simp: snd_win_def)
  have acked: "unat acked \<le> RecvBufMax + MaxSegment"
    using res snd_win_bytes [OF win] q_bytes_filter [of "\<lambda>g. seqLE (seg_end g) ack" ?q]
    by (simp add: unat_of_nat)
  have win2: "snd_win ?s2"
  proof (cases "?q = []")
    case True
    then show ?thesis using win res by (simp add: snd_win_def)
  next
    case False
    then have F: "q_bytes (tl ?q) < F" "F \<le> RecvBufMax" using win by (auto simp: snd_win_def F_def inFlight_def)
    then have "F < 2 ^ 31" by (simp add: RecvBufMax_def)
    then obtain a' where k: "seg_chain a' kept ?nx" "kept \<noteq> [] \<longrightarrow> A < F \<and> q_bytes (tl kept) < F - A"
      using kept_chain [OF chain F_def [symmetric] _ A(1)] F res A(2) by auto
    have "unat (?nx - ack) = F - A" if "A < F"
    proof -
      have "?nx - ack = word_of_nat F - word_of_nat A" using A(2) by (simp add: F_def)
      then show ?thesis using that \<open>F < 2 ^ 31\<close> by (simp add: unat_word_diff_nat)
    qed
    then show ?thesis using k F win res by (auto simp: snd_win_def inFlight_def)
  qed
  have "\<exists>c. processAck now ack s = Some (?s2\<lparr>cwnd := c\<rparr>) \<and> unat (cwnd ?s2) \<le> unat c \<and> unat c \<le> RecvBufMax"
    using grow_cwnd_bounds [OF acked, of ?s2] win2 False l
    by (cases "acked > 0") (auto simp: processAck_def snd_win_def intro!: exI [of _ "cwnd ?s2"])
  then obtain c where c: "processAck now ack s = Some (?s2\<lparr>cwnd := c\<rparr>)" "unat (cwnd ?s2) \<le> unat c" "unat c \<le> RecvBufMax"
    by blast
  then have "snd_win (?s2\<lparr>cwnd := c\<rparr>)" using win2 by (auto simp: snd_win_def inFlight_def)
  then show ?thesis using c(1) res by auto
qed

lemma windowAvailable_sum:
  assumes "windowAvailable s > 0"
  shows "inFlight s + unat (windowAvailable s) \<le> unat (cwnd s)"
proof -
  let ?l = "if peerWnd s < cwnd s then peerWnd s else cwnd s"
  have lt: "sndNext s - sndUnack s < ?l" and w: "windowAvailable s = ?l - (sndNext s - sndUnack s)"
    using assms by (auto simp: windowAvailable_def Let_def not_le split: if_splits)
  have "unat (?l - (sndNext s - sndUnack s)) = unat ?l - inFlight s"
    unfolding inFlight_def using lt by (intro unat_sub) simp
  moreover have "inFlight s < unat ?l" using lt by (simp only: inFlight_def word_less_nat_alt)
  moreover have "unat ?l \<le> unat (cwnd s)" by (simp add: word_less_nat_alt)
  ultimately show ?thesis using w by simp
qed

lemma write_seg_win:
  assumes "snd_win s" "p \<noteq> []" "windowAvailable s > 0" "write_seg now p s = (s', f)"
  shows "snd_win s'"
proof -
  define n where "n = write_chunk p s"
  define g where "g = \<lparr>sg_seq = sndNext s, sg_data = take n p, sg_sentAt = now, sg_retries = 0\<rparr>"
  have n: "0 < n" "n \<le> length p" "n \<le> MaxSegment" "n \<le> unat (windowAvailable s)"
    using write_chunk_pos [OF assms(2,3)] write_chunk_le n_def by auto
  have s': "sndQueue s' = sndQueue s @ [g]" "sndNext s' = seg_end g" "cwnd s' = cwnd s" "sndUnack s' = sndUnack s"
    using assms(4) n by (auto simp: write_seg_def Let_def g_def seg_end_def n_def)
  have cw: "unat (cwnd s) \<le> RecvBufMax" using assms(1) by (simp add: snd_win_def)
  have sum: "inFlight s + n \<le> RecvBufMax" using windowAvailable_sum [OF assms(3)] n(4) cw by linarith
  have "sndNext s' - sndUnack s' = (sndNext s - sndUnack s) + word_of_nat n"
    using s' n by (simp add: seg_end_def g_def algebra_simps)
  then have fl: "inFlight s' = inFlight s + n"
    using sum by (simp add: inFlight_def unat_word_ariths unat_of_nat RecvBufMax_def)
  obtain a where "seg_chain a (sndQueue s) (sndNext s)" using assms(1) by (auto simp: snd_win_def)
  then have "seg_chain a (sndQueue s @ [g]) (seg_end g)"
    using n by (intro seg_chain_snoc) (auto simp: g_def)
  moreover have "q_bytes (tl (sndQueue s @ [g])) < inFlight s'"
    using assms(1) fl n by (cases "sndQueue s") (auto simp: snd_win_def g_def)
  ultimately show ?thesis using assms(1) s' sum fl by (auto simp: snd_win_def)
qed

lemma Write_win: "snd_win s \<Longrightarrow> Write clk p w s = (out, fs, s') \<Longrightarrow> snd_win s'"
proof (induction clk p w s arbitrary: out fs s' rule: Write.induct)
  case (1 clk p w s)
  show ?case
  proof (cases "p = [] \<or> st_closed s \<or> st_reset s \<or> \<not> windowAvailable s > 0")
    case True
    then show ?thesis using "1.prems" by (auto simp: Write.simps [of clk p] split: if_splits)
  next
    case False
    obtain s1 f where seg: "write_seg (clk w) p s = (s1, f)" by (metis prod.exhaust)
    obtain out' fs' s2 where rec: "Write clk (drop (write_chunk p s) p) (w + write_chunk p s) s1 = (out', fs', s2)"
      by (metis prod.exhaust)
    have "snd_win s1" using write_seg_win [OF "1.prems"(1) _ _ seg] False by simp
    moreover have "s' = s2" using "1.prems"(2) False seg rec by (auto simp: Write.simps [of clk p] Let_def)
    ultimately show ?thesis using "1.IH" [OF _ _ _ refl seg [symmetric] refl _ rec] False by simp
  qed
qed

lemma snd_win_requeue:
  "snd_win s \<Longrightarrow> map sg_seq q = map sg_seq (sndQueue s) \<Longrightarrow> map sg_data q = map sg_data (sndQueue s) \<Longrightarrow>
   snd_win (s\<lparr>sndQueue := q\<rparr>)"
  unfolding snd_win_def inFlight_def
  using seg_chain_cong [of q "sndQueue s"] q_bytes_cong [of "tl q" "tl (sndQueue s)"]
  by (simp add: map_tl) (metis Nil_is_map_conv)

lemma snd_win_on_loss: "snd_win s \<Longrightarrow> snd_win (on_loss s)"
  by (simp add: snd_win_def on_loss_def Let_def inFlight_def RecvBufMax_def)

lemma probe_step_frame:
  "probe_step now s = (s', fs) \<Longrightarrow>
   snd_part s' = snd_part s \<and> recv_view s' = recv_view s \<and> send_view s' = send_view s \<and> (\<forall>f \<in> set fs. sent_ok S fin f)"
  by (auto simp: probe_step_def Let_def snd_part_def recv_view_def send_view_def split: if_splits)

text \<open>What \<^verbatim>\<open>Tick\<close> does to the queue, whichever way it ends.\<close>

lemma Tick_cases:
  assumes "Tick now s = (alive, fs, s')"
  obtains (idle) "s' = s" "fs = []"
  | (dead) q where "map sg_seq q = map sg_seq (sndQueue s)" "map sg_data q = map sg_data (sndQueue s)"
      "snd_part s' = snd_part (s\<lparr>sndQueue := q\<rparr>)" "recv_view s' = recv_view s" "send_view s' = send_view s" "fs = []"
  | (live) q s1 ps re where "map sg_seq q = map sg_seq (sndQueue s)" "map sg_data q = map sg_data (sndQueue s)"
      "s1 = s\<lparr>sndQueue := q\<rparr> \<or> s1 = on_loss (s\<lparr>sndQueue := q\<rparr>)"
      "snd_part s' = snd_part s1" "recv_view s' = recv_view s" "send_view s' = send_view s"
      "\<forall>f \<in> set re. \<exists>g \<in> set (sndQueue s). \<exists>g'. f = data_frame s g' \<and> sg_seq g' = sg_seq g \<and> sg_data g' = sg_data g"
      "\<forall>S fin. \<forall>f \<in> set ps. sent_ok S fin f" "fs = re @ ps"
proof (cases "st_reset s")
  case True
  then show ?thesis using assms idle by (simp add: Tick_def)
next
  case False
  obtain q re lost d where t: "tick_segs now (rto s) (data_frame s) (sndQueue s) = (q, re, lost, d)"
    by (metis prod.exhaust)
  note src = tick_segs_src [OF t]
  show ?thesis
  proof (cases d)
    case (Some g)
    then show ?thesis using assms False t src
      by (intro dead [of q]) (auto simp: Tick_def snd_part_def recv_view_def send_view_def)
  next
    case None
    let ?s1 = "if lost then on_loss (s\<lparr>sndQueue := q\<rparr>) else s\<lparr>sndQueue := q\<rparr>"
    obtain s3 pr where p: "probe_step now ?s1 = (s3, pr)" by (metis prod.exhaust)
    have v: "snd_part s3 = snd_part ?s1 \<and> recv_view s3 = recv_view s \<and> send_view s3 = send_view s"
      using probe_step_frame [OF p] by (auto simp: recv_view_def send_view_def on_loss_def Let_def)
    have fr: "\<forall>S fin. \<forall>f \<in> set (pr @ (if ackPending s3 then [ackFrame s3] else [])). sent_ok S fin f"
      using probe_step_frame [OF p] by (auto simp: ackFrame_def)
    have r: "fs = re @ pr @ (if ackPending s3 then [ackFrame s3] else [])" "s' = s3\<lparr>ackPending := False\<rparr>"
      using assms False t None p by (auto simp: Tick_def)
    show ?thesis
      by (rule live [of q ?s1 re "pr @ (if ackPending s3 then [ackFrame s3] else [])"])
        (use src v fr r in \<open>auto simp: snd_part_def recv_view_def send_view_def\<close>)
  qed
qed

lemma Tick_win: "snd_win s \<Longrightarrow> Tick now s = (alive, fs, s') \<Longrightarrow> snd_win s'"
proof (erule Tick_cases)
  fix q s1 assume a: "snd_win s" "map sg_seq q = map sg_seq (sndQueue s)" "map sg_data q = map sg_data (sndQueue s)"
    "s1 = s\<lparr>sndQueue := q\<rparr> \<or> s1 = on_loss (s\<lparr>sndQueue := q\<rparr>)" "snd_part s' = snd_part s1"
  have "snd_win s1" using a(4) snd_win_requeue [OF a(1-3)] snd_win_on_loss by auto
  then show "snd_win s'" using snd_win_part [OF a(5)] by simp
next
  fix q assume a: "snd_win s" "map sg_seq q = map sg_seq (sndQueue s)" "map sg_data q = map sg_data (sndQueue s)"
    "snd_part s' = snd_part (s\<lparr>sndQueue := q\<rparr>)"
  show "snd_win s'" using snd_win_part [OF a(4)] snd_win_requeue [OF a(1-3)] by blast
qed simp

lemma snd_src_queue:
  "snd_src S s \<Longrightarrow> sndNext s' = sndNext s \<Longrightarrow> map sg_seq (sndQueue s') = map sg_seq (sndQueue s) \<Longrightarrow>
   map sg_data (sndQueue s') = map sg_data (sndQueue s) \<Longrightarrow> snd_src S s'"
proof -
  assume a: "snd_src S s" "sndNext s' = sndNext s" "map sg_seq (sndQueue s') = map sg_seq (sndQueue s)"
    "map sg_data (sndQueue s') = map sg_data (sndQueue s)"
  have len: "length (sndQueue s') = length (sndQueue s)" using map_eq_imp_length_eq [OF a(3)] .
  have "\<exists>g \<in> set (sndQueue s). sg_seq g' = sg_seq g \<and> sg_data g' = sg_data g" if mem: "g' \<in> set (sndQueue s')" for g'
  proof -
    obtain i where i: "i < length (sndQueue s')" "g' = sndQueue s' ! i" using mem by (auto simp: in_set_conv_nth)
    have "sg_seq g' = sg_seq (sndQueue s ! i)" "sg_data g' = sg_data (sndQueue s ! i)"
      using i len a(3,4) by (metis nth_map)+
    then show ?thesis using i len by (metis nth_mem)
  qed
  then have "\<exists>m. sg_seq g' = word_of_nat m \<and> is_slice S m (sg_data g') \<and> length (sg_data g') \<le> MaxSegment"
    if "g' \<in> set (sndQueue s')" for g'
    using a(1) that unfolding snd_src_def by fastforce
  then show "snd_src S s'" using a(1,2) unfolding snd_src_def by simp
qed

lemma data_frame_ok:
  assumes "snd_src S s" "g \<in> set (sndQueue s)" "sg_seq g' = sg_seq g" "sg_data g' = sg_data g"
  shows "sent_ok S fin (data_frame t g')"
  using assms sent_ok_data unfolding snd_src_def data_frame_def by metis

lemma Tick_src:
  assumes "snd_src S s" "Tick now s = (alive, fs, s')"
  shows "snd_src S s' \<and> recv_view s' = recv_view s \<and> send_view s' = send_view s \<and> (\<forall>f \<in> set fs. sent_ok S fin f)"
  using assms(2)
proof (cases rule: Tick_cases)
  case idle
  then show ?thesis using assms(1) by simp
next
  case (dead q)
  then show ?thesis using snd_src_queue [OF assms(1), of s'] by (auto simp: snd_part_def)
next
  case (live q s1 ps re)
  have "sndNext s' = sndNext s" "sndQueue s' = q" using live(3,4) by (auto simp: snd_part_def on_loss_def Let_def)
  then have "snd_src S s'" using snd_src_queue [OF assms(1), of s'] live(1,2) by simp
  moreover have "\<forall>f \<in> set fs. sent_ok S fin f" using live(7,8,9) data_frame_ok [OF assms(1)] by auto
  ultimately show ?thesis using live(5,6) by simp
qed

text \<open>What an inbound frame can change of the sending half, whatever it contains.\<close>

definition snd_all :: "stream \<Rightarrow> u32 \<times> u32 \<times> segment list \<times> u32 \<times> bool \<times> bool" where
  "snd_all s = (sndNext s, sndUnack s, sndQueue s, cwnd s, st_closed s, finSent s)"

lemma snd_all_upd [simp]:
  "snd_all (s\<lparr>ackPending := x\<rparr>) = snd_all s" "snd_all (s\<lparr>finRecvd := y\<rparr>) = snd_all s"
  "snd_all (s\<lparr>rcvOOO := m\<rparr>) = snd_all s" "snd_all (s\<lparr>st_reset := z, st_err := e\<rparr>) = snd_all s"
  by (simp_all add: snd_all_def)

lemma snd_all_drainOOO [simp]: "snd_all (drainOOO s) = snd_all s"
proof (induction s rule: drainOOO.induct)
  case (1 s)
  then show ?case
    by (subst drainOOO.simps) (auto simp: snd_all_def Let_def split: option.splits)
qed

lemma snd_all_acceptData [simp]: "snd_all (acceptData q d s) = snd_all s"
proof -
  have "snd_all (placeData q d s) = snd_all s" for q d
    by (auto simp: placeData_def snd_all_def [of "_\<lparr>rcvOOO := _\<rparr>"] split: option.splits) (simp_all add: snd_all_def)
  then show ?thesis by (auto simp: acceptData_def Let_def)
qed

lemma snd_all_part: "snd_all s = snd_all t \<Longrightarrow> snd_part s = snd_part t \<and> send_view s = send_view t"
  by (simp add: snd_all_def snd_part_def send_view_def)

lemma OnFrame_snd:
  assumes "snd_win s"
  shows "\<exists>s' fs. OnFrame now b s = Some (s', fs) \<and> snd_win s' \<and> send_view s' = send_view s \<and>
    set (sndQueue s') \<subseteq> set (sndQueue s) \<and> (\<forall>S fin. \<forall>f \<in> set fs. sent_ok S fin f)"
proof (cases "decodeFrame b")
  case (Inl e)
  then show ?thesis using assms by (auto simp: OnFrame_def)
next
  case (Inr f)
  have "snd_win (s\<lparr>peerWnd := ucast (fr_wnd f)\<rparr>)"
    using assms snd_win_part [of "s\<lparr>peerWnd := ucast (fr_wnd f)\<rparr>" s] by (simp add: snd_part_def)
  from processAck_win [OF this, of now "fr_ack f"] obtain s1 where
    pa: "processAck now (fr_ack f) (s\<lparr>peerWnd := ucast (fr_wnd f)\<rparr>) = Some s1" and w: "snd_win s1"
    and v: "send_view s1 = send_view s" "set (sndQueue s1) \<subseteq> set (sndQueue s)"
    by (auto simp: send_view_def)
  have keep: "snd_win t \<and> send_view t = send_view s \<and> set (sndQueue t) \<subseteq> set (sndQueue s)"
    if "snd_all t = snd_all s1" for t
    using snd_all_part [OF that] snd_win_part [of t s1] w v that by (simp add: snd_all_def)
  obtain t fs where on: "OnFrame now b s = Some (t, fs)" "snd_all t = snd_all s1" "fs = [] \<or> (\<exists>u. fs = [ackFrame u])"
  proof -
    have "\<exists>t fs. OnFrame now b s = Some (t, fs) \<and> snd_all t = snd_all s1 \<and> (fs = [] \<or> (\<exists>u. fs = [ackFrame u]))"
      by (auto simp: OnFrame_def Inr pa sendAck_def)
    then show thesis using that by blast
  qed
  then show ?thesis using keep [OF on(2)] by (auto simp: ackFrame_def)
qed

lemma OnFrame_src:
  assumes "snd_src S s" "snd_win s" "OnFrame now b s = Some (s', fs)"
  shows "snd_src S s' \<and> snd_win s' \<and> send_view s' = send_view s \<and> (\<forall>f \<in> set fs. sent_ok S fin f)"
proof -
  have o: "snd_win s'" "send_view s' = send_view s" "set (sndQueue s') \<subseteq> set (sndQueue s)" "\<forall>f \<in> set fs. sent_ok S fin f"
    using OnFrame_snd [OF assms(2), of now b] assms(3) by auto
  then have "snd_src S s'" using assms(1) unfolding snd_src_def send_view_def by auto
  then show ?thesis using o by simp
qed

lemma Read_snd:
  assumes "Read k s = (r, fs, s')"
  shows "snd_all s' = snd_all s \<and> (\<forall>f \<in> set fs. sent_ok S fin f)"
  using assms by (auto simp: Read_def sendAck_def ackFrame_def snd_all_def Let_def split: if_splits)

lemma Close_snd:
  assumes "Close s = (fs, s')" "snd_src S s"
  shows "snd_part s' = snd_part s \<and> recv_view s' = recv_view s \<and> st_closed s' \<and> (\<forall>f \<in> set fs. sent_ok S True f)"
  using assms sent_ok_fin by (auto simp: Close_def snd_src_def snd_part_def recv_view_def Let_def split: if_splits)

lemma snd_src_part: "snd_part s' = snd_part s \<Longrightarrow> snd_src S s' = snd_src S s"
  by (simp add: snd_src_def snd_part_def)

end
