(* ===== verification/Stream_Net.thy ===== *)
theory Stream_Net
  imports Stream_Send
begin

text \<open>
  Two ends of a stream joined by a network. \<open>A\<close> writes and closes, \<open>B\<close> reads; every frame \<open>A\<close> ever
  handed to \<^verbatim>\<open>sendFn\<close> stays available, so the network may lose, duplicate, delay and reorder
  at will. In the other direction nothing is assumed at all: \<open>A\<close> may be handed any bytes as a frame.
  A step is a call; a \<^verbatim>\<open>Write\<close> that releases the lock between two segments and is overtaken there
  is two steps, one for each part of its argument, since \<open>p\<close> is arbitrary. The sequence numbers have 32 bits and are compared within half their
  range; the delivery properties are stated for runs in which \<open>A\<close> wrote less than two gigabytes.
\<close>

record net =
  nA :: stream
  nB :: stream
  wire :: "bytes set"
  wsent :: bytes
  wgot :: bytes

definition net_init :: net where
  "net_init = \<lparr>nA = New, nB = New, wire = {}, wsent = [], wgot = []\<rparr>"

inductive net_step :: "net \<Rightarrow> net \<Rightarrow> bool" where
  a_write: "Write clk p 0 (nA n) = (out, fs, a) \<Longrightarrow>
     net_step n (n\<lparr>nA := a, wire := wire n \<union> set fs, wsent := wsent n @ take (written_of out) p\<rparr>)"
| a_close: "Close (nA n) = (fs, a) \<Longrightarrow> net_step n (n\<lparr>nA := a, wire := wire n \<union> set fs\<rparr>)"
| a_tick: "Tick now (nA n) = (alive, fs, a) \<Longrightarrow> net_step n (n\<lparr>nA := a, wire := wire n \<union> set fs\<rparr>)"
| a_recv: "OnFrame now b (nA n) = Some (a, fs) \<Longrightarrow> net_step n (n\<lparr>nA := a, wire := wire n \<union> set fs\<rparr>)"
| a_read: "Read k (nA n) = (r, fs, a) \<Longrightarrow> net_step n (n\<lparr>nA := a, wire := wire n \<union> set fs\<rparr>)"
| b_recv: "b \<in> wire n \<Longrightarrow> OnFrame now b (nB n) = Some (s, fs) \<Longrightarrow> net_step n (n\<lparr>nB := s\<rparr>)"
| b_read: "Read k (nB n) = (ROk d, fs, s) \<Longrightarrow> net_step n (n\<lparr>nB := s, wgot := wgot n @ d\<rparr>)"
| b_tick: "Tick now (nB n) = (alive, fs, s) \<Longrightarrow> net_step n (n\<lparr>nB := s\<rparr>)"
| b_write: "Write clk p 0 (nB n) = (out, fs, s) \<Longrightarrow> net_step n (n\<lparr>nB := s\<rparr>)"
| b_close: "Close (nB n) = (fs, s) \<Longrightarrow> net_step n (n\<lparr>nB := s\<rparr>)"

definition net_inv :: "net \<Rightarrow> bool" where
  "net_inv n \<longleftrightarrow>
     snd_src (wsent n) (nA n) \<and> snd_win (nA n) \<and> snd_win (nB n) \<and>
     (\<forall>f \<in> wire n. sent_ok (wsent n) (st_closed (nA n)) f) \<and>
     (length (wsent n) < 2 ^ 31 \<longrightarrow> rcv_inv (wsent n) (st_closed (nA n)) (wgot n) (nB n))"

lemma net_inv_init: "net_inv net_init"
proof -
  have "\<not> st_closed New" by (simp add: New_def)
  then show ?thesis by (simp add: net_inv_def net_init_def snd_src_New snd_win_New rcv_inv_New)
qed

section \<open>Steps of the writer\<close>

lemma net_inv_a:
  assumes "net_inv n" "snd_src (wsent n) a" "snd_win a" "send_view a = send_view (nA n)"
    "\<forall>f \<in> set fs. sent_ok (wsent n) (st_closed (nA n)) f"
  shows "net_inv (n\<lparr>nA := a, wire := wire n \<union> set fs\<rparr>)"
  using assms by (auto simp: net_inv_def send_view_def)

lemma net_inv_close:
  assumes "net_inv n" "Close (nA n) = (fs, a)"
  shows "net_inv (n\<lparr>nA := a, wire := wire n \<union> set fs\<rparr>)"
proof -
  have src: "snd_src (wsent n) (nA n)" using assms(1) by (simp add: net_inv_def)
  note c = Close_snd [OF assms(2) src]
  then have "snd_src (wsent n) a" "snd_win a"
    using assms(1) snd_src_part [of a "nA n"] snd_win_part [of a "nA n"] by (auto simp: net_inv_def)
  then show ?thesis
    using assms(1) c sent_ok_mono_fin rcv_inv_fin by (auto simp: net_inv_def)
qed

lemma Write_closed: "st_closed s \<Longrightarrow> Write clk p 0 s = (out, fs, s') \<Longrightarrow> written_of out = 0 \<and> fs = [] \<and> s' = s"
  by (auto simp: Write.simps [of clk p] split: if_splits)

lemma net_inv_write:
  assumes "net_inv n" "Write clk p 0 (nA n) = (out, fs, a)"
  shows "net_inv (n\<lparr>nA := a, wire := wire n \<union> set fs, wsent := wsent n @ take (written_of out) p\<rparr>)"
proof (cases "st_closed (nA n)")
  case True
  then show ?thesis using Write_closed [OF True assms(2)] assms(1) by (simp add: net_inv_def)
next
  case False
  have "snd_src (wsent n) (nA n)" "snd_win (nA n)" using assms(1) by (auto simp: net_inv_def)
  from Write_src [OF assms(2) this(1) False] Write_win [OF this(2) assms(2)]
  have w: "snd_src (wsent n @ take (written_of out) p) a" "snd_win a" "\<not> st_closed a"
    "\<forall>f \<in> set fs. sent_ok (wsent n @ take (written_of out) p) False f"
    using False by auto
  then show ?thesis
    using assms(1) False sent_ok_extend rcv_inv_extend by (auto simp: net_inv_def)
qed

section \<open>Steps of the reader\<close>

lemma net_inv_b:
  assumes "net_inv n" "snd_win s" "recv_view s = recv_view (nB n)"
  shows "net_inv (n\<lparr>nB := s\<rparr>)"
  using assms(1,2) rcv_inv_view [OF assms(3)] by (auto simp: net_inv_def)

lemma Write_view: "Write clk p w s = (out, fs, s') \<Longrightarrow> recv_view s' = recv_view s"
proof (induction clk p w s arbitrary: out fs s' rule: Write.induct)
  case (1 clk p w s)
  show ?case
  proof (cases "p = [] \<or> st_closed s \<or> st_reset s \<or> \<not> windowAvailable s > 0")
    case True
    then show ?thesis using "1.prems" by (auto simp: Write.simps [of clk p] split: if_splits)
  next
    case False
    obtain s1 f where seg: "write_seg (clk w) p s = (s1, f)" by (metis prod.exhaust)
    obtain out' fs' s2 where rec: "Write clk (drop (write_chunk p s) p) (w + write_chunk p s) s1 = (out', fs', s2)"
      by (metis prod.exhaust)
    have "s' = s2" using "1.prems" False seg rec by (auto simp: Write.simps [of clk p] Let_def)
    then show ?thesis using "1.IH" [OF _ _ _ refl seg [symmetric] refl rec] False write_seg_closed [OF seg] by simp
  qed
qed

lemma Tick_view: "Tick now s = (alive, fs, s') \<Longrightarrow> recv_view s' = recv_view s"
  by (erule Tick_cases) simp_all

lemma Close_view: "Close s = (fs, s') \<Longrightarrow> recv_view s' = recv_view s \<and> snd_part s' = snd_part s"
  by (auto simp: Close_def recv_view_def snd_part_def Let_def split: if_splits)

lemma net_inv_recv:
  assumes "net_inv n" "b \<in> wire n" "OnFrame now b (nB n) = Some (s, fs)"
  shows "net_inv (n\<lparr>nB := s\<rparr>)"
proof -
  have "snd_win s" using OnFrame_snd [of "nB n" now b] assms(1,3) by (auto simp: net_inv_def)
  moreover have "rcv_inv (wsent n) (st_closed (nA n)) (wgot n) s" if "length (wsent n) < 2 ^ 31"
    using OnFrame_sent_inv [OF _ that _ assms(3)] assms(1,2) that by (auto simp: net_inv_def)
  ultimately show ?thesis using assms(1) by (simp add: net_inv_def)
qed

lemma snd_win_all: "snd_all s' = snd_all s \<Longrightarrow> snd_win s \<Longrightarrow> snd_win s'"
  using snd_all_part snd_win_part by blast

theorem net_step_inv: "net_step n n' \<Longrightarrow> net_inv n \<Longrightarrow> net_inv n'"
proof (induction rule: net_step.induct)
  case (a_write clk p n out fs a)
  then show ?case by (intro net_inv_write)
next
  case (a_close n fs a)
  then show ?case by (intro net_inv_close)
next
  case (a_tick now n alive fs a)
  then have "snd_src (wsent n) (nA n)" "snd_win (nA n)" by (auto simp: net_inv_def)
  then show ?case using Tick_src Tick_win a_tick by (intro net_inv_a) blast+
next
  case (a_recv now b n a fs)
  then have "snd_src (wsent n) (nA n)" "snd_win (nA n)" by (auto simp: net_inv_def)
  from OnFrame_src [OF this a_recv(1)] show ?case using a_recv by (intro net_inv_a) auto
next
  case (a_read k n r fs a)
  then have "snd_src (wsent n) (nA n)" "snd_win (nA n)" by (auto simp: net_inv_def)
  then show ?case using Read_snd [OF a_read(1)] snd_all_part snd_src_part snd_win_all a_read(2)
    by (intro net_inv_a) blast+
next
  case (b_recv b n now s fs)
  then show ?case by (intro net_inv_recv)
next
  case (b_read k n d fs s)
  then have "snd_win s" using Read_snd snd_win_all unfolding net_inv_def by blast
  then show ?case using b_read Read_inv by (auto simp: net_inv_def)
next
  case (b_tick now n alive fs s)
  then show ?case using Tick_view Tick_win by (intro net_inv_b) (auto simp: net_inv_def)
next
  case (b_write clk p n out fs s)
  then show ?case using Write_view Write_win by (intro net_inv_b) (auto simp: net_inv_def)
next
  case (b_close n fs s)
  then show ?case using Close_view [OF b_close(1)] snd_win_part [of s "nB n"]
    by (intro net_inv_b) (auto simp: net_inv_def)
qed

interpretation stream_net: invariant_system net_step net_inv
  by unfold_locales (rule net_step_inv)

abbreviation net_reachable :: "net \<Rightarrow> bool" where
  "net_reachable n \<equiv> net_step\<^sup>*\<^sup>* net_init n"

lemma net_reachable_inv: "net_reachable n \<Longrightarrow> net_inv n"
  using stream_net.run_inv net_inv_init by blast

section \<open>What the two ends see\<close>

lemma rcv_inv_prefix: "rcv_inv S fin got s \<Longrightarrow> prefix (got @ rcvBuf s) S"
  unfolding rcv_inv_def rcv_at_def by (metis take_is_prefix)

lemma Read_EOF: "Read k s = (RErr ErrEOF, fs, s') \<Longrightarrow> finRecvd s \<and> rcvBuf s = []"
  by (auto simp: Read_def Let_def sendAck_def split: if_splits)

lemma rcv_inv_EOF: "rcv_inv S fin got s \<Longrightarrow> finRecvd s \<Longrightarrow> rcvBuf s = [] \<Longrightarrow> fin \<and> got = S"
  by (auto simp: rcv_inv_def rcv_at_def)

end
