(* ===== verification/Stream_Props.thy ===== *)
theory Stream_Props
  imports Stream_Net
begin

text \<open>
  The properties of the stream: delivery in order and without loss, end of file only at the end,
  no crash on any bytes, the window and timer bounds, retransmission, and two places where the
  code falls short of its comments: the FIN is sent once and never again, and segments parked out
  of order escape the bound on held data.
\<close>

section \<open>The retransmission timer\<close>

definition rto_ok :: "stream \<Rightarrow> bool" where
  "rto_ok s \<longleftrightarrow> minRTO \<le> rto s \<and> rto s \<le> maxRTO"

lemma rto_consts [simp]: "minRTO = 200000000" "maxRTO = 10000000000"
  by (simp_all add: minRTO_def maxRTO_def Millisecond_def Second_def)

lemma rto_ok_New: "rto_ok New"
  by (simp add: rto_ok_def New_def)

lemma rto_ok_updateRTT: "rto_ok (updateRTT x s)"
  by (simp add: rto_ok_def updateRTT_def Let_def)

lemma rto_ok_ack_loop: "ack_loop now ack q s = (a, k, s') \<Longrightarrow> rto_ok s \<Longrightarrow> rto_ok s'"
proof (induction q arbitrary: s a k)
  case (Cons g q)
  then show ?case by (auto simp: Let_def rto_ok_updateRTT split: if_splits prod.splits)
qed simp

lemma rto_ok_processAck:
  assumes "processAck now ack s = Some s'" "rto_ok s"
  shows "rto_ok s'"
proof (cases "seqLE ack (sndUnack s)")
  case False
  obtain a k s1 where l: "ack_loop now ack (sndQueue s) s = (a, k, s1)" by (metis prod.exhaust)
  have "rto s' = rto s1"
    using assms False l by (auto simp: processAck_def grow_cwnd_def Let_def split: if_splits)
  then show ?thesis using rto_ok_ack_loop [OF l assms(2)] by (simp add: rto_ok_def)
qed (use assms in \<open>simp add: processAck_def\<close>)

lemma rto_drainOOO [simp]: "rto (drainOOO s) = rto s"
proof (induction s rule: drainOOO.induct)
  case (1 s)
  then show ?case by (subst drainOOO.simps) (auto simp: Let_def split: option.splits)
qed

lemma rto_acceptData [simp]: "rto (acceptData q d s) = rto s"
  by (auto simp: acceptData_def placeData_def Let_def split: option.splits)

lemma rto_ok_OnFrame:
  assumes "OnFrame now b s = Some (s', fs)" "rto_ok s"
  shows "rto_ok s'"
proof (cases "decodeFrame b")
  case (Inr f)
  have "rto_ok (s\<lparr>peerWnd := w\<rparr>)" for w using assms(2) by (simp add: rto_ok_def)
  then have "rto_ok s1" if "processAck now (fr_ack f) (s\<lparr>peerWnd := ucast (fr_wnd f)\<rparr>) = Some s1" for s1
    using rto_ok_processAck that by blast
  then show ?thesis
    using assms(1) Inr by (auto simp: OnFrame_def sendAck_def rto_ok_def split: option.splits if_splits)
qed (use assms in \<open>simp add: OnFrame_def\<close>)

lemma rto_ok_Tick: "Tick now s = (alive, fs, s') \<Longrightarrow> rto_ok s \<Longrightarrow> rto_ok s'"
  by (auto simp: Tick_def probe_step_def on_loss_def rto_ok_def Let_def split: if_splits option.splits prod.splits)

lemma rto_Write: "Write clk p w s = (out, fs, s') \<Longrightarrow> rto s' = rto s"
proof (induction clk p w s arbitrary: out fs s' rule: Write.induct)
  case (1 clk p w s)
  show ?case
  proof (cases "p = [] \<or> st_closed s \<or> st_reset s \<or> \<not> windowAvailable s > 0")
    case True
    then show ?thesis using "1.prems" by (auto simp: Write.simps [of clk p] split: if_splits)
  next
    case False
    obtain s1 f where seg: "write_seg (clk w) p s = (s1, f)" by (metis prod.exhaust)
    obtain out' fs' s2 where rec: "Write clk (drop (write_chunk p s) p) (w + write_chunk p s) s1 = (out', fs', s2)"
      by (metis prod.exhaust)
    have "s' = s2" "rto s1 = rto s"
      using "1.prems" False seg rec by (auto simp: Write.simps [of clk p] write_seg_def Let_def)
    then show ?thesis using "1.IH" [OF _ _ _ refl seg [symmetric] refl rec] False by simp
  qed
qed

lemma rto_ok_cong: "rto s' = rto s \<Longrightarrow> rto_ok s \<Longrightarrow> rto_ok s'"
  by (simp add: rto_ok_def)

lemma rto_Read: "Read k s = (r, fs, s') \<Longrightarrow> rto s' = rto s"
  by (auto simp: Read_def sendAck_def Let_def split: if_splits)

lemma rto_Close: "Close s = (fs, s') \<Longrightarrow> rto s' = rto s"
  by (auto simp: Close_def Let_def split: if_splits)

lemmas rto_keeps = rto_ok_Tick rto_ok_OnFrame rto_ok_cong [OF rto_Write] rto_ok_cong [OF rto_Read] rto_ok_cong [OF rto_Close]

interpretation rto_net: invariant_system net_step "\<lambda>n. rto_ok (nA n) \<and> rto_ok (nB n)"
proof unfold_locales
  fix n n' assume "net_step n n'" "rto_ok (nA n) \<and> rto_ok (nB n)"
  then show "rto_ok (nA n') \<and> rto_ok (nB n')"
    by (induction rule: net_step.induct) (auto dest: rto_keeps)
qed

lemma net_reachable_rto: "net_reachable n \<Longrightarrow> rto_ok (nA n) \<and> rto_ok (nB n)"
  using rto_net.run_inv [of net_init n] rto_ok_New by (simp add: net_init_def)

section \<open>Retransmission\<close>

lemma tick_segs_resend:
  assumes "tick_segs now r mk q = (q', fs, lost, None)" "g \<in> set q" "r \<le> Time_Sub now (sg_sentAt g)"
  shows "mk (g\<lparr>sg_retries := sg_retries g + 1, sg_sentAt := now\<rparr>) \<in> set fs \<and> sg_retries g < maxRetries"
  using assms
proof (induction q arbitrary: q' fs lost)
  case (Cons h q)
  then show ?case by (auto simp: Let_def split: if_splits prod.splits)
qed simp

lemma Tick_alive:
  assumes "Tick now s = (True, fs, s')"
  shows "\<exists>q re lost tl. tick_segs now (rto s) (data_frame s) (sndQueue s) = (q, re, lost, None) \<and> fs = re @ tl"
  using assms by (auto simp: Tick_def Let_def split: if_splits option.splits prod.splits)

lemma sent_ok_type:
  assumes "sent_ok S fin f" "decodeFrame f = Inr r"
  shows "fr_typ r \<in> {FrameData, FrameAck, FrameFin} \<and> (fr_typ r = FrameFin \<longrightarrow> fin)"
proof -
  obtain ty q ack wnd p where e: "f = encodeFrame ty q ack wnd p" "length p \<le> MaxSegment"
    "ty \<in> {FrameData, FrameAck, FrameFin}" "ty = FrameFin \<longrightarrow> fin"
    using assms(1) unfolding sent_ok_def by blast
  then have "length p < 2 ^ 16" by (simp add: MaxSegment_def)
  then show ?thesis using decode_encodeFrame_append [of p ty q ack wnd "[]"] e assms(2) by auto
qed

section \<open>Steps after the close\<close>

definition is_fin :: "bytes \<Rightarrow> bool" where
  "is_fin f = (case decodeFrame f of Inl e \<Rightarrow> False | Inr r \<Rightarrow> fr_typ r = FrameFin)"

lemma no_fin: "sent_ok S False f \<Longrightarrow> \<not> is_fin f"
  using sent_ok_type by (fastforce simp: is_fin_def split: sum.splits)

lemma no_new_fin:
  assumes "net_step n n'" "net_inv n" "st_closed (nA n)"
  shows "st_closed (nA n') \<and> (\<forall>f \<in> wire n'. is_fin f \<longrightarrow> f \<in> wire n)"
  using assms
proof (induction rule: net_step.induct)
  case (a_write clk p n out fs a)
  then show ?case using Write_closed by fastforce
next
  case (a_close n fs a)
  then show ?case by (auto simp: Close_def)
next
  case (a_tick now n alive fs a)
  then have "snd_src (wsent n) (nA n)" by (auto simp: net_inv_def)
  from Tick_src [OF this a_tick(1), of False] show ?case using a_tick no_fin by (auto simp: send_view_def)
next
  case (a_recv now b n a fs)
  then have "snd_src (wsent n) (nA n)" "snd_win (nA n)" by (auto simp: net_inv_def)
  from OnFrame_src [OF this a_recv(1), of False] show ?case using a_recv no_fin by (auto simp: send_view_def)
next
  case (a_read k n r fs a)
  then show ?case using Read_snd [OF a_read(1), of "[]" False] no_fin by (auto simp: snd_all_def)
qed auto

section \<open>Segments parked out of order\<close>

definition parked_bytes :: "stream \<Rightarrow> nat" where
  "parked_bytes s = sum_list (map (\<lambda>p. length (snd p)) (rcvOOO s))"

fun feed :: "bytes list \<Rightarrow> stream \<Rightarrow> stream option" where
  "feed [] s = Some s"
| "feed (b # bs) s = (case OnFrame 0 b s of None \<Rightarrow> None | Some (s', fs) \<Rightarrow> feed bs s')"

definition gap_frame :: "nat \<Rightarrow> bytes" where
  "gap_frame i = encodeFrame FrameData (word_of_nat (2000 * Suc i)) 0 0 (replicate MaxSegment 0)"

lemma feed_append: "feed (as @ bs) s = Option.bind (feed as s) (feed bs)"
  by (induction as arbitrary: s) (auto split: option.splits)

lemma update_new: "map_of m k = None \<Longrightarrow> AList.update k v m = m @ [(k, v)]"
  by (induction m) (auto split: if_splits)

lemma OnFrame_gap:
  assumes "rcvNext s = 0" "rcvBuf s = []" "sndUnack s = 0" "i < 1000000"
    "map_of (rcvOOO s) (word_of_nat (2000 * Suc i)) = None"
  shows "\<exists>t fs. OnFrame 0 (gap_frame i) s = Some (t, fs) \<and> rcvNext t = 0 \<and> rcvBuf t = [] \<and> sndUnack t = 0 \<and>
    rcvOOO t = rcvOOO s @ [(word_of_nat (2000 * Suc i), replicate MaxSegment 0)]"
proof -
  let ?d = "replicate MaxSegment 0 :: bytes" and ?q = "word_of_nat (2000 * Suc i) :: u32"
  let ?s1 = "s\<lparr>peerWnd := 0\<rparr>"
  have dec: "decodeFrame (gap_frame i) = Inr \<lparr>fr_typ = FrameData, fr_seq = ?q, fr_ack = 0, fr_wnd = 0, fr_payload = ?d\<rparr>"
    using decode_encodeFrame_append [of ?d FrameData ?q 0 0 "[]"] by (simp add: gap_frame_def MaxSegment_def)
  have pa: "processAck 0 0 ?s1 = Some ?s1" using assms(3) by (simp add: processAck_def seqLE_def)
  have le: "\<not> seqLE (?q + word_of_nat MaxSegment) 0"
    using seqLE_nat [of "2000 * Suc i + MaxSegment" 0] assms(4) by (simp add: MaxSegment_def)
  have lt: "\<not> seqLT ?q 0" using seqLT_nat [of "2000 * Suc i" 0] assms(4) by simp
  have ne: "?q \<noteq> 0" using word_of_nat_inj_31 [of "2000 * Suc i" 0] assms(4) by simp
  have "acceptData ?q ?d ?s1 = ?s1\<lparr>rcvOOO := rcvOOO s @ [(?q, ?d)]\<rparr>"
    using le lt ne assms by (simp add: acceptData_def placeData_def update_new RecvBufMax_def MaxSegment_def)
  moreover have "FrameData \<noteq> FrameRst" "FrameData \<noteq> FrameFin" "0 < MaxSegment" by (simp_all add: wire_simps MaxSegment_def)
  ultimately show ?thesis using assms by (simp add: OnFrame_def dec pa sendAck_def)
qed

lemma feed_gaps:
  "k \<le> 1000000 \<Longrightarrow> \<exists>s. feed (map gap_frame [0..<k]) New = Some s \<and> rcvNext s = 0 \<and> rcvBuf s = [] \<and> sndUnack s = 0 \<and>
     rcvOOO s = map (\<lambda>i. (word_of_nat (2000 * Suc i), replicate MaxSegment 0)) [0..<k]"
proof (induction k)
  case 0
  then show ?case by (simp add: New_def)
next
  case (Suc k)
  then obtain s where s: "feed (map gap_frame [0..<k]) New = Some s" "rcvNext s = 0" "rcvBuf s = []" "sndUnack s = 0"
    "rcvOOO s = map (\<lambda>i. (word_of_nat (2000 * Suc i), replicate MaxSegment 0)) [0..<k]" by auto
  have "word_of_nat (2000 * Suc k) \<noteq> (word_of_nat (2000 * Suc i) :: u32)" if "i < k" for i
    using that Suc.prems word_of_nat_inj_31 [of "2000 * Suc k" "2000 * Suc i"] by simp
  then have new: "map_of (rcvOOO s) (word_of_nat (2000 * Suc k)) = None"
    unfolding s(5) map_of_eq_None_iff by (simp add: image_iff del: of_nat_Suc of_nat_mult mult_Suc_right)
  have "k < 1000000" using Suc.prems by simp
  from OnFrame_gap [OF s(2-4) this new] obtain t fs where
    t: "OnFrame 0 (gap_frame k) s = Some (t, fs)" "rcvNext t = 0" "rcvBuf t = []" "sndUnack t = 0"
      "rcvOOO t = rcvOOO s @ [(word_of_nat (2000 * Suc k), replicate MaxSegment 0)]" by blast
  then have "feed (map gap_frame [0..<Suc k]) New = Some t" using s(1) by (simp add: feed_append)
  then show ?case using t s(5) by auto
qed

section \<open>A run\<close>

text \<open>
  A concrete run: \<open>A\<close> writes two bytes and closes; the FIN overtakes the data; \<open>B\<close> reads, then
  meets the end of the file.
\<close>

definition demo_w :: "write_out \<times> bytes list \<times> stream" where
  "demo_w = Write (\<lambda>_. 0) [7, 8] 0 New"

definition demo_c :: "bytes list \<times> stream" where
  "demo_c = Close (snd (snd demo_w))"

definition demo_b :: "stream" where
  "demo_b = fst (the (OnFrame 0 (hd (fst (snd demo_w))) (fst (the (OnFrame 0 (hd (fst demo_c)) New)))))"

definition demo_r :: "read_out \<times> bytes list \<times> stream" where
  "demo_r = Read 10 demo_b"

definition demo_net :: net where
  "demo_net = \<lparr>nA = snd demo_c, nB = snd (snd demo_r), wire = set (fst (snd demo_w)) \<union> set (fst demo_c),
     wsent = [7, 8], wgot = [7, 8]\<rparr>"

lemma demo_facts:
  "written_of (fst demo_w) = 2" "fst demo_r = ROk [7, 8]" "fst (snd demo_w) \<noteq> []" "fst demo_c \<noteq> []"
  "OnFrame 0 (hd (fst demo_c)) New \<noteq> None"
  "OnFrame 0 (hd (fst (snd demo_w))) (fst (the (OnFrame 0 (hd (fst demo_c)) New))) \<noteq> None"
  by code_simp+

lemma demo_eof: "fst (Read 1 (snd (snd demo_r))) = RErr ErrEOF"
  by code_simp

lemma demo_tick:
  "fst (Tick 1000000000000 (snd (snd demo_w)))"
  "sndQueue (snd (snd demo_w)) = [\<lparr>sg_seq = 0, sg_data = [7, 8], sg_sentAt = 0, sg_retries = 0\<rparr>]"
  "rto (snd (snd demo_w)) \<le> Time_Sub 1000000000000 0" "rcvNext (snd (snd demo_w)) = 0"
  "is_fin (hd (fst demo_c))" "st_closed (snd demo_c)"
  by code_simp+

lemma demo_reachable: "net_reachable demo_net"
proof -
  note f = demo_facts
  let ?n1 = "net_init\<lparr>nA := snd (snd demo_w), wire := set (fst (snd demo_w)), wsent := [7, 8]\<rparr>"
  let ?n2 = "?n1\<lparr>nA := snd demo_c, wire := wire ?n1 \<union> set (fst demo_c)\<rparr>"
  let ?b1 = "fst (the (OnFrame 0 (hd (fst demo_c)) New))"
  have 1: "net_step net_init ?n1"
    using a_write [of "\<lambda>_. 0" "[7, 8]" net_init "fst demo_w" "fst (snd demo_w)" "snd (snd demo_w)"] f(1)
    by (simp add: demo_w_def [symmetric] net_init_def)
  have 2: "net_step ?n1 ?n2"
    using a_close [of ?n1 "fst demo_c" "snd demo_c"] by (simp add: demo_c_def [symmetric])
  have 3: "net_step ?n2 (?n2\<lparr>nB := ?b1\<rparr>)"
    by (rule b_recv [of "hd (fst demo_c)" _ 0 _ "snd (the (OnFrame 0 (hd (fst demo_c)) New))"])
      (use f in \<open>auto simp: net_init_def\<close>)
  have 4: "net_step (?n2\<lparr>nB := ?b1\<rparr>) (?n2\<lparr>nB := demo_b\<rparr>)"
    using b_recv [of "hd (fst (snd demo_w))" "?n2\<lparr>nB := ?b1\<rparr>" 0 demo_b "snd (the (OnFrame 0 (hd (fst (snd demo_w))) ?b1))"] f
    by (auto simp: demo_b_def)
  have 5: "net_step (?n2\<lparr>nB := demo_b\<rparr>) (?n2\<lparr>nB := snd (snd demo_r), wgot := [7, 8]\<rparr>)"
    using b_read [of 10 "?n2\<lparr>nB := demo_b\<rparr>" "[7, 8]" "fst (snd demo_r)" "snd (snd demo_r)"] f(2)
    by (simp add: demo_r_def [symmetric] net_init_def prod_eq_iff)
  have "?n2\<lparr>nB := snd (snd demo_r), wgot := [7, 8]\<rparr> = demo_net"
    by (simp add: demo_net_def net_init_def)
  then show ?thesis using 1 2 3 4 5 by (metis (no_types, lifting) rtranclp.simps)
qed

section \<open>Properties\<close>

text \<open>C2. Whatever the network loses, repeats or reorders, and whatever bytes arrive in the other
  direction, the bytes the reader was given, followed by those waiting in its buffer, are a prefix of
  the bytes the writer wrote (for runs of less than two gigabytes).\<close>

theorem stream_delivers_in_order:
  assumes "net_reachable n" "length (wsent n) < 2 ^ 31"
  shows "prefix (wgot n @ rcvBuf (nB n)) (wsent n)"
  using net_reachable_inv [OF assms(1)] assms(2) rcv_inv_prefix by (auto simp: net_inv_def)

theorem stream_delivers_in_order_witness: "prefix (wgot demo_net @ rcvBuf (nB demo_net)) (wsent demo_net)"
  using stream_delivers_in_order [OF demo_reachable] by (simp add: demo_net_def)

text \<open>C28. A reader that is told the stream has ended has read every byte the writer wrote, and the
  writer has closed: a FIN never overtakes a gap.\<close>

theorem stream_eof_complete:
  assumes "net_reachable n" "length (wsent n) < 2 ^ 31" "Read k (nB n) = (RErr ErrEOF, fs, s')"
  shows "st_closed (nA n) \<and> wgot n = wsent n"
  using net_reachable_inv [OF assms(1)] assms(2) rcv_inv_EOF Read_EOF [OF assms(3)] by (auto simp: net_inv_def)

theorem stream_eof_complete_witness: "st_closed (nA demo_net) \<and> wgot demo_net = wsent demo_net"
proof -
  obtain fs s' where "Read 1 (nB demo_net) = (RErr ErrEOF, fs, s')"
    using demo_eof by (cases "Read 1 (snd (snd demo_r))") (auto simp: demo_net_def)
  then show ?thesis using stream_eof_complete [OF demo_reachable] by (simp add: demo_net_def)
qed



text \<open>C38. In every reachable state the congestion window lies between four segments and
  \<^verbatim>\<open>RecvBufMax\<close>, while anything is queued the bytes in flight are at most \<^verbatim>\<open>RecvBufMax\<close>, and the
  retransmission queue holds at most one segment more.\<close>

theorem stream_window_bounds:
  assumes "net_reachable n"
  shows "4 * MaxSegment \<le> unat (cwnd (nA n)) \<and> unat (cwnd (nA n)) \<le> RecvBufMax \<and>
    (sndQueue (nA n) = [] \<or> unat (sndNext (nA n) - sndUnack (nA n)) \<le> RecvBufMax) \<and>
    q_bytes (sndQueue (nA n)) \<le> RecvBufMax + MaxSegment"
  using net_reachable_inv [OF assms] snd_win_bytes
  by (auto simp: net_inv_def snd_win_def inFlight_def MaxSegment_def)

theorem stream_window_bounds_witness: "unat (cwnd (nA demo_net)) \<le> RecvBufMax"
  using stream_window_bounds [OF demo_reachable] by blast

text \<open>The retransmission timeout stays between 200 milliseconds and 10 seconds in every
  reachable state, whatever the clock reads.\<close>

theorem stream_rto_bounds:
  assumes "net_reachable n"
  shows "200 * Millisecond \<le> rto (nA n) \<and> rto (nA n) \<le> 10 * Second"
  using net_reachable_rto [OF assms] by (simp add: rto_ok_def Millisecond_def Second_def)

theorem stream_rto_bounds_witness: "200 * Millisecond \<le> rto (nA demo_net) \<and> rto (nA demo_net) \<le> 10 * Second"
  using stream_rto_bounds [OF demo_reachable] .

text \<open>A tick that leaves the stream alive sends again every queued segment whose timer has
  run out, with its sequence number and its bytes, and no such segment had used up its retries.\<close>

theorem stream_tick_retransmits:
  assumes "Tick now s = (True, fs, s')" "g \<in> set (sndQueue s)" "rto s \<le> Time_Sub now (sg_sentAt g)"
  shows "encodeFrame FrameData (sg_seq g) (rcvNext s) (advertiseWindow s) (sg_data g) \<in> set fs \<and> sg_retries g < maxRetries"
proof -
  obtain q re lost tl where t: "tick_segs now (rto s) (data_frame s) (sndQueue s) = (q, re, lost, None)" "fs = re @ tl"
    using Tick_alive [OF assms(1)] by blast
  then show ?thesis using tick_segs_resend [OF t(1) assms(2,3)] by (simp add: data_frame_def)
qed

theorem stream_tick_retransmits_witness:
  "encodeFrame FrameData 0 0 (advertiseWindow (snd (snd demo_w))) [7, 8] \<in> set (fst (snd (Tick 1000000000000 (snd (snd demo_w)))))"
proof -
  let ?s = "snd (snd demo_w)"
  have "Tick 1000000000000 ?s = (True, fst (snd (Tick 1000000000000 ?s)), snd (snd (Tick 1000000000000 ?s)))"
    using demo_tick(1) by (simp add: prod_eq_iff)
  from stream_tick_retransmits [OF this, of "hd (sndQueue ?s)"] show ?thesis using demo_tick by simp
qed

text \<open>The FIN is sent once: after the writer has closed no step of either end, a tick included,
  ever puts another FIN on the wire, so a lost FIN is never repaired.\<close>

theorem stream_fin_not_repeated:
  assumes "net_reachable n" "st_closed (nA n)" "net_step n n'" "f \<in> wire n'" "is_fin f"
  shows "f \<in> wire n"
  using no_new_fin [OF assms(3) net_reachable_inv [OF assms(1)] assms(2)] assms(4,5) by blast

theorem stream_fin_not_repeated_witness: "hd (fst demo_c) \<in> wire demo_net"
proof -
  obtain alive fs a where "Tick 0 (nA demo_net) = (alive, fs, a)" by (metis prod.exhaust)
  note st = a_tick [OF this]
  have w: "wire demo_net = set (fst (snd demo_w)) \<union> set (fst demo_c)" "nA demo_net = snd demo_c"
    by (simp_all add: demo_net_def)
  have "hd (fst demo_c) \<in> wire (demo_net\<lparr>nA := a, wire := wire demo_net \<union> set fs\<rparr>)"
    using demo_facts(4) w(1) by simp
  moreover have "st_closed (nA demo_net)" using demo_tick(6) w(2) by simp
  ultimately show ?thesis
    using stream_fin_not_repeated [OF demo_reachable _ st _ demo_tick(5)] by blast
qed

text \<open>\<^verbatim>\<open>RecvBufMax\<close> does not bound the data held: a million frames, each behind a gap, are all
  parked, and the parked bytes are 1200 for every one of them.\<close>

theorem stream_parked_unbounded:
  "\<exists>bs s. feed bs New = Some s \<and> length bs = 1000000 \<and> parked_bytes s = 1000000 * MaxSegment \<and> parked_bytes s > 4000 * RecvBufMax"
proof -
  obtain s where s: "feed (map gap_frame [0..<1000000]) New = Some s"
    "rcvOOO s = map (\<lambda>i. (word_of_nat (2000 * Suc i), replicate MaxSegment 0)) [0..<1000000]"
    using feed_gaps [of 1000000] by auto
  have "parked_bytes s = sum_list (map (\<lambda>i. MaxSegment) [0..<1000000])"
    unfolding parked_bytes_def s(2) by (simp add: comp_def del: upt_conv_Cons sum_list_triv)
  then have "parked_bytes s = 1000000 * MaxSegment" by (simp add: sum_list_triv)
  then show ?thesis using s(1) by (intro exI [of _ "map gap_frame [0..<1000000]"] exI [of _ s]) (simp add: MaxSegment_def RecvBufMax_def)
qed

end
