(* ===== verification/Go_Base64.thy ===== *)
theory Go_Base64
  imports Go_Text
begin

text \<open>
  Go's \<^verbatim>\<open>base64.StdEncoding\<close>, which carries keys, signatures and nonces in messages: the standard
  alphabet with padding. The decoder skips carriage returns and line feeds, wants complete
  groups of four, allows padding only at the end, and (as Go's non-strict decoder does) ignores the
  unused low bits of the last group.
\<close>

definition to_bytes :: "string \<Rightarrow> bytes" where
  "to_bytes s = map (\<lambda>c. word_of_nat (of_char c)) s"

definition b64_char :: "nat \<Rightarrow> char" where
  "b64_char n =
     (if n < 26 then char_of (65 + n)
      else if n < 52 then char_of (71 + n)
      else if n < 62 then char_of (n - 4)
      else if n = 62 then CHR ''+'' else CHR ''/'')"

definition b64_val :: "char \<Rightarrow> nat option" where
  "b64_val c =
     (let n = of_char c :: nat
      in if 65 \<le> n \<and> n \<le> 90 then Some (n - 65)
         else if 97 \<le> n \<and> n \<le> 122 then Some (n - 71)
         else if 48 \<le> n \<and> n \<le> 57 then Some (n + 4)
         else if n = 43 then Some 62
         else if n = 47 then Some 63
         else None)"

fun b64_encode :: "bytes \<Rightarrow> string" where
  "b64_encode [] = ''''"
| "b64_encode [x] =
     [b64_char (unat x div 4), b64_char (unat x mod 4 * 16), CHR ''='', CHR ''='']"
| "b64_encode [x, y] =
     (let n = (unat x * 256 + unat y) * 4
      in [b64_char (n div 4096), b64_char (n div 64 mod 64), b64_char (n mod 64), CHR ''=''])"
| "b64_encode (x # y # z # bs) =
     (let n = unat x * 65536 + unat y * 256 + unat z
      in [b64_char (n div 262144), b64_char (n div 4096 mod 64), b64_char (n div 64 mod 64), b64_char (n mod 64)]
         @ b64_encode bs)"

fun b64_groups :: "string \<Rightarrow> bytes option" where
  "b64_groups [] = Some []"
| "b64_groups (a # b # c # d # rest) =
     (case (b64_val a, b64_val b) of
        (Some va, Some vb) \<Rightarrow>
          if d = CHR ''='' then
            if rest \<noteq> [] then None
            else if c = CHR ''='' then Some [word_of_nat ((va * 64 + vb) div 16)]
            else (case b64_val c of
                    None \<Rightarrow> None
                  | Some vc \<Rightarrow>
                      let v = (va * 4096 + vb * 64 + vc) div 4
                      in Some [word_of_nat (v div 256), word_of_nat v])
          else (case (b64_val c, b64_val d) of
                  (Some vc, Some vd) \<Rightarrow>
                    (let v = va * 262144 + vb * 4096 + vc * 64 + vd
                     in case b64_groups rest of
                          None \<Rightarrow> None
                        | Some bs \<Rightarrow> Some (word_of_nat (v div 65536) # word_of_nat (v div 256) # word_of_nat v # bs))
                | _ \<Rightarrow> None)
      | _ \<Rightarrow> None)"
| "b64_groups _ = None"

definition EncodeToString :: "bytes \<Rightarrow> string" where
  "EncodeToString b = b64_encode b"

definition DecodeString :: "string \<Rightarrow> bytes option" where
  "DecodeString s = b64_groups (filter (\<lambda>c. c \<noteq> CHR 0x0D \<and> c \<noteq> CHR 0x0A) s)"

section \<open>Facts\<close>

lemma to_bytes_inj: "to_bytes s = to_bytes t \<longleftrightarrow> s = t"
proof -
  have "inj (\<lambda>c :: char. word_of_nat (of_char c) :: u8)"
  proof (rule injI)
    fix c d :: char assume "(word_of_nat (of_char c) :: u8) = word_of_nat (of_char d)"
    then have "unat (word_of_nat (of_char c) :: u8) = unat (word_of_nat (of_char d) :: u8)" by simp
    then have "(of_char c :: nat) = of_char d" using of_char_less_256 by (simp add: unat_of_nat)
    then show "c = d" by simp
  qed
  then show ?thesis unfolding to_bytes_def by (simp add: inj_map_eq_map)
qed

lemma b64_val_char [simp]: "n < 64 \<Longrightarrow> b64_val (b64_char n) = Some n"
  by (auto simp: b64_val_def b64_char_def Let_def)

lemma b64_char_plain: "n < 64 \<Longrightarrow> b64_char n \<noteq> CHR ''='' \<and> b64_char n \<noteq> CHR 0x0D \<and> b64_char n \<noteq> CHR 0x0A \<and> b64_char n \<noteq> CHR ''|''"
proof -
  assume "n < 64"
  then have v: "b64_val (b64_char n) = Some n" by simp
  have "b64_val (CHR ''='') = None" "b64_val (CHR 0x0D) = None" "b64_val (CHR 0x0A) = None" "b64_val (CHR ''|'') = None"
    by (simp_all add: b64_val_def)
  then show ?thesis using v by (metis option.distinct(1))
qed

lemma unat_u8: "unat (x :: u8) < 256"
  using unat_bound [of x] by simp

lemma digits_64_two: "(n :: nat) div 4096 * 4096 + n div 64 mod 64 * 64 + n mod 64 = n"
proof -
  have "n div 4096 = n div 64 div 64" by (simp flip: div_mult2_eq)
  then show ?thesis
    using div_mult_mod_eq [of n 64] div_mult_mod_eq [of "n div 64" 64] by linarith
qed

lemma digits_64:
  "(n :: nat) div 262144 * 262144 + n div 4096 mod 64 * 4096 + n div 64 mod 64 * 64 + n mod 64 = n"
proof -
  have "n div 262144 = n div 4096 div 64" by (simp flip: div_mult2_eq)
  then show ?thesis using digits_64_two [of n] div_mult_mod_eq [of "n div 4096" 64] by linarith
qed

lemma byte_of: "(word_of_nat (unat (x :: u8) + 256 * k) :: u8) = x"
proof -
  have z: "(256 :: u8) = 0" by (simp add: word_uint_eq_iff)
  show ?thesis by (simp only: of_nat_add of_nat_mult of_nat_numeral z) simp
qed

lemma b64_triple:
  fixes x y z :: u8
  defines "n \<equiv> unat x * 65536 + unat y * 256 + unat z"
  shows "b64_groups (b64_char (n div 262144) # b64_char (n div 4096 mod 64) # b64_char (n div 64 mod 64) # b64_char (n mod 64) # rest) =
    map_option (\<lambda>bs. x # y # z # bs) (b64_groups rest)"
proof -
  have n: "n < 16777216" unfolding n_def using unat_u8 [of x] unat_u8 [of y] unat_u8 [of z] by linarith
  then have top: "n div 262144 < 64" by linarith
  have d: "n div 65536 = unat x" "n div 256 = unat y + 256 * unat x" "n = unat z + 256 * (unat x * 256 + unat y)"
    unfolding n_def using unat_u8 [of y] unat_u8 [of z] by auto
  have "n mod 64 < 64" by simp
  then have "b64_char (n mod 64) \<noteq> CHR ''=''" using b64_char_plain by blast
  moreover have "(word_of_nat (n div 65536) :: u8) = x" "(word_of_nat (n div 256) :: u8) = y" "(word_of_nat n :: u8) = z"
    using byte_of [of y "unat x"] byte_of [of z "unat x * 256 + unat y"] d(3) unfolding d(1,2) by (simp, metis, metis)
  ultimately show ?thesis
    using top digits_64 [of n] by (simp add: Let_def split: option.splits)
qed

lemma b64_pair:
  fixes x y :: u8
  shows "b64_groups [b64_char ((unat x * 256 + unat y) * 4 div 4096), b64_char ((unat x * 256 + unat y) * 4 div 64 mod 64),
    b64_char ((unat x * 256 + unat y) * 4 mod 64), CHR ''=''] = Some [x, y]"
proof -
  define n where "n = (unat x * 256 + unat y) * 4"
  have n: "n < 262144" "n div 4 = unat y + 256 * unat x" "n div 4 div 256 = unat x"
    unfolding n_def using unat_u8 [of x] unat_u8 [of y] by auto
  then have m: "n div 4096 < 64" "n mod 64 < 64" by auto
  then have "b64_char (n mod 64) \<noteq> CHR ''=''" using b64_char_plain by blast
  moreover have "(word_of_nat (n div 4 div 256) :: u8) = x" "(word_of_nat (n div 4) :: u8) = y"
    using byte_of [of y "unat x"] unfolding n(3) unfolding n(2) by simp_all
  ultimately show ?thesis unfolding n_def [symmetric] using m digits_64_two [of n] by (simp add: Let_def)
qed

lemma b64_groups_encode: "b64_groups (b64_encode b) = Some b"
proof (induction b rule: b64_encode.induct)
  case (2 x)
  have "unat x div 4 < 64" "unat x mod 4 * 16 < 64" using unat_u8 [of x] by linarith+
  moreover have "unat x div 4 * 64 + unat x mod 4 * 16 = unat x * 16" using div_mult_mod_eq [of "unat x" 4] by linarith
  ultimately show ?case by simp
next
  case (3 x y)
  show ?case by (simp only: b64_encode.simps Let_def b64_pair)
next
  case (4 x y z bs)
  then show ?case using b64_triple [of x y z "b64_encode bs"] by (simp add: Let_def)
qed simp

lemma b64_encode_plain: "c \<in> set (b64_encode b) \<Longrightarrow> c \<noteq> CHR 0x0D \<and> c \<noteq> CHR 0x0A \<and> c \<noteq> CHR ''|''"
proof (induction b rule: b64_encode.induct)
  case (2 x)
  have "unat x div 4 < 64" "unat x mod 4 * 16 < 64" using unat_u8 [of x] by linarith+
  then show ?case using "2" b64_char_plain [of "unat x div 4"] b64_char_plain [of "unat x mod 4 * 16"] by auto
next
  case (3 x y)
  define n where "n = (unat x * 256 + unat y) * 4"
  have "n < 262144" using unat_u8 [of x] unat_u8 [of y] unfolding n_def by auto
  then have "n div 4096 < 64" by linarith
  moreover have "b64_encode [x, y] = [b64_char (n div 4096), b64_char (n div 64 mod 64), b64_char (n mod 64), CHR ''='']"
    by (simp only: b64_encode.simps Let_def n_def)
  ultimately show ?case using "3" b64_char_plain [of "n div 4096"] b64_char_plain [of "n div 64 mod 64"] b64_char_plain [of "n mod 64"]
    by auto
next
  case (4 x y z bs)
  define n where "n = unat x * 65536 + unat y * 256 + unat z"
  have "n < 16777216" using unat_u8 [of x] unat_u8 [of y] unat_u8 [of z] unfolding n_def by linarith
  then have "n div 262144 < 64" by linarith
  then show ?case using "4" b64_char_plain [of "n div 262144"] b64_char_plain [of "n div 4096 mod 64"]
      b64_char_plain [of "n div 64 mod 64"] b64_char_plain [of "n mod 64"]
    by (auto simp: n_def [symmetric] Let_def)
qed simp

lemma Decode_EncodeToString [simp]: "DecodeString (EncodeToString b) = Some b"
proof -
  have "filter (\<lambda>c. c \<noteq> CHR 0x0D \<and> c \<noteq> CHR 0x0A) (b64_encode b) = b64_encode b"
    using b64_encode_plain by (intro filter_True) blast
  then show ?thesis by (simp add: DecodeString_def EncodeToString_def b64_groups_encode)
qed

lemma EncodeToString_inj: "EncodeToString a = EncodeToString b \<longleftrightarrow> a = b"
  by (metis Decode_EncodeToString option.inject)

lemma EncodeToString_no_bar [simp]: "CHR ''|'' \<notin> set (EncodeToString b)"
  using b64_encode_plain by (auto simp: EncodeToString_def)

end
