(* ===== verification/Proto.thy ===== *)
theory Proto
  imports Go_Base64
begin

text \<open>
  \<^verbatim>\<open>internal/proto/proto.go\<close>: the message envelope, the canonical strings that are signed, and
  signature checking. The cryptographic primitives are those of Go's \<^verbatim>\<open>crypto/ed25519\<close> and of
  \<^verbatim>\<open>golang.org/x/crypto\<close>, which are not part of the repository: the record \<open>prims\<close> is a parameter
  of every definition that uses them. \<^verbatim>\<open>Encode\<close> and \<^verbatim>\<open>Decode\<close> are in \<open>Proto_Json\<close>.
\<close>

section \<open>Primitives\<close>

record prims =
  ed_sign :: "bytes \<Rightarrow> bytes \<Rightarrow> bytes"
  ed_verify :: "bytes \<Rightarrow> bytes \<Rightarrow> bytes \<Rightarrow> bool"
  x25519 :: "bytes \<Rightarrow> bytes \<Rightarrow> bytes option"
  x_base :: bytes
  hkdf32 :: "bytes \<Rightarrow> bytes \<Rightarrow> bytes \<Rightarrow> bytes"
  aead_seal :: "bytes \<Rightarrow> bytes \<Rightarrow> bytes \<Rightarrow> bytes \<Rightarrow> bytes"
  aead_open :: "bytes \<Rightarrow> bytes \<Rightarrow> bytes \<Rightarrow> bytes \<Rightarrow> bytes option"

definition PublicKeySize :: nat where "PublicKeySize = 32"

section \<open>Messages\<close>

definition KindRegister :: string where "KindRegister = ''REGISTER''"
definition KindRegisterAck :: string where "KindRegisterAck = ''REGISTER_ACK''"
definition KindResolve :: string where "KindResolve = ''RESOLVE''"
definition KindResolveResp :: string where "KindResolveResp = ''RESOLVE_RESP''"
definition KindIntro :: string where "KindIntro = ''INTRO''"
definition KindPunch :: string where "KindPunch = ''PUNCH''"
definition KindPing :: string where "KindPing = ''PING''"
definition KindPong :: string where "KindPong = ''PONG''"
definition KindError :: string where "KindError = ''ERROR''"
definition KindHSInit :: string where "KindHSInit = ''HS_INIT''"
definition KindHSResp :: string where "KindHSResp = ''HS_RESP''"
definition KindRebind :: string where "KindRebind = ''REBIND''"
definition KindRebindAck :: string where "KindRebindAck = ''REBIND_ACK''"
definition KindReferral :: string where "KindReferral = ''REFERRAL''"
definition KindNamespace :: string where "KindNamespace = ''NAMESPACE''"
definition KindNamespaceResp :: string where "KindNamespaceResp = ''NAMESPACE_RESP''"

lemmas kind_defs = KindRegister_def KindRegisterAck_def KindResolve_def KindResolveResp_def KindIntro_def
  KindPunch_def KindPing_def KindPong_def KindError_def KindHSInit_def KindHSResp_def KindRebind_def
  KindRebindAck_def KindReferral_def KindNamespace_def KindNamespaceResp_def

record message =
  m_Kind :: string
  m_Name :: string
  m_Target :: string
  m_PubKey :: string
  m_Endpoint :: string
  m_TS :: int
  m_Nonce :: string
  m_Sig :: string
  m_Info :: string
  m_EphPub :: string
  m_NonceB :: string
  m_Zone :: string
  m_NsPath :: string
  m_PathSig :: string

definition Message0 :: message where
  "Message0 = \<lparr>m_Kind = '''', m_Name = '''', m_Target = '''', m_PubKey = '''', m_Endpoint = '''', m_TS = 0,
     m_Nonce = '''', m_Sig = '''', m_Info = '''', m_EphPub = '''', m_NonceB = '''', m_Zone = '''',
     m_NsPath = '''', m_PathSig = ''''\<rparr>"

section \<open>Canonical strings\<close>

definition SigningBytes :: "message \<Rightarrow> bytes" where
  "SigningBytes m = to_bytes (Join ''|'' [''dnx1'', m_Kind m, m_Name m, m_Target m, show_int (m_TS m), m_Nonce m])"

definition RebindBytes :: "string \<Rightarrow> string \<Rightarrow> int \<Rightarrow> string \<Rightarrow> bytes" where
  "RebindBytes name newPubB64 ts nonce = to_bytes (Join ''|'' [''dnx-rebind1'', name, newPubB64, show_int ts, nonce])"

definition ResolveRespBytes :: "string \<Rightarrow> string \<Rightarrow> string \<Rightarrow> int \<Rightarrow> string \<Rightarrow> bytes" where
  "ResolveRespBytes target pubB64 endpoint ts nonce =
     to_bytes (Join ''|'' [''dnx-resolveresp1'', target, pubB64, endpoint, show_int ts, nonce])"

definition NsPathBytes :: "string \<Rightarrow> string \<Rightarrow> int \<Rightarrow> string \<Rightarrow> bytes" where
  "NsPathBytes target nsPath ts nonce = to_bytes (Join ''|'' [''dnx-nspath1'', target, nsPath, show_int ts, nonce])"

definition NamespaceBytes :: "string \<Rightarrow> string \<Rightarrow> int \<Rightarrow> string \<Rightarrow> bytes" where
  "NamespaceBytes zone tableJSON ts nonce =
     to_bytes (Join ''|'' [''dnx-namespace1'', zone, tableJSON, show_int ts, nonce])"

definition ReferralBytes :: "string \<Rightarrow> string \<Rightarrow> string \<Rightarrow> string \<Rightarrow> int \<Rightarrow> string \<Rightarrow> bytes" where
  "ReferralBytes target zoneName endpoint childKeyB64 ts nonce =
     to_bytes (Join ''|'' [''dnx-referral1'', target, zoneName, endpoint, childKeyB64, show_int ts, nonce])"

section \<open>Signing and verifying\<close>

datatype sig_error = BadPublicKey | BadSignatureEncoding | SignatureFailed

definition Sign :: "prims \<Rightarrow> bytes \<Rightarrow> message \<Rightarrow> message" where
  "Sign P priv m = m\<lparr>m_Sig := EncodeToString (ed_sign P priv (SigningBytes m))\<rparr>"

definition VerifyDetached :: "prims \<Rightarrow> string \<Rightarrow> bytes \<Rightarrow> string \<Rightarrow> sig_error + unit" where
  "VerifyDetached P pubB64 msg sigB64 =
     (case DecodeString pubB64 of
        None \<Rightarrow> Inl BadPublicKey
      | Some pub \<Rightarrow>
          if length pub \<noteq> PublicKeySize then Inl BadPublicKey
          else (case DecodeString sigB64 of
                  None \<Rightarrow> Inl BadSignatureEncoding
                | Some sig \<Rightarrow> if \<not> ed_verify P pub msg sig then Inl SignatureFailed else Inr ()))"

definition Verify :: "prims \<Rightarrow> message \<Rightarrow> string \<Rightarrow> sig_error + unit" where
  "Verify P m pubB64 =
     (case DecodeString pubB64 of
        None \<Rightarrow> Inl BadPublicKey
      | Some pub \<Rightarrow>
          if length pub \<noteq> PublicKeySize then Inl BadPublicKey
          else (case DecodeString (m_Sig m) of
                  None \<Rightarrow> Inl BadSignatureEncoding
                | Some sig \<Rightarrow> if \<not> ed_verify P pub (SigningBytes m) sig then Inl SignatureFailed else Inr ()))"

definition ValidPubKey :: "string \<Rightarrow> bool" where
  "ValidPubKey s = (case DecodeString s of None \<Rightarrow> False | Some b \<Rightarrow> length b = PublicKeySize)"

definition SignDetached :: "prims \<Rightarrow> bytes \<Rightarrow> bytes \<Rightarrow> string" where
  "SignDetached P priv msg = EncodeToString (ed_sign P priv msg)"

text \<open>Abbreviations for the two outcomes a caller distinguishes.\<close>

abbreviation verified :: "sig_error + unit \<Rightarrow> bool" where
  "verified r \<equiv> r = Inr ()"

text \<open>What \<^verbatim>\<open>crypto/ed25519\<close> documents: a signature made with a private key verifies under its public key.\<close>

definition ed_pair :: "prims \<Rightarrow> bytes \<Rightarrow> bytes \<Rightarrow> bool" where
  "ed_pair P priv pub \<longleftrightarrow> length pub = PublicKeySize \<and> (\<forall>msg. ed_verify P pub msg (ed_sign P priv msg))"

lemma Verify_detached: "Verify P m pub = VerifyDetached P pub (SigningBytes m) (m_Sig m)"
  by (simp add: Verify_def VerifyDetached_def)

lemma VerifyDetached_iff:
  "verified (VerifyDetached P pubB64 msg sigB64) \<longleftrightarrow>
     (\<exists>pub sig. DecodeString pubB64 = Some pub \<and> length pub = PublicKeySize \<and>
        DecodeString sigB64 = Some sig \<and> ed_verify P pub msg sig)"
  by (auto simp: VerifyDetached_def split: option.splits)

lemma Verify_SignDetached: "ed_pair P priv pub \<Longrightarrow> verified (VerifyDetached P (EncodeToString pub) msg (SignDetached P priv msg))"
  by (simp add: VerifyDetached_iff SignDetached_def ed_pair_def)

lemma SigningBytes_Sign [simp]: "SigningBytes (m\<lparr>m_Sig := s\<rparr>) = SigningBytes m"
  by (simp add: SigningBytes_def)

lemma Verify_Sign: "ed_pair P priv pub \<Longrightarrow> verified (Verify P (Sign P priv m) (EncodeToString pub))"
  using Verify_SignDetached by (simp add: Verify_detached Sign_def SignDetached_def)

text \<open>A concrete instance of the parameter, which shows that what is assumed of it can hold.\<close>

definition toy :: prims where
  "toy = \<lparr>ed_sign = (\<lambda>priv msg. msg @ priv), ed_verify = (\<lambda>pub msg sig. sig = msg @ pub),
     x25519 = (\<lambda>a p. Some [sum_list a + sum_list p]), x_base = [],
     hkdf32 = (\<lambda>shared salt info. take 32 (info @ replicate 32 0)),
     aead_seal = (\<lambda>k n pt ad. pt @ replicate 16 0),
     aead_open = (\<lambda>k n ct ad. if length ct < 16 then None else Some (take (length ct - 16) ct))\<rparr>"

lemma toy_pair: "length k = PublicKeySize \<Longrightarrow> ed_pair toy k k"
  by (simp add: ed_pair_def toy_def)

section \<open>Unambiguous signing\<close>

definition no_bar :: "string \<Rightarrow> bool" where
  "no_bar s \<longleftrightarrow> CHR ''|'' \<notin> set s"

lemma no_bar_lits [simp]:
  "no_bar ''dnx1''" "no_bar ''dnx-rebind1''" "no_bar ''dnx-resolveresp1''" "no_bar ''dnx-nspath1''"
  "no_bar ''dnx-namespace1''" "no_bar ''dnx-referral1''" "no_bar ''dnx2''" "no_bar (show_int i)" "no_bar (EncodeToString b)"
  by (simp_all add: no_bar_def)

lemma fields_inj:
  assumes "to_bytes (Join ''|'' ws) = to_bytes (Join ''|'' vs)" "ws \<noteq> []" "vs \<noteq> []"
    "\<forall>w \<in> set ws. no_bar w" "\<forall>v \<in> set vs. no_bar v"
  shows "ws = vs"
  using assms Join_inj [of "CHR ''|''" ws vs] by (simp add: to_bytes_inj no_bar_def)

lemma tag_separates:
  assumes "to_bytes (Join ''|'' (a # w # ws)) = to_bytes (Join ''|'' (b # v # vs))" "no_bar a" "no_bar b"
  shows "a = b"
proof -
  have "a @ CHR ''|'' # Join ''|'' (w # ws) = b @ CHR ''|'' # Join ''|'' (v # vs)"
    using assms(1) by (simp add: to_bytes_inj)
  then show ?thesis using assms(2,3) Split_append [of "CHR ''|''"] unfolding no_bar_def by (metis list.inject)
qed

lemmas signed_defs = SigningBytes_def RebindBytes_def ResolveRespBytes_def NsPathBytes_def NamespaceBytes_def ReferralBytes_def

section \<open>Properties\<close>

text \<open>C40. The signed strings of the protocol never coincide across purposes: a signature on a message,
  a transfer, a resolution answer, a path, a table or a referral is over bytes that no other
  purpose can produce, whatever the fields contain.\<close>

theorem signed_strings_separate:
  "SigningBytes m \<noteq> RebindBytes n k t o1 \<and> SigningBytes m \<noteq> ResolveRespBytes n k e t o1 \<and>
   SigningBytes m \<noteq> NsPathBytes n p t o1 \<and> SigningBytes m \<noteq> NamespaceBytes z j t o1 \<and>
   SigningBytes m \<noteq> ReferralBytes n z e k t o1 \<and>
   RebindBytes n k t o1 \<noteq> ResolveRespBytes n2 k2 e t2 o2 \<and> RebindBytes n k t o1 \<noteq> NsPathBytes n2 p t2 o2 \<and>
   RebindBytes n k t o1 \<noteq> NamespaceBytes z j t2 o2 \<and> RebindBytes n k t o1 \<noteq> ReferralBytes n2 z e k2 t2 o2 \<and>
   ResolveRespBytes n k e t o1 \<noteq> NsPathBytes n2 p t2 o2 \<and> ResolveRespBytes n k e t o1 \<noteq> NamespaceBytes z j t2 o2 \<and>
   ResolveRespBytes n k e t o1 \<noteq> ReferralBytes n2 z e2 k2 t2 o2 \<and>
   NsPathBytes n p t o1 \<noteq> NamespaceBytes z j t2 o2 \<and> NsPathBytes n p t o1 \<noteq> ReferralBytes n2 z e2 k2 t2 o2 \<and>
   NamespaceBytes z j t o1 \<noteq> ReferralBytes n2 z2 e2 k2 t2 o2"
  unfolding signed_defs by (intro conjI notI) (drule tag_separates; simp)+

text \<open>When the fields have no bar character, a signed resolution answer fixes the name, the key, the
  endpoint, the time and the nonce, a signed transfer fixes the name and the new key, and a signed
  referral fixes the zone, the address and the key of the child: none can be substituted.\<close>

theorem signed_strings_injective:
  assumes "list_all no_bar [n, k, e, o1, z]" "list_all no_bar [n', k', e', o1', z']"
  shows "(ResolveRespBytes n k e t o1 = ResolveRespBytes n' k' e' t' o1' \<longrightarrow> n = n' \<and> k = k' \<and> e = e' \<and> t = t' \<and> o1 = o1') \<and>
    (RebindBytes n k t o1 = RebindBytes n' k' t' o1' \<longrightarrow> n = n' \<and> k = k' \<and> t = t' \<and> o1 = o1') \<and>
    (ReferralBytes n z e k t o1 = ReferralBytes n' z' e' k' t' o1' \<longrightarrow> n = n' \<and> z = z' \<and> e = e' \<and> k = k' \<and> t = t' \<and> o1 = o1')"
  unfolding signed_defs by (insert assms, intro conjI impI; drule fields_inj; auto simp: show_int_inj)

theorem signed_strings_injective_witness:
  "ResolveRespBytes ''a.b'' ''K'' ''1.2.3.4:5'' 7 ''n'' \<noteq> ResolveRespBytes ''a.b'' ''L'' ''1.2.3.4:5'' 7 ''n''"
  using signed_strings_injective [of "''a.b''" "''K''" "''1.2.3.4:5''" "''n''" "''''" "''a.b''" "''L''" "''1.2.3.4:5''" "''n''" "''''" 7 7]
  by (auto simp: no_bar_def)

end
