(* ===== verification/Go_Utf8.thy ===== *)
theory Go_Utf8
  imports Go_Text
begin

text \<open>
  The parts of Go's \<^verbatim>\<open>unicode/utf8\<close> and \<^verbatim>\<open>unicode/utf16\<close> packages that the JSON codec uses on strings, which
  are byte sequences: the length of the rune at the front (no overlong forms, no surrogates, nothing
  above U+10FFFF), the encoding of a rune, and pairs of surrogates.
\<close>

section \<open>Definitions\<close>

definition byte :: "char \<Rightarrow> nat" where
  "byte c = of_char c"

definition cont :: "char \<Rightarrow> bool" where
  "cont c \<longleftrightarrow> 0x80 \<le> byte c \<and> byte c \<le> 0xBF"

text \<open>\<^verbatim>\<open>utf8.DecodeRuneInString\<close>: the length of the rune in front, 0 where it reports an error.\<close>

fun rune_len :: "string \<Rightarrow> nat" where
  "rune_len [] = 0"
| "rune_len (c # s) =
     (let n = byte c
      in if n < 0x80 then 1
         else if 0xC2 \<le> n \<and> n \<le> 0xDF then
           (case s of c1 # _ \<Rightarrow> if cont c1 then 2 else 0 | [] \<Rightarrow> 0)
         else if 0xE0 \<le> n \<and> n \<le> 0xEF then
           (case s of
              c1 # c2 # _ \<Rightarrow>
                if cont c1 \<and> cont c2 \<and> (n = 0xE0 \<longrightarrow> 0xA0 \<le> byte c1) \<and> (n = 0xED \<longrightarrow> byte c1 \<le> 0x9F) then 3 else 0
            | _ \<Rightarrow> 0)
         else if 0xF0 \<le> n \<and> n \<le> 0xF4 then
           (case s of
              c1 # c2 # c3 # _ \<Rightarrow>
                if cont c1 \<and> cont c2 \<and> cont c3 \<and> (n = 0xF0 \<longrightarrow> 0x90 \<le> byte c1) \<and> (n = 0xF4 \<longrightarrow> byte c1 \<le> 0x8F) then 4 else 0
            | _ \<Rightarrow> 0)
         else 0)"

text \<open>\<^verbatim>\<open>utf8.EncodeRune\<close> for a rune that is not a surrogate.\<close>

definition rune_enc :: "nat \<Rightarrow> string" where
  "rune_enc r =
     (if r < 0x80 then [char_of r]
      else if r < 0x800 then [char_of (0xC0 + r div 64), char_of (0x80 + r mod 64)]
      else if r < 0x10000 then [char_of (0xE0 + r div 4096), char_of (0x80 + r div 64 mod 64), char_of (0x80 + r mod 64)]
      else [char_of (0xF0 + r div 262144), char_of (0x80 + r div 4096 mod 64), char_of (0x80 + r div 64 mod 64), char_of (0x80 + r mod 64)])"

definition RuneError :: nat where "RuneError = 0xFFFD"

definition is_surrogate :: "nat \<Rightarrow> bool" where
  "is_surrogate r \<longleftrightarrow> 0xD800 \<le> r \<and> r < 0xE000"

text \<open>\<^verbatim>\<open>utf16.DecodeRune\<close>: a high and a low surrogate, in this order, or nothing.\<close>

definition utf16_pair :: "nat \<Rightarrow> nat \<Rightarrow> nat option" where
  "utf16_pair hi lo =
     (if 0xD800 \<le> hi \<and> hi < 0xDC00 \<and> 0xDC00 \<le> lo \<and> lo < 0xE000
      then Some ((hi - 0xD800) * 1024 + (lo - 0xDC00) + 0x10000) else None)"

lemma rune_len_le: "rune_len s \<le> length s"
  by (cases s) (auto simp: Let_def split: list.splits)

text \<open>\<^verbatim>\<open>utf8.ValidString\<close>.\<close>

function valid_utf8 :: "string \<Rightarrow> bool" where
  "valid_utf8 [] = True"
| "valid_utf8 (c # s) = (rune_len (c # s) \<noteq> 0 \<and> valid_utf8 (drop (rune_len (c # s) - 1) s))"
  by pat_completeness auto
termination by (relation "measure length") simp_all

definition ascii :: "string \<Rightarrow> bool" where
  "ascii s \<longleftrightarrow> (\<forall>c \<in> set s. byte c < 0x80)"

section \<open>Facts\<close>

lemma ascii_simps [simp]: "ascii []" "ascii (c # s) \<longleftrightarrow> byte c < 0x80 \<and> ascii s" "ascii (s @ t) \<longleftrightarrow> ascii s \<and> ascii t"
  by (auto simp: ascii_def)

lemma ascii_valid: "ascii s \<Longrightarrow> valid_utf8 s"
  by (induction s) (simp_all add: Let_def)

lemma rune_len_ascii: "byte c < 0x80 \<Longrightarrow> rune_len (c # s) = 1"
  by simp

text \<open>Reading a rune does not depend on what follows it, and every byte of a longer rune is above 127.\<close>

lemma rune_len_cases:
  assumes "rune_len (c # s) \<noteq> 0"
  obtains "byte c < 0x80" "rune_len (c # s) = 1"
  | c1 r where "\<not> byte c < 0x80" "s = c1 # r" "rune_len (c # s) = 2" "cont c1"
  | c1 c2 r where "\<not> byte c < 0x80" "s = c1 # c2 # r" "rune_len (c # s) = 3" "cont c1" "cont c2"
  | c1 c2 c3 r where "\<not> byte c < 0x80" "s = c1 # c2 # c3 # r" "rune_len (c # s) = 4" "cont c1" "cont c2" "cont c3"
proof -
  consider "byte c < 0x80" | "\<not> byte c < 0x80" "0xC2 \<le> byte c \<and> byte c \<le> 0xDF"
    | "\<not> byte c < 0x80" "0xE0 \<le> byte c \<and> byte c \<le> 0xEF" | "\<not> byte c < 0x80" "0xF0 \<le> byte c \<and> byte c \<le> 0xF4"
    using assms by (auto simp: Let_def split: if_splits)
  then show thesis
  proof cases
    case 1
    then show ?thesis using that(1) by simp
  next
    case 2
    then have "rune_len (c # s) = (case s of c1 # _ \<Rightarrow> if cont c1 then 2 else 0 | [] \<Rightarrow> 0)" by simp
    then show ?thesis using that(2) [OF 2(1)] assms by (auto split: list.splits if_splits)
  next
    case 3
    then have "rune_len (c # s) = (case s of c1 # c2 # _ \<Rightarrow>
        if cont c1 \<and> cont c2 \<and> (byte c = 0xE0 \<longrightarrow> 0xA0 \<le> byte c1) \<and> (byte c = 0xED \<longrightarrow> byte c1 \<le> 0x9F) then 3 else 0 | _ \<Rightarrow> 0)" by (simp add: Let_def)
    then show ?thesis using that(3) [OF 3(1)] assms by (auto split: list.splits if_splits)
  next
    case 4
    then have "rune_len (c # s) = (case s of c1 # c2 # c3 # _ \<Rightarrow>
        if cont c1 \<and> cont c2 \<and> cont c3 \<and> (byte c = 0xF0 \<longrightarrow> 0x90 \<le> byte c1) \<and> (byte c = 0xF4 \<longrightarrow> byte c1 \<le> 0x8F) then 4 else 0 | _ \<Rightarrow> 0)" by (simp add: Let_def)
    then show ?thesis using that(4) [OF 4(1)] assms by (auto split: list.splits if_splits)
  qed
qed

lemma rune_len_append: "rune_len (c # s) \<noteq> 0 \<Longrightarrow> rune_len (c # s @ t) = rune_len (c # s)"
  by (erule rune_len_cases) (simp_all add: Let_def split: if_splits list.splits)

lemma rune_len_cont:
  assumes "rune_len (c # s) \<noteq> 0" "\<not> byte c < 0x80"
  shows "2 \<le> rune_len (c # s)" "rune_len (c # s) - 1 \<le> length s" "\<forall>d \<in> set (take (rune_len (c # s) - 1) s). cont d"
  using rune_len_cases [OF assms(1)] assms(2) by (cases; simp del: rune_len.simps)+

declare rune_len.simps(2) [simp del]

lemma valid_append: "valid_utf8 s \<Longrightarrow> valid_utf8 t \<Longrightarrow> valid_utf8 (s @ t)"
proof (induction s rule: valid_utf8.induct)
  case (2 c s)
  have k: "rune_len (c # s) \<noteq> 0" using "2.prems" by simp
  then have "rune_len (c # s) - 1 \<le> length s" using rune_len_le [of "c # s"] by simp
  then show ?case using 2 rune_len_append [OF k, of t] by simp
qed simp

declare valid_utf8.simps(2) [simp del]

lemma rune_len_take: "rune_len (c # s) \<noteq> 0 \<Longrightarrow> rune_len (c # take (rune_len (c # s) - 1) s) = rune_len (c # s)"
  by (erule rune_len_cases) (simp_all add: rune_len.simps(2) Let_def split: if_splits list.splits)

lemma valid_run: "rune_len (c # s) \<noteq> 0 \<Longrightarrow> valid_utf8 (c # take (rune_len (c # s) - 1) s)"
  using rune_len_take by (simp add: valid_utf8.simps(2))

lemma valid_ascii_Cons [simp]: "byte c < 0x80 \<Longrightarrow> valid_utf8 (c # s) = valid_utf8 s"
  by (simp add: valid_utf8.simps(2) rune_len_ascii)

lemma byte_Char [simp]: "byte (Char b0 b1 b2 b3 b4 b5 b6 b7) = horner_sum of_bool 2 [b0, b1, b2, b3, b4, b5, b6, b7]"
  by (simp add: byte_def)

lemma is_digit_ascii: "is_digit c \<Longrightarrow> byte c < 0x80"
  by (auto simp: is_digit_def byte_def Let_def)

lemma ascii_show_nat [simp]: "ascii (show_nat n)"
  using show_nat_digits is_digit_ascii by (auto simp: ascii_def)

lemma ascii_show_int [simp]: "ascii (show_int n)"
  by (simp add: show_int_def byte_def)

lemma byte_char_of: "n < 256 \<Longrightarrow> byte (char_of n) = n"
  by (simp add: byte_def)

lemma valid_rune_enc:
  assumes "r < 0x110000" "\<not> is_surrogate r"
  shows "valid_utf8 (rune_enc r)"
proof -
  note d = valid_utf8.simps(2) rune_len.simps(2) byte_char_of cont_def rune_enc_def Let_def
  consider "r < 0x80" | "0x80 \<le> r" "r < 0x800" | "0x800 \<le> r" "r < 0x10000" | "0x10000 \<le> r" "r < 0x110000" using assms(1) by linarith
  then show ?thesis
  proof cases
    case 1
    then show ?thesis by (simp add: d)
  next
    case 2
    then have "2 \<le> r div 64" "r div 64 < 32" by linarith+
    then show ?thesis using 2 by (simp add: d)
  next
    case 3
    define q where "q = r div 64"
    have e: "r div 4096 = q div 64" by (simp add: q_def div_mult2_eq [symmetric])
    have q: "32 \<le> q" "q < 1024" "q < 864 \<or> 896 \<le> q" using 3 assms(2) unfolding q_def is_surrogate_def by linarith+
    have "q div 64 < 16" using q(2) by linarith
    moreover have "q div 64 = 0 \<longrightarrow> 32 \<le> q mod 64" using q(1) by (auto simp: div_eq_0_iff)
    moreover have "q div 64 = 13 \<longrightarrow> q mod 64 < 32"
    proof
      assume "q div 64 = 13"
      then have "q = 832 + q mod 64" "q mod 64 < 64" using div_mult_mod_eq [of q 64] by linarith+
      then show "q mod 64 < 32" using q(3) by linarith
    qed
    ultimately show ?thesis using 3 by (auto simp: d e q_def [symmetric])
  next
    case 4
    define q where "q = r div 4096"
    have e: "r div 262144 = q div 64" by (simp add: q_def div_mult2_eq [symmetric])
    have "16 \<le> q" "q < 272" using 4 unfolding q_def by linarith+
    moreover from this have "q div 64 \<le> 4" by linarith
    moreover have "q = 64 * (q div 64) + q mod 64" by simp
    ultimately have "q div 64 \<le> 4" "q div 64 = 0 \<longrightarrow> 16 \<le> q mod 64" "q div 64 = 4 \<longrightarrow> q mod 64 < 16" by linarith+
    then show ?thesis using 4 by (auto simp: d e q_def [symmetric])
  qed
qed

end
