(* ===== verification/Json_Value.thy ===== *)
theory Json_Value
  imports Go_Utf8
begin

text \<open>
  Go's \<^verbatim>\<open>encoding/json\<close> at the level of values: the text \<^verbatim>\<open>Marshal\<close> writes for a value and the grammar
  \<^verbatim>\<open>Unmarshal\<close> accepts, with the treatment of escapes, surrogates and invalid UTF-8 in strings and the limit
  on nesting. A parser takes the text and returns a value with the text that follows it. Numbers keep their
  literal, as in Go they are read only when the type of the target is known.
\<close>

datatype json = JNull | JBool bool | JNum string | JStr string | JArr "json list" | JObj "(string \<times> json) list"

section \<open>Writing\<close>

abbreviation dquote :: char where "dquote \<equiv> CHR 0x22"
abbreviation bslash :: char where "bslash \<equiv> CHR 0x5C"

definition hex_char :: "nat \<Rightarrow> char" where
  "hex_char n = (if n < 10 then char_of (48 + n) else char_of (87 + n))"

definition json_char :: "char \<Rightarrow> string" where
  "json_char c =
     (let n = byte c
      in if n = 0x22 then [bslash, dquote]
         else if n = 0x5C then [bslash, bslash]
         else if n = 8 then [bslash, CHR ''b'']
         else if n = 12 then [bslash, CHR ''f'']
         else if n = 10 then [bslash, CHR ''n'']
         else if n = 13 then [bslash, CHR ''r'']
         else if n = 9 then [bslash, CHR ''t'']
         else if n < 0x20 \<or> n = 0x3C \<or> n = 0x3E \<or> n = 0x26
              then [bslash, CHR ''u'', CHR ''0'', CHR ''0'', hex_char (n div 16), hex_char (n mod 16)]
         else [c])"

text \<open>\<^verbatim>\<open>appendString\<close> with HTML escaping on; U+2028 and U+2029 are escaped, a byte that starts no rune is
  written as the replacement character.\<close>

function json_body :: "string \<Rightarrow> string" where
  "json_body [] = []"
| "json_body (c # s) =
     (if byte c < 0x80 then json_char c @ json_body s
      else let k = rune_len (c # s)
           in if k = 0 then [bslash] @ ''ufffd'' @ json_body s
              else let w = c # take (k - 1) s
                   in (if w = [CHR 0xE2, CHR 0x80, CHR 0xA8] then [bslash] @ ''u2028''
                       else if w = [CHR 0xE2, CHR 0x80, CHR 0xA9] then [bslash] @ ''u2029''
                       else w) @ json_body (drop (k - 1) s))"
  by pat_completeness auto
termination by (relation "measure length") simp_all

definition json_string :: "string \<Rightarrow> string" where
  "json_string s = [dquote] @ json_body s @ [dquote]"

fun json_print :: "json \<Rightarrow> string" where
  "json_print JNull = ''null''"
| "json_print (JBool b) = (if b then ''true'' else ''false'')"
| "json_print (JNum lit) = lit"
| "json_print (JStr s) = json_string s"
| "json_print (JArr vs) = ''['' @ Join '','' (map json_print vs) @ '']''"
| "json_print (JObj ms) = ''{'' @ Join '','' (map (\<lambda>(k, v). json_string k @ '':'' @ json_print v) ms) @ ''}''"

section \<open>Reading\<close>

definition is_ws :: "char \<Rightarrow> bool" where
  "is_ws c \<longleftrightarrow> c \<in> {CHR '' '', CHR 0x09, CHR 0x0A, CHR 0x0D}"

definition ws :: "string \<Rightarrow> string" where
  "ws s = dropWhile is_ws s"

definition hex_val :: "char \<Rightarrow> nat option" where
  "hex_val c =
     (let n = byte c
      in if 48 \<le> n \<and> n \<le> 57 then Some (n - 48)
         else if 97 \<le> n \<and> n \<le> 102 then Some (n - 87)
         else if 65 \<le> n \<and> n \<le> 70 then Some (n - 55)
         else None)"

fun hex4 :: "string \<Rightarrow> (nat \<times> string) option" where
  "hex4 (a # b # c # d # s) =
     (case (hex_val a, hex_val b, hex_val c, hex_val d) of
        (Some w, Some x, Some y, Some z) \<Rightarrow> Some (w * 4096 + x * 256 + y * 16 + z, s)
      | _ \<Rightarrow> None)"
| "hex4 _ = None"

fun escaped :: "string \<Rightarrow> nat option" where
  "escaped (c # d # s) = (if c = bslash \<and> d = CHR ''u'' then map_option fst (hex4 s) else None)"
| "escaped _ = None"

text \<open>
  What an escape after a backslash stands for, with the text after it. A lone surrogate becomes the
  replacement character; a high surrogate takes the low one that is escaped right after it.
\<close>

definition escape :: "string \<Rightarrow> (string \<times> string) option" where
  "escape s =
     (case s of
        [] \<Rightarrow> None
      | e # r \<Rightarrow>
          if e \<in> {dquote, bslash, CHR ''/''} then Some ([e], r)
          else if e = CHR ''b'' then Some ([CHR 0x08], r)
          else if e = CHR ''f'' then Some ([CHR 0x0C], r)
          else if e = CHR ''n'' then Some ([CHR 0x0A], r)
          else if e = CHR ''r'' then Some ([CHR 0x0D], r)
          else if e = CHR ''t'' then Some ([CHR 0x09], r)
          else if e = CHR ''u'' then
            (case hex4 r of
               None \<Rightarrow> None
             | Some (n, q) \<Rightarrow>
                 if \<not> is_surrogate n then Some (rune_enc n, q)
                 else (case escaped q of
                         None \<Rightarrow> Some (rune_enc RuneError, q)
                       | Some m \<Rightarrow>
                           (case utf16_pair n m of
                              None \<Rightarrow> Some (rune_enc RuneError, q)
                            | Some x \<Rightarrow> Some (rune_enc x, drop 6 q))))
          else None)"

lemma hex4_length: "hex4 s = Some (n, r) \<Longrightarrow> length r < length s"
  by (induction s rule: hex4.induct) (auto split: option.splits)

lemma escape_length: "escape s = Some (w, r) \<Longrightarrow> length r < length s"
  by (auto simp: escape_def dest!: hex4_length split: list.splits if_splits option.splits)

text \<open>The characters of a string after its opening quote.\<close>

function json_chars :: "string \<Rightarrow> (string \<times> string) option" where
  "json_chars [] = None"
| "json_chars (c # s) =
     (if c = dquote then Some ([], s)
      else if c = bslash then
        (case escape s of
           None \<Rightarrow> None
         | Some (w, r) \<Rightarrow> (case json_chars r of None \<Rightarrow> None | Some (t, q) \<Rightarrow> Some (w @ t, q)))
      else if byte c < 0x20 then None
      else let k = rune_len (c # s)
           in if k = 0 then (case json_chars s of None \<Rightarrow> None | Some (t, q) \<Rightarrow> Some (rune_enc RuneError @ t, q))
              else (case json_chars (drop (k - 1) s) of None \<Rightarrow> None | Some (t, q) \<Rightarrow> Some (c # take (k - 1) s @ t, q)))"
  by pat_completeness auto
termination by (relation "measure length") (auto dest: escape_length)

text \<open>Numbers.\<close>

definition digits :: "string \<Rightarrow> (string \<times> string) option" where
  "digits s = (let ds = takeWhile is_digit s in if ds = [] then None else Some (ds, dropWhile is_digit s))"

definition scan_exp :: "string \<Rightarrow> string \<Rightarrow> (string \<times> string) option" where
  "scan_exp lit s =
     (case s of
        [] \<Rightarrow> Some (lit, s)
      | e # r \<Rightarrow>
          if e \<in> {CHR ''e'', CHR ''E''} then
            (case r of
               [] \<Rightarrow> None
             | g # q \<Rightarrow>
                 if g \<in> {CHR ''+'', CHR ''-''} then map_option (\<lambda>(ds, t). (lit @ [e, g] @ ds, t)) (digits q)
                 else map_option (\<lambda>(ds, t). (lit @ [e] @ ds, t)) (digits r))
          else Some (lit, s))"

definition scan_frac :: "string \<Rightarrow> string \<Rightarrow> (string \<times> string) option" where
  "scan_frac lit s =
     (case s of
        [] \<Rightarrow> Some (lit, s)
      | d # r \<Rightarrow>
          if d = CHR ''.'' then (case digits r of None \<Rightarrow> None | Some (ds, q) \<Rightarrow> scan_exp (lit @ [d] @ ds) q)
          else scan_exp lit s)"

definition scan_int :: "string \<Rightarrow> string \<Rightarrow> (string \<times> string) option" where
  "scan_int sg s =
     (case s of
        [] \<Rightarrow> None
      | c # r \<Rightarrow>
          if c = CHR ''0'' then scan_frac (sg @ [c]) r
          else (case digits s of None \<Rightarrow> None | Some (ds, q) \<Rightarrow> scan_frac (sg @ ds) q))"

definition scan_number :: "string \<Rightarrow> (string \<times> string) option" where
  "scan_number s =
     (case s of
        [] \<Rightarrow> None
      | c # r \<Rightarrow> if c = CHR ''-'' then scan_int [c] r else scan_int [] s)"

definition literal :: "string \<Rightarrow> 'a \<Rightarrow> string \<Rightarrow> ('a \<times> string) option" where
  "literal w v s = (if take (length w) s = w then Some (v, drop (length w) s) else None)"

definition maxNestingDepth :: nat where "maxNestingDepth = 10000"

lemma ws_length: "length (ws s) \<le> length s"
  by (simp add: ws_def length_dropWhile_le)

lemma ws_Cons_length: "ws s = c # r \<Longrightarrow> length r < length s"
  using ws_length [of s] by simp

text \<open>
  The grammar. \<open>d\<close> is the number of arrays and objects that are open. The parsers for the elements of an
  array and the members of an object start after the opening bracket of one that is not empty. The
  comparisons of lengths are always true (lemma \<open>json_shrinks\<close>); they are there for the recursion.
\<close>

function (sequential) json_value :: "nat \<Rightarrow> string \<Rightarrow> (json \<times> string) option"
  and json_elems :: "nat \<Rightarrow> string \<Rightarrow> (json list \<times> string) option"
  and json_members :: "nat \<Rightarrow> string \<Rightarrow> ((string \<times> json) list \<times> string) option" where
  "json_value d [] = None"
| "json_value d (c # s) =
     (if c = CHR ''{'' then
        if d \<ge> maxNestingDepth then None
        else (case ws s of
                [] \<Rightarrow> None
              | e # r \<Rightarrow> if e = CHR ''}'' then Some (JObj [], r) else map_option (\<lambda>(ms, q). (JObj ms, q)) (json_members (d + 1) (e # r)))
      else if c = CHR ''['' then
        if d \<ge> maxNestingDepth then None
        else (case ws s of
                [] \<Rightarrow> None
              | e # r \<Rightarrow> if e = CHR '']'' then Some (JArr [], r) else map_option (\<lambda>(vs, q). (JArr vs, q)) (json_elems (d + 1) (e # r)))
      else if c = dquote then map_option (\<lambda>(t, q). (JStr t, q)) (json_chars s)
      else if c = CHR ''t'' then literal ''true'' (JBool True) (c # s)
      else if c = CHR ''f'' then literal ''false'' (JBool False) (c # s)
      else if c = CHR ''n'' then literal ''null'' JNull (c # s)
      else map_option (\<lambda>(lit, q). (JNum lit, q)) (scan_number (c # s)))"
| "json_elems d s =
     (case json_value d (ws s) of
        None \<Rightarrow> None
      | Some (v, r) \<Rightarrow>
          if length r < length s then
            (case ws r of
               [] \<Rightarrow> None
             | e # q \<Rightarrow>
                 if e = CHR '']'' then Some ([v], q)
                 else if e = CHR '','' then map_option (\<lambda>(vs, t). (v # vs, t)) (json_elems d q)
                 else None)
          else None)"
| "json_members d s =
     (case ws s of
        [] \<Rightarrow> None
      | c # r \<Rightarrow>
          if c \<noteq> dquote then None
          else (case json_chars r of
                  None \<Rightarrow> None
                | Some (k, q) \<Rightarrow>
                    (case ws q of
                       [] \<Rightarrow> None
                     | e # t \<Rightarrow>
                         if e \<noteq> CHR '':'' \<or> length t \<ge> length s then None
                         else (case json_value d (ws t) of
                                 None \<Rightarrow> None
                               | Some (v, u) \<Rightarrow>
                                   if length u < length s then
                                     (case ws u of
                                        [] \<Rightarrow> None
                                      | g # x \<Rightarrow>
                                          if g = CHR ''}'' then Some ([(k, v)], x)
                                          else if g = CHR '','' then map_option (\<lambda>(ms, y). ((k, v) # ms, y)) (json_members d x)
                                          else None)
                                   else None))))"
  by pat_completeness auto
termination
proof (relation "measure (case_sum (\<lambda>(d, s). 2 * length s) (case_sum (\<lambda>(d, s). 2 * length s + 1) (\<lambda>(d, s). 2 * length s + 1)))", goal_cases)
  case 1
  then show ?case by simp
qed (auto dest!: ws_Cons_length simp: less_Suc_eq_le ws_length intro: le_less_trans [OF ws_length] le_trans [OF ws_length])

section \<open>Parsers consume\<close>

lemma json_chars_length: "json_chars s = Some (t, q) \<Longrightarrow> length q < length s"
proof (induction s arbitrary: t rule: json_chars.induct)
  case (2 c s)
  show ?case
  proof (cases "c = dquote \<or> c = bslash \<or> byte c < 0x20")
    case True
    then show ?thesis using 2 by (fastforce split: option.splits if_splits dest: escape_length)
  next
    case False
    then show ?thesis using 2 by (fastforce simp: Let_def split: option.splits if_splits)
  qed
qed simp

lemma digits_length: "digits s = Some (ds, q) \<Longrightarrow> length q < length s"
proof -
  assume "digits s = Some (ds, q)"
  then have "takeWhile is_digit s \<noteq> []" "q = dropWhile is_digit s" by (auto simp: digits_def Let_def split: if_splits)
  then show ?thesis by (cases s) (auto simp: less_Suc_eq_le length_dropWhile_le split: if_splits)
qed

lemma scan_exp_length: "scan_exp lit s = Some (w, q) \<Longrightarrow> length q \<le> length s"
  by (auto simp: scan_exp_def split: list.splits if_splits dest!: digits_length)

lemma scan_frac_length: "scan_frac lit s = Some (w, q) \<Longrightarrow> length q \<le> length s"
  by (auto simp: scan_frac_def split: list.splits if_splits option.splits dest!: digits_length scan_exp_length)

lemma scan_number_length: "scan_number s = Some (w, q) \<Longrightarrow> length q < length s"
  by (auto simp: scan_number_def scan_int_def split: list.splits if_splits option.splits dest!: digits_length scan_frac_length)

lemma literal_length: "literal w v s = Some (x, q) \<Longrightarrow> w \<noteq> [] \<Longrightarrow> length q < length s"
  by (cases s; cases w) (auto simp: literal_def split: if_splits)

lemma json_elems_length: "json_elems d s = Some (vs, r) \<Longrightarrow> length r < length s"
proof (induction s arbitrary: vs rule: length_induct)
  case (1 s)
  obtain v1 r1 e q where h: "json_value d (ws s) = Some (v1, r1)" "length r1 < length s" "ws r1 = e # q"
    using "1.prems" by (auto split: option.splits if_splits list.splits)
  have q: "length q < length s" using ws_Cons_length [OF h(3)] h(2) by simp
  show ?case
  proof (cases "e = CHR '']''")
    case True
    then show ?thesis using "1.prems" h q by simp
  next
    case False
    then obtain vs' where "json_elems d q = Some (vs', r)" using "1.prems" h by (auto split: if_splits simp del: json_elems.simps simp: json_elems.simps [of d s])
    then show ?thesis using "1.IH" q by fastforce
  qed
qed

lemma json_members_cases:
  assumes "json_members d s = Some (ms, r)"
  obtains k v g x where "length x < length s" "g = CHR ''}'' \<and> ms = [(k, v)] \<and> r = x \<or> (\<exists>ms'. json_members d x = Some (ms', r) \<and> ms = (k, v) # ms')"
proof -
  obtain c r0 k q e t v u g x where h: "ws s = c # r0" "json_chars r0 = Some (k, q)" "ws q = e # t" "json_value d (ws t) = Some (v, u)"
      "length u < length s" "ws u = g # x" "c = dquote" "e = CHR '':''" "length t < length s"
    using assms by (auto split: option.splits if_splits list.splits)
  have x: "length x < length s" using ws_Cons_length [OF h(6)] h(5) by simp
  have "json_members d s = (if g = CHR ''}'' then Some ([(k, v)], x)
      else if g = CHR '','' then map_option (\<lambda>(ms, y). ((k, v) # ms, y)) (json_members d x) else None)"
    unfolding json_members.simps [of d s] using h by (simp del: json_members.simps)
  then show ?thesis using assms x that [of x g k v]
    by (cases "json_members d x") (auto split: if_splits simp del: json_members.simps)
qed

lemma json_members_length: "json_members d s = Some (ms, r) \<Longrightarrow> length r < length s"
proof (induction s arbitrary: ms rule: length_induct)
  case (1 s)
  from "1.prems" show ?case
  proof (cases rule: json_members_cases)
    case (1 k v g x)
    then show ?thesis using "1.IH" by fastforce
  qed
qed

lemma json_shrinks: "json_value d s = Some (v, r) \<Longrightarrow> length r < length s"
proof (cases s)
  case (Cons c t)
  assume h: "json_value d s = Some (v, r)"
  consider "c = CHR ''{''" | "c = CHR ''[''" | "c \<noteq> CHR ''{''" "c \<noteq> CHR ''[''" by blast
  then show ?thesis
  proof cases
    case 1
    then show ?thesis using h Cons ws_length [of t]
      by (auto split: list.splits if_splits dest!: json_members_length simp del: json_members.simps)
  next
    case 2
    then show ?thesis using h Cons ws_length [of t]
      by (auto split: list.splits if_splits dest!: json_elems_length simp del: json_elems.simps)
  next
    case 3
    then show ?thesis using h Cons by (auto split: if_splits dest: json_chars_length scan_number_length literal_length)
  qed
qed simp

declare json_elems.simps [simp del] json_members.simps [simp del]

lemma json_elems_eq:
  assumes "json_value d (ws s) = Some (v, r)"
  shows "json_elems d s = (case ws r of
      [] \<Rightarrow> None
    | e # q \<Rightarrow> if e = CHR '']'' then Some ([v], q)
        else if e = CHR '','' then map_option (\<lambda>(vs, t). (v # vs, t)) (json_elems d q) else None)"
  using assms json_shrinks [OF assms] ws_length [of s] by (simp add: json_elems.simps [of d s])

lemma json_members_eq:
  assumes "ws s = dquote # r" "json_chars r = Some (k, q)" "ws q = CHR '':'' # t" "json_value d (ws t) = Some (v, u)"
  shows "json_members d s = (case ws u of
      [] \<Rightarrow> None
    | g # x \<Rightarrow> if g = CHR ''}'' then Some ([(k, v)], x)
        else if g = CHR '','' then map_option (\<lambda>(ms, y). ((k, v) # ms, y)) (json_members d x) else None)"
proof -
  have "length t < length s" using ws_Cons_length [OF assms(1)] json_chars_length [OF assms(2)] ws_Cons_length [OF assms(3)] by simp
  moreover have "length u < length t" using json_shrinks [OF assms(4)] ws_length [of t] by simp
  ultimately show ?thesis using assms by (simp add: json_members.simps [of d s])
qed

section \<open>What is written is read back\<close>

lemma hex_val_char: "n < 16 \<Longrightarrow> hex_val (hex_char n) = Some n"
  by (auto simp: hex_val_def hex_char_def byte_def Let_def)

lemma char_of_byte [simp]: "char_of (byte c) = c"
  by (simp add: byte_def)

lemma byte_eq: "byte c = n \<longleftrightarrow> c = char_of n" if "n < 256"
  using that by (auto simp: byte_def)

lemma short_chars:
  "char_of (34::nat) = dquote" "char_of (92::nat) = bslash" "char_of (8::nat) = CHR 0x08" "char_of (9::nat) = CHR 0x09" "char_of (10::nat) = CHR 0x0A"
  "char_of (12::nat) = CHR 0x0C" "char_of (13::nat) = CHR 0x0D" "char_of (48::nat) = CHR ''0''"
  by code_simp+

lemma json_chars_char:
  assumes "byte c < 0x80"
  shows "json_chars (json_char c @ s) = (case json_chars s of None \<Rightarrow> None | Some (t, q) \<Rightarrow> Some (c # t, q))"
proof -
  consider (u) "byte c < 0x20 \<or> byte c = 0x3C \<or> byte c = 0x3E \<or> byte c = 0x26" "byte c \<notin> {8, 9, 10, 12, 13}"
    | (short) "byte c \<in> {0x22, 0x5C, 8, 9, 10, 12, 13}"
    | (plain) "\<not> byte c < 0x20" "byte c \<notin> {0x3C, 0x3E, 0x26, 0x22, 0x5C}" by blast
  then show ?thesis
  proof cases
    case u
    let ?n = "byte c"
    have j: "json_char c = [bslash, CHR ''u'', CHR ''0'', CHR ''0'', hex_char (?n div 16), hex_char (?n mod 16)]"
      using u by (auto simp: json_char_def Let_def)
    have h: "hex_val (hex_char (?n div 16)) = Some (?n div 16)" "hex_val (hex_char (?n mod 16)) = Some (?n mod 16)"
      by (rule hex_val_char, use assms in simp)+
    have z: "hex_val (CHR ''0'') = Some 0" by (simp add: hex_val_def byte_def)
    have "escape (CHR ''u'' # CHR ''0'' # CHR ''0'' # hex_char (?n div 16) # hex_char (?n mod 16) # s) = Some ([c], s)"
      using assms h z by (simp add: escape_def is_surrogate_def rune_enc_def)
    then show ?thesis unfolding j by (simp split: option.splits)
  next
    case short
    then consider "c = dquote" | "c = bslash" | "c = CHR 0x08" | "c = CHR 0x09" | "c = CHR 0x0A" | "c = CHR 0x0C" | "c = CHR 0x0D"
      by (auto simp: byte_eq short_chars)
    then show ?thesis by cases (simp_all add: json_char_def byte_def escape_def split: option.splits)
  next
    case plain
    then have "json_char c = [c]" "c \<noteq> dquote" "c \<noteq> bslash" by (auto simp: json_char_def Let_def byte_def)
    then show ?thesis using plain assms by (simp add: rune_len_ascii split: option.splits)
  qed
qed

lemma json_chars_run:
  assumes "rune_len (c # s) \<noteq> 0" "\<not> byte c < 0x80"
  shows "json_chars (c # take (rune_len (c # s) - 1) s @ r) = (case json_chars r of None \<Rightarrow> None | Some (t, q) \<Rightarrow> Some (c # take (rune_len (c # s) - 1) s @ t, q))"
proof -
  let ?k = "rune_len (c # s)"
  have l: "rune_len (c # take (?k - 1) s @ r) = ?k" using rune_len_append [of c "take (?k - 1) s" r] rune_len_take [OF assms(1)] assms(1) by simp
  have "c \<noteq> dquote" "c \<noteq> bslash" "\<not> byte c < 0x20" using assms(2) by (auto simp: byte_def)
  moreover have "drop (?k - 1) (take (?k - 1) s @ r) = r" "take (?k - 1) (take (?k - 1) s @ r) = take (?k - 1) s"
    using rune_len_cont(2) [OF assms] by simp_all
  ultimately show ?thesis using assms(1) l by (simp only: json_chars.simps if_False Let_def)
qed

lemma rune_enc_sep: "rune_enc 0x2028 = [CHR 0xE2, CHR 0x80, CHR 0xA8]" "rune_enc 0x2029 = [CHR 0xE2, CHR 0x80, CHR 0xA9]"
  by code_simp+

lemma escape_sep:
  "escape (CHR ''u'' # CHR ''2'' # CHR ''0'' # CHR ''2'' # CHR ''8'' # t) = Some ([CHR 0xE2, CHR 0x80, CHR 0xA8], t)"
  "escape (CHR ''u'' # CHR ''2'' # CHR ''0'' # CHR ''2'' # CHR ''9'' # t) = Some ([CHR 0xE2, CHR 0x80, CHR 0xA9], t)"
  using rune_enc_sep by (simp_all add: escape_def hex_val_def byte_def is_surrogate_def)

lemma json_chars_body: "valid_utf8 s \<Longrightarrow> json_chars (json_body s @ dquote # r) = Some (s, r)"
proof (induction s rule: json_body.induct)
  case (2 c s)
  let ?k = "rune_len (c # s)"
  show ?case
  proof (cases "byte c < 0x80")
    case True
    then show ?thesis using 2 by (simp add: json_chars_char)
  next
    case False
    have k: "?k \<noteq> 0" using "2.prems" by (simp add: valid_utf8.simps(2))
    let ?w = "c # take (?k - 1) s"
    have ih: "json_chars (json_body (drop (?k - 1) s) @ dquote # r) = Some (drop (?k - 1) s, r)"
      using "2.prems" "2.IH"(3) [OF False refl k refl] by (simp add: valid_utf8.simps(2))
    have w: "?w @ drop (?k - 1) s = c # s" by simp
    consider "?w = [CHR 0xE2, CHR 0x80, CHR 0xA8]" | "?w = [CHR 0xE2, CHR 0x80, CHR 0xA9]"
      | "?w \<noteq> [CHR 0xE2, CHR 0x80, CHR 0xA8]" "?w \<noteq> [CHR 0xE2, CHR 0x80, CHR 0xA9]" by blast
    then show ?thesis
    proof cases
      case 1
      then have b: "json_body (c # s) = bslash # ''u2028'' @ json_body (drop (?k - 1) s)" using False k by (simp only: json_body.simps Let_def if_False) simp
      have "json_chars (json_body (c # s) @ dquote # r) = Some (?w @ drop (?k - 1) s, r)" unfolding 1 unfolding b using ih by (simp add: escape_sep)
      then show ?thesis by (simp only: w)
    next
      case 2
      then have b: "json_body (c # s) = bslash # ''u2029'' @ json_body (drop (?k - 1) s)" using False k by (simp only: json_body.simps Let_def if_False) simp
      have "json_chars (json_body (c # s) @ dquote # r) = Some (?w @ drop (?k - 1) s, r)" unfolding 2 unfolding b using ih by (simp add: escape_sep)
      then show ?thesis by (simp only: w)
    next
      case 3
      then have "json_body (c # s) = ?w @ json_body (drop (?k - 1) s)" using False k by (simp only: json_body.simps Let_def if_False)
      then show ?thesis using json_chars_run [OF k False] ih by simp
    qed
  qed
qed simp

text \<open>Integers, the only numbers the program writes.\<close>

definition ends :: "string \<Rightarrow> bool" where
  "ends r \<longleftrightarrow> (case r of [] \<Rightarrow> True | c # _ \<Rightarrow> \<not> is_digit c \<and> c \<notin> {CHR ''.'', CHR ''e'', CHR ''E''})"

lemma show_nat_hd: "0 < n \<Longrightarrow> hd (show_nat n) \<noteq> CHR ''0''"
proof (induction n rule: show_nat.induct)
  case (1 n)
  show ?case
  proof (cases "n < 10")
    case True
    then have "byte (digit_char n) \<noteq> byte (CHR ''0'')" using "1.prems" by (simp add: digit_char_def byte_def)
    then have "digit_char n \<noteq> CHR ''0''" by metis
    then show ?thesis using True by (simp add: show_nat.simps [of n])
  next
    case False
    then show ?thesis using 1 by (simp add: show_nat.simps [of n])
  qed
qed

lemma scan_frac_ends: "ends r \<Longrightarrow> scan_frac lit r = Some (lit, r)"
  by (auto simp: ends_def scan_frac_def scan_exp_def split: list.splits)

lemma digits_show: "ends r \<Longrightarrow> digits (show_nat n @ r) = Some (show_nat n, r)"
proof -
  assume "ends r"
  then have "takeWhile is_digit r = []" "dropWhile is_digit r = r" by (auto simp: ends_def split: list.splits)
  then show ?thesis using show_nat_digits [of n]
    by (simp add: digits_def takeWhile_append2 dropWhile_append2)
qed

lemma scan_int_show: "ends r \<Longrightarrow> scan_int sg (show_nat n @ r) = Some (sg @ show_nat n, r)"
proof (cases "n = 0")
  case True
  assume "ends r"
  then show ?thesis using True scan_frac_ends by (simp add: scan_int_def show_nat.simps digit_char_def short_chars)
next
  case False
  assume r: "ends r"
  obtain c t where c: "show_nat n = c # t" using show_nat_ne_Nil by (meson neq_Nil_conv)
  have "c \<noteq> CHR ''0''" using show_nat_hd [of n] False c by simp
  moreover have "digits (c # t @ r) = Some (c # t, r)" using digits_show [OF r, of n] c by simp
  ultimately show ?thesis using scan_frac_ends [OF r] by (simp add: scan_int_def c)
qed

lemma scan_number_show: "ends r \<Longrightarrow> scan_number (show_int i @ r) = Some (show_int i, r)"
proof (cases "i < 0")
  case True
  assume "ends r"
  then show ?thesis using True by (simp add: show_int_def scan_number_def scan_int_show)
next
  case False
  assume r: "ends r"
  obtain c t where c: "show_nat (nat i) = c # t" using show_nat_ne_Nil by (meson neq_Nil_conv)
  have "c \<noteq> CHR ''-''" using show_nat_no_sep(3) [of "nat i"] c by auto
  moreover have "scan_int [] (c # t @ r) = Some (c # t, r)" using scan_int_show [OF r, of "[]" "nat i"] c by simp
  ultimately show ?thesis using False c by (simp add: show_int_def scan_number_def)
qed

section \<open>Round trip of values\<close>

text \<open>\<^verbatim>\<open>Unmarshal\<close> first checks the whole text: one value, with white space around it.\<close>

definition json_parse :: "string \<Rightarrow> json option" where
  "json_parse s = (case json_value 0 (ws s) of None \<Rightarrow> None | Some (v, r) \<Rightarrow> if ws r = [] then Some v else None)"

text \<open>Values as the program writes them, below \<open>d\<close> open brackets: strings of valid UTF-8, numbers, and
  nesting within the limit.\<close>

definition number :: "string \<Rightarrow> bool" where
  "number lit \<longleftrightarrow> lit \<noteq> [] \<and> (is_digit (hd lit) \<or> hd lit = CHR ''-'') \<and> ascii lit \<and> (\<forall>r. ends r \<longrightarrow> scan_number (lit @ r) = Some (lit, r))"

lemma number_show_int [simp]: "number (show_int i)"
proof -
  have "is_digit (hd (show_nat (nat i)))" using show_nat_digits [of "nat i"] by (simp add: hd_in_set)
  then have "show_int i \<noteq> []" "is_digit (hd (show_int i)) \<or> hd (show_int i) = CHR ''-''" by (simp_all add: show_int_def)
  then show ?thesis by (simp add: number_def scan_number_show)
qed

fun json_ok :: "nat \<Rightarrow> json \<Rightarrow> bool" where
  "json_ok d JNull = True"
| "json_ok d (JBool b) = True"
| "json_ok d (JNum lit) = number lit"
| "json_ok d (JStr s) = valid_utf8 s"
| "json_ok d (JArr vs) = (d < maxNestingDepth \<and> (\<forall>v \<in> set vs. json_ok (d + 1) v))"
| "json_ok d (JObj ms) = (d < maxNestingDepth \<and> (\<forall>(k, v) \<in> set ms. valid_utf8 k \<and> json_ok (d + 1) v))"

definition starts :: "string \<Rightarrow> bool" where
  "starts s \<longleftrightarrow> (case s of [] \<Rightarrow> False | c # _ \<Rightarrow> \<not> is_ws c \<and> c \<noteq> CHR '']'' \<and> c \<noteq> CHR ''}'')"

lemma starts_ws: "starts s \<Longrightarrow> ws s = s"
  by (auto simp: starts_def ws_def split: list.splits)

lemma starts_append: "starts s \<Longrightarrow> starts (s @ r)"
  by (auto simp: starts_def split: list.splits)

lemma starts_number: "number lit \<Longrightarrow> starts (lit @ r)"
  by (cases lit) (auto simp: number_def starts_def is_digit_def is_ws_def)

lemma starts_json_string [simp]: "starts (json_string s @ r)"
  by (simp add: starts_def json_string_def is_ws_def)

lemma starts_print: "json_ok d v \<Longrightarrow> starts (json_print v @ r)"
  by (cases v) (auto simp: starts_number, auto simp: starts_def is_ws_def)

lemma ends_simps [simp]: "ends []" "ends (CHR '','' # r)" "ends (CHR '']'' # r)" "ends (CHR ''}'' # r)"
  by (simp_all add: ends_def is_digit_def)

lemma ws_simps [simp]: "ws (CHR '','' # r) = CHR '','' # r" "ws (CHR '']'' # r) = CHR '']'' # r" "ws (CHR ''}'' # r) = CHR ''}'' # r"
  "ws (CHR '':'' # r) = CHR '':'' # r" "ws [] = []"
  by (simp_all add: ws_def is_ws_def)

lemma json_elems_print:
  assumes "vs \<noteq> []" "\<And>v r. v \<in> set vs \<Longrightarrow> ends r \<Longrightarrow> json_value d (json_print v @ r) = Some (v, r)"
    "\<And>v. v \<in> set vs \<Longrightarrow> json_ok d v"
  shows "json_elems d (Join '','' (map json_print vs) @ '']'' @ r) = Some (vs, r)"
  using assms
proof (induction vs)
  case (Cons v vs)
  have w: "ws (json_print v @ t) = json_print v @ t" for t using Cons.prems(3) [of v] starts_print starts_ws by simp
  show ?case
  proof (cases vs)
    case Nil
    have "json_value d (ws (json_print v @ '']'' @ r)) = Some (v, '']'' @ r)" using Cons.prems(2) [of v] by (simp only: w) simp
    then show ?thesis using Nil by (simp add: json_elems_eq)
  next
    case (Cons v' vs')
    let ?t = "Join '','' (map json_print vs) @ '']'' @ r"
    have "json_value d (ws (json_print v @ '','' @ ?t)) = Some (v, '','' @ ?t)" using Cons.prems(2) [of v] by (simp only: w) simp
    moreover have "json_elems d ?t = Some (vs, r)" using Cons.IH Cons.prems(2,3) Cons by (simp del: append.simps)
    moreover have "Join '','' (map json_print (v # vs)) @ '']'' @ r = json_print v @ '','' @ ?t" using Cons by simp
    ultimately show ?thesis by (simp add: json_elems_eq)
  qed
qed simp

definition json_member :: "string \<times> json \<Rightarrow> string" where
  "json_member kv = (case kv of (k, v) \<Rightarrow> json_string k @ '':'' @ json_print v)"

lemma json_print_obj: "json_print (JObj ms) = ''{'' @ Join '','' (map json_member ms) @ ''}''"
  by (simp add: json_member_def [abs_def])

lemma json_member_step:
  assumes "valid_utf8 k" "json_ok d v" "json_value d (json_print v @ r) = Some (v, r)"
  shows "json_members d (json_member (k, v) @ r) = (case ws r of
      [] \<Rightarrow> None
    | g # x \<Rightarrow> if g = CHR ''}'' then Some ([(k, v)], x)
        else if g = CHR '','' then map_option (\<lambda>(ms, y). ((k, v) # ms, y)) (json_members d x) else None)"
proof (rule json_members_eq)
  show "ws (json_member (k, v) @ r) = dquote # json_body k @ dquote # '':'' @ json_print v @ r"
    by (simp add: json_member_def json_string_def ws_def is_ws_def)
  show "json_chars (json_body k @ dquote # '':'' @ json_print v @ r) = Some (k, '':'' @ json_print v @ r)"
    using assms(1) by (rule json_chars_body)
  show "json_value d (ws (json_print v @ r)) = Some (v, r)" using assms(3) starts_print [OF assms(2)] starts_ws by simp
qed simp

lemma json_members_print:
  assumes "ms \<noteq> []" "\<And>k v r. (k, v) \<in> set ms \<Longrightarrow> ends r \<Longrightarrow> json_value d (json_print v @ r) = Some (v, r)"
    "\<And>k v. (k, v) \<in> set ms \<Longrightarrow> valid_utf8 k \<and> json_ok d v"
  shows "json_members d (Join '','' (map json_member ms) @ ''}'' @ r) = Some (ms, r)"
  using assms
proof (induction ms)
  case (Cons m ms)
  obtain k v where m: "m = (k, v)" by fastforce
  have kv: "valid_utf8 k" "json_ok d v" using Cons.prems(3) [of k v] m by simp_all
  have v: "ends t \<Longrightarrow> json_value d (json_print v @ t) = Some (v, t)" for t using Cons.prems(2) [of k v t] m by simp
  show ?case
  proof (cases "ms = []")
    case True
    then show ?thesis using json_member_step [OF kv v] m by simp
  next
    case False
    let ?t = "Join '','' (map json_member ms) @ ''}'' @ r"
    have "json_members d ?t = Some (ms, r)" by (rule Cons.IH [OF False]; use Cons.prems(2,3) in \<open>meson list.set_intros(2)\<close>)
    moreover have "Join '','' (map json_member (m # ms)) @ ''}'' @ r = json_member (k, v) @ '','' @ ?t" using False m by (cases ms) simp_all
    ultimately show ?thesis using json_member_step [OF kv v, of "'','' @ ?t"] m by simp
  qed
qed simp

lemma starts_member: "starts (json_member kv @ r)"
  by (simp add: json_member_def split: prod.split)

lemma starts_Join: "us \<noteq> [] \<Longrightarrow> (\<And>r. starts (hd us @ r)) \<Longrightarrow> starts (Join sep us @ r)"
  by (induction sep us rule: Join.induct) auto

theorem json_value_print: "json_ok d v \<Longrightarrow> ends r \<Longrightarrow> json_value d (json_print v @ r) = Some (v, r)"
proof (induction d v arbitrary: r rule: json_ok.induct)
  case (3 d lit)
  then have n: "scan_number (lit @ r) = Some (lit, r)" by (simp add: number_def)
  obtain c t where c: "lit @ r = c # t" "is_digit c \<or> c = CHR ''-''" using 3 by (cases lit) (auto simp: number_def)
  then have "c \<notin> {CHR ''{'', CHR ''['', dquote, CHR ''t'', CHR ''f'', CHR ''n''}" by (auto simp: is_digit_def)
  then show ?case using n c by simp
next
  case (4 d s)
  then show ?case by (simp add: json_string_def json_chars_body)
next
  case (5 d vs)
  have ih: "json_value (d + 1) (json_print v @ t) = Some (v, t)" if "v \<in> set vs" "ends t" for v t
    using 5 that by auto
  show ?case
  proof (cases "vs = []")
    case False
    let ?t = "Join '','' (map json_print vs) @ '']'' @ r"
    have "json_ok (Suc d) (hd vs)" using False "5.prems" by simp
    then have s: "starts ?t" using False starts_print by (intro starts_Join) (simp_all add: hd_map)
    then obtain e q where e: "?t = e # q" "e \<noteq> CHR '']''" by (auto simp: starts_def split: list.splits)
    have "json_elems (d + 1) ?t = Some (vs, r)" using False ih "5.prems" by (intro json_elems_print) auto
    moreover have "json_print (JArr vs) @ r = CHR ''['' # e # q" unfolding e(1) [symmetric] by simp
    moreover have "ws (e # q) = e # q" using starts_ws [OF s] e by simp
    ultimately show ?thesis using "5.prems" e by (simp del: json_print.simps)
  qed (use "5.prems" in simp)
next
  case (6 d ms)
  have ih: "json_value (d + 1) (json_print v @ t) = Some (v, t)" if "(k, v) \<in> set ms" "ends t" for k v t
    using 6 that by fastforce
  show ?case
  proof (cases "ms = []")
    case False
    let ?t = "Join '','' (map json_member ms) @ ''}'' @ r"
    have s: "starts ?t" using False starts_member by (intro starts_Join) (auto simp: hd_map)
    then obtain e q where e: "?t = e # q" "e \<noteq> CHR ''}''" by (auto simp: starts_def split: list.splits)
    have "json_members (d + 1) ?t = Some (ms, r)" using False ih "6.prems" by (intro json_members_print) auto
    moreover have "json_print (JObj ms) @ r = CHR ''{'' # e # q" unfolding e(1) [symmetric] json_print_obj by simp
    moreover have "ws (e # q) = e # q" using starts_ws [OF s] e by simp
    ultimately show ?thesis using "6.prems" e by (simp del: json_print.simps)
  qed (use "6.prems" in simp)
qed (auto simp: literal_def)

theorem json_parse_print: "json_ok 0 v \<Longrightarrow> json_parse (json_print v) = Some v"
  using json_value_print [of 0 v "[]"] starts_ws [OF starts_print [of 0 v "[]"]] by (simp add: json_parse_def)

section \<open>The text is valid UTF-8\<close>

lemma byte_hex_char: "n < 16 \<Longrightarrow> byte (hex_char n) < 0x80"
  by (auto simp: hex_char_def byte_def)

lemma ascii_json_char: "byte c < 0x80 \<Longrightarrow> ascii (json_char c)"
  by (auto simp: json_char_def Let_def intro!: byte_hex_char)

lemma valid_body: "valid_utf8 s \<Longrightarrow> valid_utf8 (json_body s)"
proof (induction s rule: json_body.induct)
  case (2 c s)
  show ?case
  proof (cases "byte c < 0x80")
    case True
    then show ?thesis using 2 ascii_valid [OF ascii_json_char [OF True]] by (simp add: valid_append)
  next
    case False
    let ?k = "rune_len (c # s)"
    have k: "?k \<noteq> 0" "valid_utf8 (drop (?k - 1) s)" using "2.prems" by (simp_all add: valid_utf8.simps(2))
    have "valid_utf8 (json_body (drop (?k - 1) s))" using "2.IH"(3) [OF False refl k(1) refl k(2)] .
    then show ?thesis using False k(1) valid_append [OF valid_run [OF k(1)], of "json_body (drop (?k - 1) s)"] by (auto simp: Let_def)
  qed
qed simp

lemma valid_json_string: "valid_utf8 s \<Longrightarrow> valid_utf8 (json_string s)"
  by (simp add: json_string_def valid_append valid_body)

lemma valid_Join: "\<forall>w \<in> set us. valid_utf8 w \<Longrightarrow> valid_utf8 sep \<Longrightarrow> valid_utf8 (Join sep us)"
  by (induction sep us rule: Join.induct) (auto intro!: valid_append)

lemma valid_print: "json_ok d v \<Longrightarrow> valid_utf8 (json_print v)"
proof (induction d v rule: json_ok.induct)
  case (3 d lit)
  then show ?case by (auto simp: number_def intro: ascii_valid)
next
  case (5 d vs)
  then have "valid_utf8 (Join '','' (map json_print vs))" by (intro valid_Join) auto
  then show ?case by (simp add: valid_append)
next
  case (6 d ms)
  have "valid_utf8 (json_member (k, v))" if "(k, v) \<in> set ms" for k v
    using that 6 by (fastforce simp: json_member_def intro!: valid_append valid_json_string)
  then have "valid_utf8 (Join '','' (map json_member ms))" by (intro valid_Join) auto
  then show ?case unfolding json_print_obj by (simp add: valid_append)
qed (auto intro: valid_json_string)

section \<open>What is read is valid UTF-8\<close>

lemma valid_RuneError: "valid_utf8 (rune_enc RuneError)"
  by (rule valid_rune_enc) (simp_all add: RuneError_def is_surrogate_def)

lemma hex_val_less: "hex_val c = Some n \<Longrightarrow> n < 16"
  by (auto simp: hex_val_def Let_def split: if_splits)

lemma hex4_less: "hex4 s = Some (n, r) \<Longrightarrow> n < 0x10000"
  by (induction s rule: hex4.induct) (auto dest!: hex_val_less split: option.splits)

lemma valid_escape: "escape s = Some (w, r) \<Longrightarrow> valid_utf8 w"
proof -
  assume h: "escape s = Some (w, r)"
  have u: "valid_utf8 (rune_enc n)" if "hex4 t = Some (n, q)" "\<not> is_surrogate n" for t n q
    using hex4_less [OF that(1)] that(2) by (intro valid_rune_enc) simp_all
  have p: "valid_utf8 (rune_enc x)" if "utf16_pair n m = Some x" for n m x
    using that by (intro valid_rune_enc) (auto simp: utf16_pair_def is_surrogate_def split: if_splits)
  show ?thesis using h
    by (auto simp: escape_def split: list.splits if_splits option.splits intro: u p valid_RuneError)
qed

lemma json_chars_cases:
  assumes "json_chars (c # s) = Some (t, q)" "c \<noteq> dquote"
  obtains w r u where "json_chars r = Some (u, q)" "t = w @ u" "valid_utf8 w" "length r < length (c # s)"
proof (cases "c = bslash")
  case True
  then obtain w r u where h: "escape s = Some (w, r)" "json_chars r = Some (u, q)" "t = w @ u"
    using assms by (auto split: option.splits)
  show ?thesis using that [OF h(2,3) valid_escape [OF h(1)]] escape_length [OF h(1)] by simp
next
  case False
  let ?k = "rune_len (c # s)"
  show ?thesis
  proof (cases "?k = 0")
    case True
    then obtain u where "json_chars s = Some (u, q)" "t = rune_enc RuneError @ u"
      using assms False by (auto split: option.splits if_splits)
    then show ?thesis using that [of s u] valid_RuneError by simp
  next
    case k: False
    then obtain u where "json_chars (drop (?k - 1) s) = Some (u, q)" "t = (c # take (?k - 1) s) @ u"
      using assms False by (auto simp: Let_def split: option.splits if_splits)
    then show ?thesis using that [OF _ _ valid_run [OF k]] by simp
  qed
qed

lemma valid_chars: "json_chars s = Some (t, q) \<Longrightarrow> valid_utf8 t"
proof (induction s arbitrary: t rule: length_induct)
  case (1 s)
  then obtain c s' where s: "s = c # s'" by (cases s) auto
  show ?case
  proof (cases "c = dquote")
    case True
    then show ?thesis using 1 s by simp
  next
    case False
    obtain w r u where "json_chars r = Some (u, q)" "t = w @ u" "valid_utf8 w" "length r < length s"
      using json_chars_cases [of c s' t q] 1 s False by metis
    then show ?thesis using "1.IH" valid_append by metis
  qed
qed

text \<open>All strings in a value.\<close>

fun json_valid :: "json \<Rightarrow> bool" where
  "json_valid (JStr s) = valid_utf8 s"
| "json_valid (JArr vs) = (\<forall>v \<in> set vs. json_valid v)"
| "json_valid (JObj ms) = (\<forall>(k, v) \<in> set ms. valid_utf8 k \<and> json_valid v)"
| "json_valid _ = True"

lemma json_value_valid:
  "json_value d s = Some (v, r) \<Longrightarrow> json_valid v"
  "json_elems d s = Some (vs, r) \<Longrightarrow> \<forall>v \<in> set vs. json_valid v"
  "json_members d s = Some (ms, r) \<Longrightarrow> \<forall>(k, v) \<in> set ms. valid_utf8 k \<and> json_valid v"
proof (induction d s and d s and d s arbitrary: v r and vs r and ms r rule: json_value_json_elems_json_members.induct)
  case (2 d c s)
  consider "c = CHR ''{''" | "c = CHR ''[''" | "c \<noteq> CHR ''{''" "c \<noteq> CHR ''[''" by blast
  then show ?case
  proof cases
    case 1
    then show ?thesis using 2 by (auto split: list.splits if_splits)
  next
    case arr: 2
    then show ?thesis using 2 by (auto split: list.splits if_splits)
  next
    case 3
    then show ?thesis using "2.prems" by (auto simp: literal_def dest: valid_chars split: if_splits)
  qed
next
  case (3 d s)
  then show ?case by (auto simp: json_elems.simps [of d s] split: option.splits list.splits if_splits)
next
  case (4 d s)
  obtain c x k q e t v u g y where h: "ws s = c # x" "\<not> c \<noteq> dquote" "json_chars x = Some (k, q)" "ws q = e # t"
      "\<not> (e \<noteq> CHR '':'' \<or> length t \<ge> length s)" "json_value d (ws t) = Some (v, u)" "length u < length s" "ws u = g # y"
    using "4.prems" by (auto simp: json_members.simps [of d s] split: option.splits list.splits if_splits)
  have kv: "valid_utf8 k" "json_valid v"
    using valid_chars [OF h(3)] "4.IH"(1) [OF h(1-3) refl h(4,5,6)] by simp_all
  show ?case
  proof (cases "g = CHR ''}''")
    case True
    then show ?thesis using "4.prems" h kv by (auto simp: json_members.simps [of d s])
  next
    case False
    then obtain ms' where m: "g = CHR '',''" "json_members d y = Some (ms', r)" "ms = (k, v) # ms'"
      using "4.prems" h by (auto simp: json_members.simps [of d s] split: if_splits)
    have "\<forall>(k, v) \<in> set ms'. valid_utf8 k \<and> json_valid v"
      using "4.IH"(2) [OF h(1-3) refl h(4-6) refl h(7,8) False m(1,2)] .
    then show ?thesis using m(3) kv by simp
  qed
qed simp

lemma json_parse_valid: "json_parse s = Some v \<Longrightarrow> json_valid v"
  by (auto simp: json_parse_def dest: json_value_valid(1) split: option.splits if_splits)

end
