(* ===== verification/Json_Struct.thy ===== *)
theory Json_Struct
  imports Json_Value
begin

text \<open>
  How \<^verbatim>\<open>encoding/json\<close> fills the fields of a Go struct from an object and prints them: the name of a member
  is compared with the names in the struct tags, first exactly and then folded; unknown members are
  skipped, a later member replaces an earlier one, \<^verbatim>\<open>null\<close> leaves a field of a basic type alone, and a value of
  the wrong kind or a number that does not fit is an error. \<^verbatim>\<open>omitempty\<close> leaves out empty strings, zeros and
  \<^verbatim>\<open>false\<close>.
\<close>

section \<open>Numbers\<close>

text \<open>\<^verbatim>\<open>strconv.ParseUint\<close> and \<^verbatim>\<open>strconv.ParseInt\<close> in base 10 with the check that the value fits \<open>w\<close> bits.\<close>

definition ParseUint :: "nat \<Rightarrow> string \<Rightarrow> nat option" where
  "ParseUint w s = (if s = [] \<or> \<not> list_all is_digit s \<or> digits_val s \<ge> 2 ^ w then None else Some (digits_val s))"

definition ParseInt :: "nat \<Rightarrow> string \<Rightarrow> int option" where
  "ParseInt w s =
     (case s of
        [] \<Rightarrow> None
      | c # r \<Rightarrow>
          if c = CHR ''-'' then
            (case ParseUint 64 r of None \<Rightarrow> None | Some n \<Rightarrow> if n \<le> 2 ^ (w - 1) then Some (- int n) else None)
          else
            (case ParseUint 64 (if c = CHR ''+'' then r else s) of
               None \<Rightarrow> None
             | Some n \<Rightarrow> if n < 2 ^ (w - 1) then Some (int n) else None))"

lemma list_all_digits_show [simp]: "list_all is_digit (show_nat n)"
  using show_nat_digits by (simp add: list_all_iff)

lemma ParseUint_show: "n < 2 ^ w \<Longrightarrow> ParseUint w (show_nat n) = Some n"
  by (simp add: ParseUint_def)

definition fits :: "nat \<Rightarrow> int \<Rightarrow> bool" where
  "fits w i \<longleftrightarrow> - (2 ^ (w - 1)) \<le> i \<and> i < 2 ^ (w - 1)"

lemma ParseInt_show:
  assumes "fits w i" "0 < w" "w \<le> 64"
  shows "ParseInt w (show_int i) = Some i"
proof -
  have w: "(2::nat) ^ (w - 1) < 2 ^ 64" using assms(2,3) by (intro power_strict_increasing) simp_all
  show ?thesis
  proof (cases "i < 0")
    case True
    then have n: "nat (- i) \<le> 2 ^ (w - 1)" using assms(1) by (simp add: fits_def nat_le_iff)
    then have "ParseUint 64 (show_nat (nat (- i))) = Some (nat (- i))" using w by (intro ParseUint_show) linarith
    then show ?thesis using True n by (simp add: ParseInt_def show_int_def)
  next
    case False
    then have n: "nat i < 2 ^ (w - 1)" using assms(1) by (simp add: fits_def nat_less_iff)
    then have p: "ParseUint 64 (show_nat (nat i)) = Some (nat i)" using w by (intro ParseUint_show) linarith
    obtain c r where c: "show_nat (nat i) = c # r" using show_nat_ne_Nil by (meson neq_Nil_conv)
    have "is_digit c" using show_nat_digits [of "nat i"] c by simp
    then have "c \<noteq> CHR ''-''" "c \<noteq> CHR ''+''" by (auto simp: is_digit_def)
    then show ?thesis using False n p c by (simp add: ParseInt_def show_int_def)
  qed
qed

section \<open>Field names\<close>

text \<open>
  \<^verbatim>\<open>foldName\<close> on a member name: ASCII letters in upper case, and the two other runes that fold to an ASCII
  letter, U+017F to S and U+212A to K. Every other rune folds to one outside ASCII, which is in no field
  name of this program; it is left as it is.
\<close>

definition upper_char :: "char \<Rightarrow> char" where
  "upper_char c = (if 97 \<le> byte c \<and> byte c \<le> 122 then char_of (byte c - 32) else c)"

fun foldName :: "string \<Rightarrow> string" where
  "foldName [] = []"
| "foldName (c # s) =
     (if c = CHR 0xC5 \<and> take 1 s = [CHR 0xBF] then CHR ''S'' # foldName (drop 1 s)
      else if c = CHR 0xE2 \<and> take 2 s = [CHR 0x84, CHR 0xAA] then CHR ''K'' # foldName (drop 2 s)
      else upper_char c # foldName s)"

definition field :: "string list \<Rightarrow> string \<Rightarrow> string option" where
  "field names k = (if k \<in> set names then Some k else List.find (\<lambda>n. foldName n = foldName k) names)"

section \<open>Reading a struct\<close>

fun decode_fields :: "string list \<Rightarrow> (string \<Rightarrow> json \<Rightarrow> 'r \<Rightarrow> 'r option) \<Rightarrow> (string \<times> json) list \<Rightarrow> 'r \<Rightarrow> 'r option" where
  "decode_fields names store [] r = Some r"
| "decode_fields names store ((k, v) # ms) r =
     (case field names k of
        None \<Rightarrow> decode_fields names store ms r
      | Some n \<Rightarrow> (case store n v r of None \<Rightarrow> None | Some r' \<Rightarrow> decode_fields names store ms r'))"

definition decode_struct :: "string list \<Rightarrow> (string \<Rightarrow> json \<Rightarrow> 'r \<Rightarrow> 'r option) \<Rightarrow> 'r \<Rightarrow> json \<Rightarrow> 'r option" where
  "decode_struct names store z v =
     (case v of JNull \<Rightarrow> Some z | JObj ms \<Rightarrow> decode_fields names store ms z | _ \<Rightarrow> None)"

definition get_string :: "json \<Rightarrow> string \<Rightarrow> string option" where
  "get_string v old = (case v of JNull \<Rightarrow> Some old | JStr s \<Rightarrow> Some s | _ \<Rightarrow> None)"

definition get_int :: "nat \<Rightarrow> json \<Rightarrow> int \<Rightarrow> int option" where
  "get_int w v old = (case v of JNull \<Rightarrow> Some old | JNum lit \<Rightarrow> ParseInt w lit | _ \<Rightarrow> None)"

definition get_uint :: "nat \<Rightarrow> json \<Rightarrow> nat \<Rightarrow> nat option" where
  "get_uint w v old = (case v of JNull \<Rightarrow> Some old | JNum lit \<Rightarrow> ParseUint w lit | _ \<Rightarrow> None)"

definition get_bool :: "json \<Rightarrow> bool \<Rightarrow> bool option" where
  "get_bool v old = (case v of JNull \<Rightarrow> Some old | JBool b \<Rightarrow> Some b | _ \<Rightarrow> None)"

lemmas get_defs = get_string_def get_int_def get_uint_def get_bool_def

section \<open>Writing a struct\<close>

definition opt_string :: "string \<Rightarrow> string \<Rightarrow> (string \<times> json) list" where
  "opt_string k s = (if s = [] then [] else [(k, JStr s)])"

definition JInt :: "int \<Rightarrow> json" where
  "JInt i = JNum (show_int i)"

definition opt_int :: "string \<Rightarrow> int \<Rightarrow> (string \<times> json) list" where
  "opt_int k i = (if i = 0 then [] else [(k, JInt i)])"

definition opt_bool :: "string \<Rightarrow> bool \<Rightarrow> (string \<times> json) list" where
  "opt_bool k b = (if b then [(k, JBool True)] else [])"

definition members_ok :: "nat \<Rightarrow> (string \<times> json) list \<Rightarrow> bool" where
  "members_ok d ms \<longleftrightarrow> (\<forall>(k, v) \<in> set ms. valid_utf8 k \<and> json_ok d v)"

lemma members_ok_simps [simp]:
  "members_ok d []" "members_ok d ((k, v) # ms) \<longleftrightarrow> valid_utf8 k \<and> json_ok d v \<and> members_ok d ms"
  "members_ok d (ms @ ms') \<longleftrightarrow> members_ok d ms \<and> members_ok d ms'"
  by (auto simp: members_ok_def)

lemma members_ok_opt [simp]:
  "valid_utf8 k \<Longrightarrow> members_ok d (opt_string k s) \<longleftrightarrow> valid_utf8 s"
  "valid_utf8 k \<Longrightarrow> members_ok d (opt_int k i)"
  "valid_utf8 k \<Longrightarrow> members_ok d (opt_bool k b)"
  by (auto simp: opt_string_def opt_int_def opt_bool_def JInt_def)

lemma json_ok_obj: "json_ok d (JObj ms) \<longleftrightarrow> d < maxNestingDepth \<and> members_ok (d + 1) ms"
  by (simp add: members_ok_def)

text \<open>A member that was left out reads as the value the field starts with.\<close>

lemma decode_opt_string:
  assumes "field names k = Some k" "store k (JStr s) r = Some (upd s r)" "s = [] \<Longrightarrow> upd s r = r"
  shows "decode_fields names store (opt_string k s @ ms) r = decode_fields names store ms (upd s r)"
  using assms by (simp add: opt_string_def)

lemma decode_opt_int:
  assumes "field names k = Some k" "store k (JInt i) r = Some (upd i r)" "i = 0 \<Longrightarrow> upd i r = r"
  shows "decode_fields names store (opt_int k i @ ms) r = decode_fields names store ms (upd i r)"
  using assms by (simp add: opt_int_def)

lemma decode_opt_bool:
  assumes "field names k = Some k" "b \<Longrightarrow> store k (JBool True) r = Some (upd b r)" "\<not> b \<Longrightarrow> upd b r = r"
  shows "decode_fields names store (opt_bool k b @ ms) r = decode_fields names store ms (upd b r)"
  using assms by (simp add: opt_bool_def)

lemma get_int_show: "fits w i \<Longrightarrow> 0 < w \<Longrightarrow> w \<le> 64 \<Longrightarrow> get_int w (JInt i) old = Some i"
  by (simp add: get_int_def JInt_def ParseInt_show)

lemma get_uint_show: "n < 2 ^ w \<Longrightarrow> get_uint w (JInt (int n)) old = Some n"
  by (simp add: get_uint_def JInt_def show_int_def ParseUint_show)

lemma get_uint_word: "get_uint 32 (JInt (uint (n :: u32))) old = Some (unat n)"
  using get_uint_show [of "unat n" 32] unsigned_less [of n] by simp

text \<open>Member names without regard to case.\<close>

lemma field_exact: "k \<in> set names \<Longrightarrow> field names k = Some k"
  by (simp add: field_def)

text \<open>A property that every store keeps holds of what is decoded.\<close>

lemma decode_fields_inv:
  assumes "decode_fields names store ms r = Some r'" "\<forall>(k, v) \<in> set ms. valid_utf8 k \<and> json_valid v" "I r"
    "\<And>n v r r'. store n v r = Some r' \<Longrightarrow> json_valid v \<Longrightarrow> I r \<Longrightarrow> I r'"
  shows "I r'"
  using assms(1-3)
proof (induction ms arbitrary: r)
  case (Cons m ms)
  then show ?case using assms(4) by (cases m) (fastforce split: option.splits)
qed simp

lemma decode_struct_inv:
  assumes "decode_struct names store z v = Some r" "json_valid v" "I z"
    "\<And>n v r r'. store n v r = Some r' \<Longrightarrow> json_valid v \<Longrightarrow> I r \<Longrightarrow> I r'"
  shows "I r"
  using assms decode_fields_inv [of names store _ z r I] by (auto simp: decode_struct_def split: json.splits)

lemma ParseInt_fits: "ParseInt w s = Some i \<Longrightarrow> fits w i"
proof -
  assume "ParseInt w s = Some i"
  then obtain n where "n \<le> 2 ^ (w - 1) \<and> i = - int n \<or> n < 2 ^ (w - 1) \<and> i = int n"
    by (auto simp: ParseInt_def split: list.splits if_splits option.splits)
  then show ?thesis
  proof (elim disjE conjE)
    assume n: "n \<le> 2 ^ (w - 1)" "i = - int n"
    have "int n \<le> 2 ^ (w - 1)" using n(1) by (metis of_nat_le_iff of_nat_numeral of_nat_power)
    moreover have "(0 :: int) < 2 ^ (w - 1)" by simp
    ultimately show ?thesis using n(2) unfolding fits_def by linarith
  next
    assume n: "n < 2 ^ (w - 1)" "i = int n"
    have "int n < 2 ^ (w - 1)" using n(1) by (metis of_nat_less_iff of_nat_numeral of_nat_power)
    moreover have "(0 :: int) < 2 ^ (w - 1)" by simp
    ultimately show ?thesis using n(2) unfolding fits_def by linarith
  qed
qed

lemma get_string_valid: "get_string v old = Some s \<Longrightarrow> json_valid v \<Longrightarrow> valid_utf8 old \<Longrightarrow> valid_utf8 s"
  by (auto simp: get_string_def split: json.splits)

lemma get_int_fits: "get_int w v old = Some i \<Longrightarrow> fits w old \<Longrightarrow> fits w i"
  by (auto simp: get_int_def split: json.splits dest: ParseInt_fits)

end
