(* ===== verification/Proto_Json.thy ===== *)
theory Proto_Json
  imports Proto Json_Struct
begin

text \<open>
  \<^verbatim>\<open>Encode\<close> and \<^verbatim>\<open>Decode\<close> of \<^verbatim>\<open>internal/proto/proto.go\<close>: a message as a JSON object with the names and the
  \<^verbatim>\<open>omitempty\<close> options of the struct tags, in the order of the fields.
\<close>

definition of_bytes :: "bytes \<Rightarrow> string" where
  "of_bytes b = map (\<lambda>w. char_of (unat w)) b"

lemma of_to_bytes [simp]: "of_bytes (to_bytes s) = s"
proof -
  have "char_of (unat (word_of_nat (of_char c) :: u8)) = c" for c using of_char_less_256 [of c]
    by (simp add: unat_of_nat take_bit_eq_mod)
  then show ?thesis by (simp add: of_bytes_def to_bytes_def map_idI)
qed

lemma byte_b64_char: "byte (b64_char n) < 128"
  by (auto simp: b64_char_def byte_def)

lemma ascii_EncodeToString [simp]: "ascii (EncodeToString b)"
  unfolding EncodeToString_def by (induction b rule: b64_encode.induct) (simp_all add: byte_b64_char Let_def)

lemma valid_EncodeToString [simp]: "valid_utf8 (EncodeToString b)"
  by (rule ascii_valid) simp

lemma valid_show_int [simp]: "valid_utf8 (show_int i)"
  by (rule ascii_valid) simp

section \<open>The codec\<close>

definition message_members :: "message \<Rightarrow> (string \<times> json) list" where
  "message_members m =
     [(''kind'', JStr (m_Kind m))] @ opt_string ''name'' (m_Name m) @ opt_string ''target'' (m_Target m) @
     opt_string ''pubkey'' (m_PubKey m) @ opt_string ''endpoint'' (m_Endpoint m) @ opt_int ''ts'' (m_TS m) @
     opt_string ''nonce'' (m_Nonce m) @ opt_string ''sig'' (m_Sig m) @ opt_string ''info'' (m_Info m) @
     opt_string ''eph'' (m_EphPub m) @ opt_string ''nonce_b'' (m_NonceB m) @ opt_string ''zone'' (m_Zone m) @
     opt_string ''ns_path'' (m_NsPath m) @ opt_string ''path_sig'' (m_PathSig m) @ []"

definition Encode :: "message \<Rightarrow> bytes" where
  "Encode m = to_bytes (json_print (JObj (message_members m)))"

definition message_fields :: "string list" where
  "message_fields = [''kind'', ''name'', ''target'', ''pubkey'', ''endpoint'', ''ts'', ''nonce'', ''sig'', ''info'',
     ''eph'', ''nonce_b'', ''zone'', ''ns_path'', ''path_sig'']"

definition message_store :: "string \<Rightarrow> json \<Rightarrow> message \<Rightarrow> message option" where
  "message_store n v m =
     (if n = ''kind'' then map_option (\<lambda>s. m\<lparr>m_Kind := s\<rparr>) (get_string v (m_Kind m))
      else if n = ''name'' then map_option (\<lambda>s. m\<lparr>m_Name := s\<rparr>) (get_string v (m_Name m))
      else if n = ''target'' then map_option (\<lambda>s. m\<lparr>m_Target := s\<rparr>) (get_string v (m_Target m))
      else if n = ''pubkey'' then map_option (\<lambda>s. m\<lparr>m_PubKey := s\<rparr>) (get_string v (m_PubKey m))
      else if n = ''endpoint'' then map_option (\<lambda>s. m\<lparr>m_Endpoint := s\<rparr>) (get_string v (m_Endpoint m))
      else if n = ''ts'' then map_option (\<lambda>i. m\<lparr>m_TS := i\<rparr>) (get_int 64 v (m_TS m))
      else if n = ''nonce'' then map_option (\<lambda>s. m\<lparr>m_Nonce := s\<rparr>) (get_string v (m_Nonce m))
      else if n = ''sig'' then map_option (\<lambda>s. m\<lparr>m_Sig := s\<rparr>) (get_string v (m_Sig m))
      else if n = ''info'' then map_option (\<lambda>s. m\<lparr>m_Info := s\<rparr>) (get_string v (m_Info m))
      else if n = ''eph'' then map_option (\<lambda>s. m\<lparr>m_EphPub := s\<rparr>) (get_string v (m_EphPub m))
      else if n = ''nonce_b'' then map_option (\<lambda>s. m\<lparr>m_NonceB := s\<rparr>) (get_string v (m_NonceB m))
      else if n = ''zone'' then map_option (\<lambda>s. m\<lparr>m_Zone := s\<rparr>) (get_string v (m_Zone m))
      else if n = ''ns_path'' then map_option (\<lambda>s. m\<lparr>m_NsPath := s\<rparr>) (get_string v (m_NsPath m))
      else map_option (\<lambda>s. m\<lparr>m_PathSig := s\<rparr>) (get_string v (m_PathSig m)))"

definition Decode :: "bytes \<Rightarrow> message option" where
  "Decode b =
     (case json_parse (of_bytes b) of
        None \<Rightarrow> None
      | Some v \<Rightarrow> decode_struct message_fields message_store Message0 v)"

section \<open>Round trip\<close>

text \<open>Messages that the codec carries unchanged: strings of valid UTF-8 and a time stamp of 64 bits.\<close>

definition wire_message :: "message \<Rightarrow> bool" where
  "wire_message m \<longleftrightarrow> valid_utf8 (m_Kind m) \<and> valid_utf8 (m_Name m) \<and> valid_utf8 (m_Target m) \<and> valid_utf8 (m_PubKey m) \<and>
     valid_utf8 (m_Endpoint m) \<and> fits 64 (m_TS m) \<and> valid_utf8 (m_Nonce m) \<and> valid_utf8 (m_Sig m) \<and> valid_utf8 (m_Info m) \<and>
     valid_utf8 (m_EphPub m) \<and> valid_utf8 (m_NonceB m) \<and> valid_utf8 (m_Zone m) \<and> valid_utf8 (m_NsPath m) \<and> valid_utf8 (m_PathSig m)"

lemma message_json_ok: "wire_message m \<Longrightarrow> json_ok 0 (JObj (message_members m))"
  by (simp del: json_ok.simps(6) add: json_ok_obj message_members_def wire_message_def maxNestingDepth_def)

lemma message_steps:
  fixes r :: message
  shows
  "m_Name r = '''' \<Longrightarrow> decode_fields message_fields message_store (opt_string ''name'' s @ ms) r = decode_fields message_fields message_store ms (r\<lparr>m_Name := s\<rparr>)"
  "m_Target r = '''' \<Longrightarrow> decode_fields message_fields message_store (opt_string ''target'' s @ ms) r = decode_fields message_fields message_store ms (r\<lparr>m_Target := s\<rparr>)"
  "m_PubKey r = '''' \<Longrightarrow> decode_fields message_fields message_store (opt_string ''pubkey'' s @ ms) r = decode_fields message_fields message_store ms (r\<lparr>m_PubKey := s\<rparr>)"
  "m_Endpoint r = '''' \<Longrightarrow> decode_fields message_fields message_store (opt_string ''endpoint'' s @ ms) r = decode_fields message_fields message_store ms (r\<lparr>m_Endpoint := s\<rparr>)"
  "m_Nonce r = '''' \<Longrightarrow> decode_fields message_fields message_store (opt_string ''nonce'' s @ ms) r = decode_fields message_fields message_store ms (r\<lparr>m_Nonce := s\<rparr>)"
  "m_Sig r = '''' \<Longrightarrow> decode_fields message_fields message_store (opt_string ''sig'' s @ ms) r = decode_fields message_fields message_store ms (r\<lparr>m_Sig := s\<rparr>)"
  "m_Info r = '''' \<Longrightarrow> decode_fields message_fields message_store (opt_string ''info'' s @ ms) r = decode_fields message_fields message_store ms (r\<lparr>m_Info := s\<rparr>)"
  "m_EphPub r = '''' \<Longrightarrow> decode_fields message_fields message_store (opt_string ''eph'' s @ ms) r = decode_fields message_fields message_store ms (r\<lparr>m_EphPub := s\<rparr>)"
  "m_NonceB r = '''' \<Longrightarrow> decode_fields message_fields message_store (opt_string ''nonce_b'' s @ ms) r = decode_fields message_fields message_store ms (r\<lparr>m_NonceB := s\<rparr>)"
  "m_Zone r = '''' \<Longrightarrow> decode_fields message_fields message_store (opt_string ''zone'' s @ ms) r = decode_fields message_fields message_store ms (r\<lparr>m_Zone := s\<rparr>)"
  "m_NsPath r = '''' \<Longrightarrow> decode_fields message_fields message_store (opt_string ''ns_path'' s @ ms) r = decode_fields message_fields message_store ms (r\<lparr>m_NsPath := s\<rparr>)"
  "m_PathSig r = '''' \<Longrightarrow> decode_fields message_fields message_store (opt_string ''path_sig'' s @ ms) r = decode_fields message_fields message_store ms (r\<lparr>m_PathSig := s\<rparr>)"
  "m_TS r = 0 \<Longrightarrow> fits 64 i \<Longrightarrow> decode_fields message_fields message_store (opt_int ''ts'' i @ ms) r = decode_fields message_fields message_store ms (r\<lparr>m_TS := i\<rparr>)"
  by (cases r; simp add: opt_string_def opt_int_def field_def message_fields_def message_store_def get_string_def get_int_show)+

lemma decode_members:
  assumes "fits 64 (m_TS m)"
  shows "decode_fields message_fields message_store (message_members m) Message0 = Some m"
proof -
  have "field message_fields ''kind'' = Some ''kind''" by (simp add: field_def message_fields_def)
  then have k: "decode_fields message_fields message_store ((''kind'', JStr s) # ms) r = decode_fields message_fields message_store ms (r\<lparr>m_Kind := s\<rparr>)" for s ms r
    by (simp add: message_store_def get_string_def)
  show ?thesis unfolding message_members_def using assms by (simp add: k message_steps Message0_def del: append_Nil2 decode_fields.simps(2))
qed

lemma Decode_Encode: "wire_message m \<Longrightarrow> Decode (Encode m) = Some m"
  using json_parse_print [OF message_json_ok] decode_members [of m]
  by (simp add: Decode_def Encode_def decode_struct_def wire_message_def)

interpretation message_wire: wire_codec wire_message Encode Decode
  by unfold_locales (rule Decode_Encode)

text \<open>An encoded message starts with a brace, which no sealed frame does.\<close>

lemma Encode_brace: "\<exists>r. Encode m = 0x7B # r"
  by (simp add: Encode_def to_bytes_def)

text \<open>Whatever is decoded is a message that the codec carries unchanged.\<close>

lemma message_store_wire: "message_store n v m = Some m' \<Longrightarrow> json_valid v \<Longrightarrow> wire_message m \<Longrightarrow> wire_message m'"
  unfolding message_store_def by (auto split: if_splits simp: wire_message_def intro: get_string_valid get_int_fits)

lemma Decode_wire: "Decode b = Some m \<Longrightarrow> wire_message m"
proof -
  assume "Decode b = Some m"
  then obtain v where v: "json_parse (of_bytes b) = Some v" "decode_struct message_fields message_store Message0 v = Some m"
    by (auto simp: Decode_def split: option.splits)
  have "wire_message Message0" by (simp add: wire_message_def Message0_def fits_def)
  from decode_struct_inv [where I = wire_message, OF v(2) json_parse_valid [OF v(1)] this message_store_wire] show ?thesis .
qed

section \<open>Property\<close>

text \<open>C19. The codec of messages: a message survives \<^verbatim>\<open>Encode\<close> and \<^verbatim>\<open>Decode\<close> exactly when its strings are valid UTF-8 and its
  time stamp fits 64 bits; every message that \<^verbatim>\<open>Decode\<close> returns, from whatever bytes, is one of these; and what
  \<^verbatim>\<open>Encode\<close> writes starts with a brace, by which the agent tells it from a sealed frame.\<close>

theorem message_roundtrip:
  "(Decode (Encode m) = Some m \<longleftrightarrow> wire_message m) \<and> (Decode b = Some m' \<longrightarrow> Decode (Encode m') = Some m') \<and>
   (\<exists>r. Encode m = 0x7B # r)"
  using Decode_Encode Decode_wire Encode_brace by blast

theorem message_roundtrip_witness:
  "\<exists>m'. Decode (to_bytes (''{'' @ json_string ''Kind'' @ '':'' @ json_string ''PING'' @ '', '' @ json_string ''x'' @ '':[1]}'')) = Some m' \<and>
     m_Kind m' = ''PING'' \<and> Decode (Encode m') = Some m'"
proof -
  let ?b = "to_bytes (''{'' @ json_string ''Kind'' @ '':'' @ json_string ''PING'' @ '', '' @ json_string ''x'' @ '':[1]}'')"
  have d: "Decode ?b = Some (Message0\<lparr>m_Kind := ''PING''\<rparr>)" by code_simp
  from message_roundtrip [of Message0 ?b "Message0\<lparr>m_Kind := ''PING''\<rparr>"] show ?thesis using d by simp
qed

end
