(* ===== verification/Zone.thy ===== *)
theory Zone
  imports Go_Text
begin

text \<open>
  \<^verbatim>\<open>internal/zone/zone.go\<close>: containment of names in zones, the rule that a delegation may only
  narrow, and the interface the resolver relies on, in which a chain of referrals towards one
  name is bounded by the depth of that name.
\<close>

section \<open>Definitions\<close>

definition Normalise :: "string \<Rightarrow> string" where
  "Normalise s = TrimSuffix (ToLower (TrimSpace s)) ''.''"

definition Contains :: "string \<Rightarrow> string \<Rightarrow> bool" where
  "Contains zoneName name =
     (let z = Normalise zoneName; n = Normalise name
      in if z = '''' \<or> n = '''' then False
         else if n = z then True
         else HasSuffix n (''.'' @ z))"

definition IsNarrower :: "string \<Rightarrow> string \<Rightarrow> bool" where
  "IsNarrower child parent =
     (let c = Normalise child; p = Normalise parent
      in if c = '''' \<or> p = '''' \<or> c = p then False
         else HasSuffix c (''.'' @ p))"

definition zone_Depth :: "string \<Rightarrow> nat" where
  "zone_Depth zoneName =
     (let z = Normalise zoneName
      in if z = '''' then 0 else length (filter (\<lambda>c. c = CHR ''.'') z) + 1)"

fun after_dot :: "string \<Rightarrow> string" where
  "after_dot [] = ''''"
| "after_dot (c # s) = (if c = CHR ''.'' then s else after_dot s)"

definition Parent :: "string \<Rightarrow> string" where
  "Parent zoneName = after_dot (Normalise zoneName)"

section \<open>Labels\<close>

abbreviation zone_labels :: "string \<Rightarrow> string list" where
  "zone_labels z \<equiv> Split CHR ''.'' (Normalise z)"

lemma Split_dot_append: "Split d (u @ d # s) = Split d u @ Split d s"
  by (induction u) (auto split: list.splits)

lemma HasSuffix_labels:
  assumes "n \<noteq> z"
  shows "HasSuffix n (''.'' @ z) \<longleftrightarrow> (\<exists>ls. ls \<noteq> [] \<and> Split CHR ''.'' n = ls @ Split CHR ''.'' z)"
proof
  assume "HasSuffix n (''.'' @ z)"
  then obtain u where "n = u @ CHR ''.'' # z" by (auto simp: HasSuffix_iff)
  then show "\<exists>ls. ls \<noteq> [] \<and> Split CHR ''.'' n = ls @ Split CHR ''.'' z"
    by (intro exI [of _ "Split CHR ''.'' u"]) (simp add: Split_dot_append)
next
  assume "\<exists>ls. ls \<noteq> [] \<and> Split CHR ''.'' n = ls @ Split CHR ''.'' z"
  then obtain ls where ls: "ls \<noteq> []" "Split CHR ''.'' n = ls @ Split CHR ''.'' z" by blast
  have "n = Join ''.'' (ls @ Split CHR ''.'' z)" using Join_Split [of "CHR ''.''" n] ls(2) by simp
  also have "\<dots> = Join ''.'' ls @ ''.'' @ z" using ls(1) by (simp add: Join_append Join_Split)
  finally show "HasSuffix n (''.'' @ z)" unfolding HasSuffix_iff by blast
qed

lemma Contains_labels:
  "Contains z n \<longleftrightarrow> Normalise z \<noteq> '''' \<and> Normalise n \<noteq> '''' \<and> suffix (zone_labels z) (zone_labels n)"
proof (cases "Normalise n = Normalise z")
  case False
  have "zone_labels n \<noteq> zone_labels z" using False Join_Split [of "CHR ''.''"] by metis
  then show ?thesis using False HasSuffix_labels [OF False] by (auto simp: Contains_def Let_def suffix_def)
qed (auto simp: Contains_def)

lemma IsNarrower_labels:
  "IsNarrower c p \<longleftrightarrow> Normalise c \<noteq> '''' \<and> Normalise p \<noteq> '''' \<and> strict_suffix (zone_labels p) (zone_labels c)"
proof (cases "Normalise c = Normalise p")
  case False
  have "zone_labels c \<noteq> zone_labels p" using False Join_Split [of "CHR ''.''"] by metis
  then show ?thesis using False HasSuffix_labels [OF False]
    by (auto simp: IsNarrower_def Let_def strict_suffix_def suffix_def)
qed (auto simp: IsNarrower_def)

lemma zone_Depth_labels: "zone_Depth z = (if Normalise z = '''' then 0 else length (zone_labels z))"
  by (simp add: zone_Depth_def Let_def length_Split)

lemma IsNarrower_Contains: "IsNarrower c p \<longleftrightarrow> Contains p c \<and> Normalise c \<noteq> Normalise p"
  by (auto simp: IsNarrower_def Contains_def Let_def)

lemma Contains_refl: "Normalise z \<noteq> '''' \<Longrightarrow> Contains z z"
  by (simp add: Contains_def)

lemma Contains_trans: "Contains a b \<Longrightarrow> Contains b c \<Longrightarrow> Contains a c"
  unfolding Contains_labels using suffix_order.order_trans by blast

lemma IsNarrower_trans: "IsNarrower a b \<Longrightarrow> IsNarrower b c \<Longrightarrow> IsNarrower a c"
  unfolding IsNarrower_labels using suffix_order.less_trans by blast

lemma Contains_comparable: "Contains y n \<Longrightarrow> Contains z n \<Longrightarrow> Contains y z \<or> Contains z y"
  unfolding Contains_labels by (metis suffix_same_cases)

lemma IsNarrower_depth: "IsNarrower c p \<Longrightarrow> zone_Depth p < zone_Depth c"
  by (auto simp: IsNarrower_labels zone_Depth_labels dest: suffix_length_less)

lemma Contains_depth: "Contains z n \<Longrightarrow> zone_Depth z \<le> zone_Depth n"
  by (auto simp: Contains_labels zone_Depth_labels dest: suffix_length_le)

lemma Split_after_dot: "Split CHR ''.'' s = w # v # ws \<Longrightarrow> Split CHR ''.'' (after_dot s) = v # ws"
  by (induction s arbitrary: w) (auto split: list.splits if_splits)

text \<open>The parent of a zone of two or more labels is the zone without its first label.\<close>

lemma Parent_narrower:
  assumes "zone_labels z = w # v # ws" "Normalise (Parent z) = Parent z" "Parent z \<noteq> ''''"
  shows "IsNarrower z (Parent z) \<and> zone_Depth z = Suc (zone_Depth (Parent z))"
proof -
  have l: "zone_labels (Parent z) = v # ws"
    unfolding assms(2) unfolding Parent_def by (rule Split_after_dot [OF assms(1)])
  have "Normalise z \<noteq> ''''" using assms(1) by auto
  then show ?thesis
    using l assms by (simp add: IsNarrower_labels zone_Depth_labels strict_suffix_def suffix_def)
qed

section \<open>Interface: bounded delegation\<close>

text \<open>
  What a resolver relies on when it follows referrals: a narrower zone lies inside the wider one
  and is deeper, and no zone that contains a name is deeper than the name.
\<close>

fun narrowing :: "('z \<Rightarrow> 'z \<Rightarrow> bool) \<Rightarrow> 'z list \<Rightarrow> bool" where
  "narrowing nar [] = True"
| "narrowing nar [z] = True"
| "narrowing nar (z # y # zs) = (nar y z \<and> narrowing nar (y # zs))"

locale delegation_order =
  fixes contains :: "'z \<Rightarrow> 'z \<Rightarrow> bool"
    and narrower :: "'z \<Rightarrow> 'z \<Rightarrow> bool"
    and depth :: "'z \<Rightarrow> nat"
  assumes narrower_depth: "narrower c p \<Longrightarrow> depth p < depth c"
    and contains_depth: "contains z n \<Longrightarrow> depth z \<le> depth n"
    and narrower_inside: "narrower c p \<Longrightarrow> contains c n \<Longrightarrow> contains p n"
begin

lemma chain_depth: "narrowing narrower (z # zs) \<Longrightarrow> depth z + length zs \<le> depth (last (z # zs))"
proof (induction zs arbitrary: z)
  case (Cons y zs)
  then have "narrower y z" "depth y + length zs \<le> depth (last (y # zs))" by auto
  then show ?case using narrower_depth [of y z] by simp
qed simp

lemma chain_bound:
  assumes "narrowing narrower (z # zs)" "contains (last (z # zs)) n"
  shows "depth z + length zs \<le> depth n"
  using chain_depth [OF assms(1)] contains_depth [OF assms(2)] by (rule le_trans)

lemma chain_inside: "narrowing narrower (z # zs) \<Longrightarrow> contains (last (z # zs)) n \<Longrightarrow> contains z n"
proof (induction zs arbitrary: z)
  case (Cons y zs)
  then show ?case using narrower_inside [of y z n] by auto
qed simp

end

interpretation zones: delegation_order Contains IsNarrower zone_Depth
  by unfold_locales (auto simp: IsNarrower_depth Contains_depth IsNarrower_Contains intro: Contains_trans)

section \<open>Properties\<close>

text \<open>C39. Containment is label by label: a name lies in a zone exactly when the labels of the zone
  are the last labels of the name, so a name that merely ends with the zone's characters is not
  in it. A zone is narrower than another exactly when it is contained in it and not the same.\<close>

theorem zone_containment_labelwise:
  "(Contains z n \<longleftrightarrow> Normalise z \<noteq> '''' \<and> Normalise n \<noteq> '''' \<and> suffix (zone_labels z) (zone_labels n)) \<and>
   (IsNarrower z n \<longleftrightarrow> Contains n z \<and> Normalise z \<noteq> Normalise n)"
  using Contains_labels IsNarrower_Contains by blast

text \<open>Delegation can only go down: a zone narrower than \<open>p\<close> is deeper than \<open>p\<close>, what it contains
  \<open>p\<close> contains, and narrowing twice is narrowing; no zone is narrower than itself.\<close>

theorem zone_narrowing_order:
  "(IsNarrower c p \<longrightarrow> zone_Depth p < zone_Depth c \<and> (\<forall>n. Contains c n \<longrightarrow> Contains p n)) \<and>
   (IsNarrower c b \<longrightarrow> IsNarrower b p \<longrightarrow> IsNarrower c p) \<and> \<not> IsNarrower p p"
  using IsNarrower_depth [of c p] IsNarrower_trans [of c b p] zones.narrower_inside [of c p] IsNarrower_Contains [of p p] by blast

theorem zone_narrowing_order_witness:
  "IsNarrower ''eng.Example.com.'' ''example.com'' \<and> zone_Depth ''example.com'' < zone_Depth ''eng.Example.com.'' \<and>
   \<not> Contains ''dnxroute.com'' ''evil-dnxroute.com''"
proof -
  have "IsNarrower ''eng.Example.com.'' ''example.com''" "\<not> Contains ''dnxroute.com'' ''evil-dnxroute.com''"
    by code_simp+
  then show ?thesis using zone_narrowing_order [of "''eng.Example.com.''" "''example.com''"] by blast
qed

end
