(* ===== verification/Ns_Persist.thy ===== *)
theory Ns_Persist
  imports Ns_Laws "HOL-Library.List_Lexorder" "HOL-Library.Char_ord"
begin

text \<open>
  \<^verbatim>\<open>internal/nspath/persist.go\<close>: enumeration, snapshot and restore of the allocation tree. A
  snapshot is the value that the Go code hands to \<^verbatim>\<open>json.MarshalIndent\<close>; iteration over a Go map is
  iteration over the association list. The recursion of \<open>pack\<close> and \<open>walk_from\<close> follows children at
  larger addresses, which are all the children there are in a tree built by the operations
  (\<open>node_ok\<close>). The last part shows that a restart loses nothing: restoring a snapshot gives a tree
  with the same names, identifiers and counters.
\<close>

section \<open>Walk\<close>

record entry =
  en_Name :: string
  en_Path :: path

abbreviation kids :: "heap \<Rightarrow> nat \<Rightarrow> (string \<times> nat) list" where
  "kids h a \<equiv> filter (\<lambda>(l, c). a < c \<and> c < length h) (nd_children (h ! a))"

function walk_from :: "heap \<Rightarrow> nat \<Rightarrow> string list \<Rightarrow> path \<Rightarrow> entry list" where
  "walk_from h a labels p =
     (let labels' = (if nd_label (h ! a) \<noteq> '''' then labels @ [nd_label (h ! a)] else labels);
          p' = (if nd_label (h ! a) \<noteq> '''' then p @ [nd_nid (h ! a)] else p)
      in (if nd_label (h ! a) \<noteq> '''' then [\<lparr>en_Name = Join ''.'' (rev labels'), en_Path = p'\<rparr>] else [])
         @ concat (map (\<lambda>(l, c). walk_from h c labels' p') (kids h a)))"
  by pat_completeness auto
termination
  by (relation "measure (\<lambda>(h, a, ls, p). length h - a)") auto

declare walk_from.simps [simp del]

definition Walk :: "tree \<Rightarrow> entry list" where
  "Walk t = sort_key en_Name (walk_from (t_heap t) (t_root t) [] [])"

section \<open>Snapshot and Restore\<close>

datatype snapNode = SnapNode (sn_NID: u32) (sn_Next: u32) (sn_Children: "(string \<times> snapNode) list")

function pack :: "heap \<Rightarrow> nat \<Rightarrow> snapNode" where
  "pack h a = SnapNode (nd_nid (h ! a)) (nd_nextNID (h ! a)) (map (\<lambda>(l, c). (l, pack h c)) (kids h a))"
  by pat_completeness auto
termination
  by (relation "measure (\<lambda>(h, a). length h - a)") auto

declare pack.simps [simp del]

definition Snapshot :: "tree \<Rightarrow> snapNode" where
  "Snapshot t = pack (t_heap t) (t_root t)"

datatype snap_error = SnapTooDeep | ReservedNID string | DuplicateNID u32 | CounterBehind string

fun unpack :: "string \<Rightarrow> snapNode \<Rightarrow> nat \<Rightarrow> heap \<Rightarrow> snap_error + nat \<times> heap"
  and unpack_children :: "nat \<Rightarrow> (string \<times> snapNode) list \<Rightarrow> nat \<Rightarrow> heap \<Rightarrow> snap_error + heap" where
  "unpack label (SnapNode nid nxt cs) depth h =
     (if depth > MaxDepth then Inl SnapTooDeep
      else let n = length h;
               node = newNode label nid;
               h1 = h @ [if nxt > 0 then node\<lparr>nd_nextNID := nxt\<rparr> else node]
           in case unpack_children n cs depth h1 of
                Inl e \<Rightarrow> Inl e
              | Inr h2 \<Rightarrow> Inr (n, h2))"
| "unpack_children n [] depth h = Inr h"
| "unpack_children n ((l, s) # cs) depth h =
     (case unpack l s (depth + 1) h of
        Inl e \<Rightarrow> Inl e
      | Inr (c, h1) \<Rightarrow>
          if nd_nid (h1 ! c) = 0 then Inl (ReservedNID l)
          else if map_of (nd_byNID (h1 ! n)) (nd_nid (h1 ! c)) \<noteq> None then Inl (DuplicateNID (nd_nid (h1 ! c)))
          else if nd_nid (h1 ! c) \<ge> nd_nextNID (h1 ! n) then Inl (CounterBehind l)
          else unpack_children n cs depth
                 (h1[n := (h1 ! n)\<lparr>nd_children := AList.update l c (nd_children (h1 ! n)),
                                   nd_byNID := AList.update (nd_nid (h1 ! c)) c (nd_byNID (h1 ! n))\<rparr>]))"

definition Restore :: "snapNode \<Rightarrow> snap_error + tree" where
  "Restore root =
     (case unpack '''' root 0 [] of
        Inl e \<Rightarrow> Inl e
      | Inr (r, h) \<Rightarrow> Inr \<lparr>t_heap = h, t_root = r\<rparr>)"

section \<open>The snapshot as an abstraction of the tree\<close>

fun snap_resolve :: "snapNode \<Rightarrow> string list \<Rightarrow> path \<Rightarrow> ns_error + path" where
  "snap_resolve s [] acc = Inr acc"
| "snap_resolve s (l # ls) acc =
     (case map_of (sn_Children s) l of
        None \<Rightarrow> Inl ErrNotAllocated
      | Some c \<Rightarrow> snap_resolve c ls (acc @ [sn_NID c]))"

lemma kids_all:
  assumes "heap_inv h" "a < length h"
  shows "kids h a = nd_children (h ! a)"
proof -
  have ok: "node_ok h a" using assms by (rule heap_inv_node)
  have "a < c \<and> c < length h" if "(l, c) \<in> set (nd_children (h ! a))" for l c
  proof -
    have "child_at h a l = Some c" using that ok by (simp add: node_ok_def map_of_is_SomeI)
    then show ?thesis using node_okD [OF ok] by blast
  qed
  then show ?thesis by (intro filter_True) auto
qed

lemma map_of_map_pack: "map_of (map (\<lambda>(l, c). (l, f c)) m) l = map_option f (map_of m l)"
  by (induction m) auto

lemma resolve_pack:
  assumes "heap_inv h" "a < length h"
  shows "resolve_from ls a acc h = snap_resolve (pack h a) ls acc"
  using assms
proof (induction ls arbitrary: a acc)
  case (Cons l ls)
  have ch: "map_of (sn_Children (pack h a)) l = map_option (pack h) (child_at h a l)"
    using kids_all [OF Cons.prems] by (simp add: pack.simps [of h a] map_of_map_pack)
  show ?case
  proof (cases "child_at h a l")
    case (Some c)
    have "c < length h" using node_okD(2) [OF heap_inv_node [OF Cons.prems] Some] .
    moreover have "sn_NID (pack h c) = nd_nid (h ! c)" by (subst pack.simps) simp
    ultimately show ?thesis using Cons.IH Cons.prems ch Some by simp
  qed (use ch in simp)
qed simp

lemma Resolve_Snapshot:
  assumes "tree_inv t"
  shows "Resolve t n = (if splitName n = [] then Inl ErrEmpty else snap_resolve (Snapshot t) (splitName n) [])"
  using assms resolve_pack by (simp add: Resolve_def Snapshot_def tree_inv_def Let_def)

section \<open>Restoring a snapshot\<close>

text \<open>What makes a snapshot acceptable: live counters, distinct labels, and distinct non-zero
  identifiers below the counter, all the way down.\<close>

fun snap_ok :: "snapNode \<Rightarrow> bool" where
  "snap_ok (SnapNode nid nxt cs) \<longleftrightarrow> nxt > 0 \<and> distinct (map fst cs) \<and> distinct (map (\<lambda>p. sn_NID (snd p)) cs) \<and>
     (\<forall>p \<in> set cs. sn_NID (snd p) \<noteq> 0 \<and> sn_NID (snd p) < nxt \<and> snap_ok (snd p))"

fun snap_depth :: "snapNode \<Rightarrow> nat" where
  "snap_depth (SnapNode nid nxt cs) = fold max (map (\<lambda>p. Suc (snap_depth (snd p))) cs) 0"

lemma fold_max_le: "(fold max xs a \<le> (b :: nat)) \<longleftrightarrow> a \<le> b \<and> (\<forall>x \<in> set xs. x \<le> b)"
  by (induction xs arbitrary: a) auto

text \<open>A region of the heap whose edges stay inside it, and the part of \<open>pack\<close> that depends on it alone.\<close>

definition region :: "heap \<Rightarrow> nat \<Rightarrow> nat \<Rightarrow> bool" where
  "region h a z \<longleftrightarrow> a < z \<and> z \<le> length h \<and> (\<forall>b l c. a \<le> b \<and> b < z \<and> (l, c) \<in> set (nd_children (h ! b)) \<longrightarrow> b < c \<and> c < z)"

lemma region_edge: "region h a z \<Longrightarrow> a \<le> b \<Longrightarrow> b < z \<Longrightarrow> (l, c) \<in> set (nd_children (h ! b)) \<Longrightarrow> b < c \<and> c < z"
  unfolding region_def by blast

lemma region_bounds: "region h a z \<Longrightarrow> a < z \<and> z \<le> length h"
  by (simp add: region_def)

lemma regionI:
  "a < z \<Longrightarrow> z \<le> length h \<Longrightarrow> (\<And>b l c. a \<le> b \<Longrightarrow> b < z \<Longrightarrow> (l, c) \<in> set (nd_children (h ! b)) \<Longrightarrow> b < c \<and> c < z) \<Longrightarrow> region h a z"
  unfolding region_def by blast

lemma region_sub: "region h a z \<Longrightarrow> a \<le> b \<Longrightarrow> b < z \<Longrightarrow> region h b z"
  using region_bounds region_edge le_trans by (intro regionI) blast+

lemma region_agree:
  assumes "region h a z" "z \<le> length h'" "\<And>b. a \<le> b \<Longrightarrow> b < z \<Longrightarrow> nd_children (h' ! b) = nd_children (h ! b)"
  shows "region h' a z"
proof (rule regionI)
  fix b l c assume "a \<le> b" "b < z" "(l, c) \<in> set (nd_children (h' ! b))"
  then show "b < c \<and> c < z" using region_edge [OF assms(1)] assms(3) by metis
qed (use region_bounds [OF assms(1)] assms(2) in simp_all)

lemma region_kids:
  assumes "region h a z"
  shows "kids h a = nd_children (h ! a)"
proof (rule filter_True, rule ballI)
  fix p assume "p \<in> set (nd_children (h ! a))"
  then have "a < snd p \<and> snd p < z" using region_edge [OF assms, of a "fst p" "snd p"] region_bounds [OF assms] by simp
  then show "case p of (l, c) \<Rightarrow> a < c \<and> c < length h" using region_bounds [OF assms] by (cases p) simp
qed

lemma pack_region:
  assumes "region h a z" "region h' a z" "\<forall>b. a \<le> b \<and> b < z \<longrightarrow> h' ! b = h ! b"
  shows "pack h' a = pack h a"
  using assms
proof (induction "z - a" arbitrary: a rule: less_induct)
  case less
  have ha: "h' ! a = h ! a" using less.prems(1) less.prems(3) [rule_format, of a] region_bounds by blast
  have k: "kids h' a = kids h a" "kids h a = nd_children (h ! a)"
    using region_kids [OF less.prems(1)] region_kids [OF less.prems(2)] ha by simp_all
  have "pack h' c = pack h c" if "(l, c) \<in> set (nd_children (h ! a))" for l c
  proof -
    have c: "a < c" "c < z" using region_edge [OF less.prems(1) order_refl _ that] region_bounds [OF less.prems(1)] by auto
    have "\<forall>b. c \<le> b \<and> b < z \<longrightarrow> h' ! b = h ! b" using less.prems(3) c(1) by simp
    then show ?thesis
      using c region_sub [OF less.prems(1)] region_sub [OF less.prems(2)] by (intro less.hyps) simp_all
  qed
  then have "map (\<lambda>(l, c). (l, pack h' c)) (kids h a) = map (\<lambda>(l, c). (l, pack h c)) (kids h a)"
    unfolding k(2) by (intro map_cong) auto
  then show ?case using k(1) ha by (simp add: pack.simps [of h a] pack.simps [of h' a])
qed

text \<open>A node under construction at \<open>n\<close>, with the children \<open>ds\<close> already in place.\<close>

definition building :: "heap \<Rightarrow> nat \<Rightarrow> u32 \<Rightarrow> u32 \<Rightarrow> (string \<times> snapNode) list \<Rightarrow> bool" where
  "building h n nid nxt ds \<longleftrightarrow>
     region h n (length h) \<and> pack h n = SnapNode nid nxt ds \<and> nd_nextNID (h ! n) = nxt \<and>
     map fst (nd_children (h ! n)) = map fst ds \<and> fst ` set (nd_byNID (h ! n)) = (\<lambda>p. sn_NID (snd p)) ` set ds"

definition built :: "heap \<Rightarrow> heap \<Rightarrow> snapNode \<Rightarrow> bool" where
  "built h h' s \<longleftrightarrow> take (length h) h' = h \<and> region h' (length h) (length h') \<and> pack h' (length h) = s"

lemma pack_NID [simp]: "sn_NID (pack h a) = nd_nid (h ! a)"
  by (subst pack.simps) simp

lemma update_absent: "k \<notin> fst ` set m \<Longrightarrow> AList.update k v m = m @ [(k, v)]"
  by (induction m) auto

lemma building_snoc:
  assumes b: "building h n nid nxt ds" and bt: "built h h1 s" and new: "l \<notin> fst ` set ds"
    "sn_NID s \<notin> (\<lambda>p. sn_NID (snd p)) ` set ds"
  shows "building (h1[n := (h1 ! n)\<lparr>nd_children := AList.update l (length h) (nd_children (h1 ! n)),
      nd_byNID := AList.update (nd_nid (h1 ! length h)) (length h) (nd_byNID (h1 ! n))\<rparr>]) n nid nxt (ds @ [(l, s)])"
    (is "building ?h n nid nxt _")
proof -
  let ?c = "length h"
  have n: "n < length h" using b region_bounds unfolding building_def by blast
  have len: "?c < length h1" "\<forall>b < ?c. h1 ! b = h ! b"
    using bt region_bounds unfolding built_def by (blast, metis nth_take)
  have rh: "region h n ?c" and rh1: "region h1 ?c (length h1)" using b bt by (auto simp: building_def built_def)
  have nid_c: "nd_nid (h1 ! ?c) = sn_NID s" using bt by (auto simp: built_def)
  have h1n: "h1 ! n = h ! n" using len n by simp
  have bn: "map fst (nd_children (h ! n)) = map fst ds" "nd_nextNID (h ! n) = nxt"
    "fst ` set (nd_byNID (h ! n)) = (\<lambda>p. sn_NID (snd p)) ` set ds" "pack h n = SnapNode nid nxt ds"
    using b by (auto simp: building_def)
  have "l \<notin> fst ` set (nd_children (h ! n))" using bn(1) new(1) by (metis list.set_map)
  then have ch: "nd_children (?h ! n) = nd_children (h ! n) @ [(l, ?c)]"
    using n len by (simp add: h1n update_absent)
  have byN: "nd_byNID (?h ! n) = nd_byNID (h ! n) @ [(sn_NID s, ?c)]"
    using n len new(2) bn(3) by (simp add: h1n update_absent nid_c)
  have other: "?h ! b = h1 ! b" if "b \<noteq> n" for b using that by simp
  have reg: "region ?h n (length ?h)"
  proof (rule regionI)
    fix b m c assume e: "n \<le> b" "b < length ?h" "(m, c) \<in> set (nd_children (?h ! b))"
    show "b < c \<and> c < length ?h"
    proof (cases "b < ?c")
      case True
      then have "(m, c) \<in> set (nd_children (h ! b)) \<or> b = n \<and> c = ?c"
        using e(3) ch other [of b] len(2) by (cases "b = n") auto
      then show ?thesis using region_edge [OF rh e(1) True] n len(1) by fastforce
    next
      case False
      then have "(m, c) \<in> set (nd_children (h1 ! b))" using e(3) other [of b] n by (cases "b = n") simp_all
      then show ?thesis using region_edge [OF rh1, of b m c] False e(2) by simp
    qed
  qed (use n len(1) in simp_all)
  have agree: "pack ?h c = pack h c" if e: "(m, c) \<in> set (nd_children (h ! n))" for m c
  proof -
    have c: "n < c" "c < ?c" using region_edge [OF rh order_refl n e] by auto
    have same: "?h ! b = h ! b" if "c \<le> b" "b < ?c" for b using that c len(2) other [of b] by simp
    have r: "region h c ?c" using region_sub [OF rh] c by simp
    have "region ?h c ?c" using len(1) same by (intro region_agree [OF r]) simp_all
    then show ?thesis using same r by (intro pack_region [of h c ?c]) simp_all
  qed
  have same: "?h ! b = h1 ! b" if "?c \<le> b" for b using that n other [of b] by simp
  have "region ?h ?c (length h1)" using same by (intro region_agree [OF rh1]) simp_all
  then have "pack ?h ?c = pack h1 ?c" using rh1 same by (intro pack_region [of h1 ?c "length h1"]) simp_all
  then have last: "pack ?h ?c = s" using bt by (simp add: built_def)
  have kids: "kids ?h n = nd_children (h ! n) @ [(l, ?c)]" unfolding region_kids [OF reg] by (rule ch)
  have hd: "nd_nid (?h ! n) = nid" "nd_nextNID (?h ! n) = nxt" using n len(1) h1n bn(2,4) pack_NID [of h n] by simp_all
  have "pack h n = SnapNode (nd_nid (h ! n)) nxt (map (\<lambda>(l, c). (l, pack h c)) (nd_children (h ! n)))"
    using region_kids [OF rh] bn(2) by (subst pack.simps) simp
  then have ds: "ds = map (\<lambda>(l, c). (l, pack h c)) (nd_children (h ! n))" "nid = nd_nid (h ! n)" using bn(4) by auto
  have "map (\<lambda>(l, c). (l, pack ?h c)) (nd_children (h ! n)) = ds"
    unfolding ds(1) using agree by (intro map_cong) auto
  then have "pack ?h n = SnapNode nid nxt (ds @ [(l, s)])"
    unfolding pack.simps [of ?h n] kids hd using last by simp
  then show ?thesis
    unfolding building_def ch byN hd using reg bn by simp
qed

lemma building_start:
  "nxt > 0 \<Longrightarrow> building (h @ [(newNode label nid)\<lparr>nd_nextNID := nxt\<rparr>]) (length h) nid nxt []"
proof -
  let ?h = "h @ [(newNode label nid)\<lparr>nd_nextNID := nxt\<rparr>]"
  have "region ?h (length h) (length ?h)" by (rule regionI) (auto simp: less_Suc_eq)
  moreover have "pack ?h (length h) = SnapNode nid nxt []" by (subst pack.simps) simp
  ultimately show ?thesis by (simp add: building_def)
qed

lemma take_update_above: "n \<le> k \<Longrightarrow> take n (xs[k := x]) = take n xs"
  by simp

lemma built_prefix: "built h h1 s \<Longrightarrow> n < length h \<Longrightarrow> h1 ! n = h ! n"
  unfolding built_def by (metis nth_take)

lemma unpack_ok:
  "snap_ok s \<Longrightarrow> depth + snap_depth s \<le> MaxDepth \<Longrightarrow> \<exists>h'. unpack label s depth h = Inr (length h, h') \<and> built h h' s"
  "building h n nid nxt ds \<Longrightarrow> snap_ok (SnapNode nid nxt (ds @ cs)) \<Longrightarrow> \<forall>p \<in> set cs. depth + Suc (snap_depth (snd p)) \<le> MaxDepth \<Longrightarrow>
   \<exists>h'. unpack_children n cs depth h = Inr h' \<and> building h' n nid nxt (ds @ cs) \<and> take n h' = take n h"
proof (induction label s depth h and n cs depth h arbitrary: and nid nxt ds rule: unpack_unpack_children.induct)
  case (1 label nid nxt cs depth h)
  let ?h1 = "h @ [(newNode label nid)\<lparr>nd_nextNID := nxt\<rparr>]"
  have nxt: "nxt > 0" using "1.prems"(1) by simp
  have d: "\<not> depth > MaxDepth" "\<forall>p \<in> set cs. depth + Suc (snap_depth (snd p)) \<le> MaxDepth"
    using "1.prems"(2) fold_max_le [of "map (\<lambda>p. Suc (snap_depth (snd p))) cs" 0 "MaxDepth - depth"] by auto
  have "\<exists>h'. unpack_children (length h) cs depth ?h1 = Inr h' \<and> building h' (length h) nid nxt ([] @ cs) \<and>
      take (length h) h' = take (length h) ?h1"
    using "1.IH" [OF d(1) refl refl refl, where ds = "[]" and nid = nid and nxt = nxt] building_start [OF nxt] "1.prems"(1) d(2) nxt
    by simp
  then obtain h' where "unpack_children (length h) cs depth ?h1 = Inr h'" "building h' (length h) nid nxt cs" "take (length h) h' = h"
    by auto
  then show ?case using d(1) nxt by (simp add: Let_def building_def built_def)
next
  case (2 n depth h)
  then show ?case by simp
next
  case (3 n l s cs depth h)
  have ok: "snap_ok s" "sn_NID s \<noteq> 0" "sn_NID s < nxt" "l \<notin> fst ` set ds" "sn_NID s \<notin> (\<lambda>p. sn_NID (snd p)) ` set ds"
    using "3.prems"(2) by auto
  obtain h1 where u: "unpack l s (depth + 1) h = Inr (length h, h1)" and bt: "built h h1 s"
    using "3.IH"(1) ok(1) "3.prems"(3) by auto
  have n: "n < length h" using "3.prems"(1) region_bounds unfolding building_def by blast
  have h1n: "h1 ! n = h ! n" using built_prefix [OF bt n] .
  have nid: "nd_nid (h1 ! length h) = sn_NID s" using bt by (auto simp: built_def)
  let ?h = "h1[n := (h1 ! n)\<lparr>nd_children := AList.update l (length h) (nd_children (h1 ! n)),
      nd_byNID := AList.update (nd_nid (h1 ! length h)) (length h) (nd_byNID (h1 ! n))\<rparr>]"
  have b: "building ?h n nid nxt (ds @ [(l, s)])" using building_snoc [OF "3.prems"(1) bt ok(4,5)] .
  have free: "map_of (nd_byNID (h1 ! n)) (sn_NID s) = None" "nd_nextNID (h1 ! n) = nxt"
    using "3.prems"(1) ok(5) by (auto simp: h1n building_def map_of_eq_None_iff)
  have "\<exists>h'. unpack_children n cs depth ?h = Inr h' \<and> building h' n nid nxt ((ds @ [(l, s)]) @ cs) \<and> take n h' = take n ?h"
    using "3.IH"(2) [OF u refl _ _ _ b] ok free nid "3.prems"(2,3) by auto
  moreover have "take n ?h = take n h"
  proof -
    have e: "take (length h) h1 = h" using bt by (simp add: built_def)
    have "take n ?h = take n (take (length h) h1)" using n by simp
    then show ?thesis unfolding e .
  qed
  ultimately show ?case using u ok free nid by simp
qed

lemma Restore_ok:
  assumes "snap_ok s" "snap_depth s \<le> MaxDepth"
  shows "\<exists>t. Restore s = Inr t \<and> Snapshot t = s \<and> t_root t = 0"
proof -
  obtain h' where "unpack '''' s 0 [] = Inr (length ([] :: heap), h')" "built [] h' s"
    using unpack_ok(1) [OF assms(1), of 0 "''''" "[]"] assms(2) by auto
  then show ?thesis by (simp add: Restore_def Snapshot_def built_def)
qed

section \<open>The trees that occur\<close>

definition depth_ok :: "nat \<Rightarrow> heap \<Rightarrow> bool" where
  "depth_ok r h \<longleftrightarrow> (\<forall>ls b. descend ls r h = Some b \<longrightarrow> length ls \<le> MaxDepth)"

lemma descend_add_child:
  assumes "descend ms a (add_child h cur l k nxt) = Some b" "a < length h" "heap_inv h"
  shows "descend ms a h = Some b \<or> b = length h \<and> (\<exists>m. ms = m @ [l] \<and> descend m a h = Some cur)"
  using assms(1,2)
proof (induction ms arbitrary: a)
  case (Cons m ms)
  obtain c where c: "child_at (add_child h cur l k nxt) a m = Some c" "descend ms c (add_child h cur l k nxt) = Some b"
    using Cons.prems(1) by (auto split: option.splits)
  show ?case
  proof (cases "a = cur \<and> m = l")
    case True
    then have "c = length h" using c(1) Cons.prems(2) by (simp add: child_at_add_child)
    then have "ms = []" "b = length h" using c(2) by (cases ms; simp)+
    then show ?thesis using True by (auto intro!: exI [of _ "[]"])
  next
    case False
    then have e: "child_at h a m = Some c" using c(1) Cons.prems(2) by (simp add: child_at_add_child split: if_splits)
    then have "c < length h" using node_okD(2) [OF heap_inv_node [OF assms(3) Cons.prems(2)]] by blast
    from Cons.IH [OF c(2) this] show ?thesis using e by (auto intro: exI [of _ "m # _"])
  qed
qed simp

lemma descend_ext: "descend ls a h = Some b \<Longrightarrow> heap_ext h h' \<Longrightarrow> heap_inv h \<Longrightarrow> a < length h \<Longrightarrow> descend ls a h' = Some b"
proof (induction ls arbitrary: a)
  case (Cons l ls)
  then obtain c where c: "child_at h a l = Some c" "descend ls c h = Some b" by (auto split: option.splits)
  have "c < length h" using node_okD(2) [OF heap_inv_node [OF Cons.prems(3,4)] c(1)] .
  then show ?case using Cons c by (auto simp: heap_ext_def)
qed simp

lemma depth_add_child:
  assumes "depth_ok r h" "heap_inv h" "r < length h" "descend pre r h = Some cur" "length pre < MaxDepth"
  shows "depth_ok r (add_child h cur l k nxt)"
  unfolding depth_ok_def
proof (intro allI impI)
  fix ls b assume "descend ls r (add_child h cur l k nxt) = Some b"
  from descend_add_child [OF this assms(3,2)] show "length ls \<le> MaxDepth"
    using assms(1,5) descend_inj [OF assms(2,3) _ assms(4)] unfolding depth_ok_def by fastforce
qed

lemma allocate_depth:
  assumes "allocate_from ls cur acc h = (res, h')" "heap_inv h" "counters_ok h" "cur < length h" "depth_ok r h" "r < length h"
    "descend pre r h = Some cur" "length pre + length ls \<le> MaxDepth"
  shows "depth_ok r h'"
  using assms
proof (induction ls cur acc h arbitrary: pre rule: allocate_from.induct)
  case (2 l ls cur acc h)
  show ?case
  proof (cases "child_at h cur l")
    case (Some c)
    have "c < length h" using node_okD(2) [OF heap_inv_node [OF "2.prems"(2,4)] Some] .
    moreover have "descend (pre @ [l]) r h = Some c" using "2.prems"(7) Some by (simp add: descend_snoc)
    ultimately show ?thesis using "2.IH"(2) [OF Some, of "pre @ [l]"] "2.prems" Some by auto
  next
    case None
    let ?k = "nd_nextNID (h ! cur)"
    show ?thesis
    proof (cases "?k = 0")
      case True
      then show ?thesis using "2.prems" None by simp
    next
      case False
      let ?h = "add_child h cur l ?k (?k + 1)"
      note i = add_next_inv [OF "2.prems"(2,3,4) refl False None]
      have "descend pre r ?h = Some cur"
        using descend_ext [OF "2.prems"(7) heap_ext_add_child [OF None] "2.prems"(2,6)] .
      then have "descend (pre @ [l]) r ?h = Some (length h)"
        using "2.prems"(4) by (simp add: descend_snoc child_at_add_child)
      moreover have "depth_ok r ?h" using depth_add_child "2.prems" by simp
      ultimately show ?thesis using "2.IH"(1) [OF None refl False, of "pre @ [l]"] "2.prems" None False i by (auto simp: Let_def)
    qed
  qed
qed simp

lemma descend_unlink: "descend ls r (unlink h a l c) = Some b \<Longrightarrow> a < length h \<Longrightarrow> descend ls r h = Some b"
proof (induction ls arbitrary: r)
  case (Cons m ls)
  then show ?case by (auto simp: unlink_maps split: option.splits if_splits)
qed simp

lemma depth_Allocate:
  assumes "tree_inv t" "depth_ok (t_root t) (t_heap t)"
  shows "depth_ok (t_root t) (t_heap (snd (Allocate n t)))"
proof -
  obtain r h where a: "allocate_from (splitName n) (t_root t) [] (t_heap t) = (r, h)" by (metis prod.exhaust)
  have "depth_ok (t_root t) h" if "length (splitName n) \<le> MaxDepth"
    using allocate_depth [OF a, of "t_root t" "[]"] assms that by (simp add: tree_inv_def)
  then show ?thesis using assms(2) a by (simp add: Allocate_def Let_def)
qed

lemma depth_Forget:
  assumes "tree_inv t" "depth_ok (t_root t) (t_heap t)"
  shows "depth_ok (t_root t) (t_heap (snd (Forget n t)))"
proof (cases "fst (Forget n t)")
  case (Inl e)
  then show ?thesis using Forget_error_frame assms by metis
next
  case (Inr u)
  then have "Forget n t = (Inr (), snd (Forget n t))" by (metis old.unit.exhaust prod.collapse)
  from Forget_cases [OF this] obtain cur c where
    d: "descend (butlast (splitName n)) (t_root t) (t_heap t) = Some cur"
    and t': "snd (Forget n t) = t\<lparr>t_heap := unlink (t_heap t) cur (last (splitName n)) c\<rparr>" by metis
  have "cur < length (t_heap t)" using descend_bound [OF d] assms(1) by (simp add: tree_inv_def)
  then have "length ls \<le> MaxDepth" if "descend ls (t_root t) (unlink (t_heap t) cur (last (splitName n)) c) = Some b" for ls b
    using descend_unlink [OF that] assms(2) by (simp add: depth_ok_def)
  then show ?thesis unfolding depth_ok_def t' by simp
qed

lemma tree_run_depth: "depth_ok (t_root (tree_run ops NewTree)) (t_heap (tree_run ops NewTree)) \<and> tree_inv (tree_run ops NewTree)"
proof (induction ops rule: rev_induct)
  case Nil
  have "descend ls 0 [newNode [] 0] = Some b \<Longrightarrow> length ls \<le> MaxDepth" for ls b by (cases ls) simp_all
  then show ?case using tree_inv_New by (auto simp: tree_run_def NewTree_def depth_ok_def)
next
  case (snoc e ops)
  let ?t = "tree_run ops NewTree"
  have "tree_run (ops @ [e]) NewTree = tree_step e ?t" by (simp add: tree_run_def)
  moreover have "t_root (snd (Forget n ?t)) = t_root ?t" for n
    by (auto simp: Forget_def Let_def split: option.splits)
  ultimately show ?case
    using snoc depth_Allocate [of ?t] depth_Forget [of ?t] Allocate_inv [of ?t] Forget_inv [of ?t]
    by (cases e) simp_all
qed

lemma pack_depth:
  "heap_inv h \<Longrightarrow> a < length h \<Longrightarrow> \<forall>ls b. descend ls a h = Some b \<longrightarrow> length ls \<le> D \<Longrightarrow> snap_depth (pack h a) \<le> D"
proof (induction "length h - a" arbitrary: a D rule: less_induct)
  case less
  have "Suc (snap_depth (pack h c)) \<le> D" if "(l, c) \<in> set (nd_children (h ! a))" for l c
  proof -
    have ok: "node_ok h a" using less.prems by (simp add: heap_inv_node)
    have lc: "child_at h a l = Some c" using that ok by (simp add: node_ok_def map_of_is_SomeI)
    note c = node_okD(1,2) [OF ok lc]
    have "Suc (length ls) \<le> D" if "descend ls c h = Some b" for ls b
      using less.prems(3) [rule_format, of "l # ls" b] lc that by simp
    then have "\<forall>ls b. descend ls c h = Some b \<longrightarrow> length ls \<le> D - 1" by fastforce
    moreover have "0 < D" using less.prems(3) [rule_format, of "[l]" c] lc by simp
    moreover have "length h - c < length h - a" using c by linarith
    ultimately show ?thesis using less.hyps [of c "D - 1"] c less.prems(1) by simp
  qed
  then show ?case
    unfolding pack.simps [of h a] snap_depth.simps fold_max_le kids_all [OF less.prems(1,2)] by auto
qed

lemma pack_ok:
  "heap_inv h \<Longrightarrow> counters_ok h \<Longrightarrow> \<forall>b < length h. nd_nextNID (h ! b) \<noteq> 0 \<Longrightarrow> a < length h \<Longrightarrow> snap_ok (pack h a)"
proof (induction "length h - a" arbitrary: a rule: less_induct)
  case less
  have ok: "node_ok h a" using less.prems by (simp add: heap_inv_node)
  have kid: "child_at h a l = Some c \<and> a < c \<and> c < length h \<and> nd_nid (h ! c) \<noteq> 0 \<and> nd_nid (h ! c) < nd_nextNID (h ! a) \<and> snap_ok (pack h c)"
    if "(l, c) \<in> set (nd_children (h ! a))" for l c
  proof -
    have lc: "child_at h a l = Some c" using that ok by (simp add: node_ok_def map_of_is_SomeI)
    note c = node_okD(1,2,4) [OF ok lc]
    moreover have "nd_nid (h ! c) < nd_nextNID (h ! a)"
      using less.prems lc by (auto simp: counters_ok_def below_counter_def)
    ultimately show ?thesis using less.hyps [of c] less.prems lc by auto
  qed
  have "distinct (map (\<lambda>p. nd_nid (h ! snd p)) (nd_children (h ! a)))"
  proof -
    have "inj_on (\<lambda>p. nd_nid (h ! snd p)) (set (nd_children (h ! a)))"
    proof (rule inj_onI)
      fix p q assume pq: "p \<in> set (nd_children (h ! a))" "q \<in> set (nd_children (h ! a))" "nd_nid (h ! snd p) = nd_nid (h ! snd q)"
      have "child_at h a (fst p) = Some (snd p)" "child_at h a (fst q) = Some (snd q)"
        using kid [of "fst p" "snd p"] kid [of "fst q" "snd q"] pq by auto
      then have "snd p = snd q" "nd_label (h ! snd p) = fst p" "nd_label (h ! snd q) = fst q"
        using node_okD(3,5) [OF ok] pq(3) by (metis option.inject)+
      then show "p = q" by (simp add: prod_eq_iff)
    qed
    moreover have "distinct (nd_children (h ! a))" using ok by (auto simp: node_ok_def distinct_map)
    ultimately show ?thesis by (simp add: distinct_map)
  qed
  moreover have "distinct (map fst (nd_children (h ! a)))" using ok by (simp add: node_ok_def)
  moreover have "nd_nextNID (h ! a) > 0" using less.prems(3,4) by (simp add: word_gt_0)
  ultimately show ?case
    using kids_all [OF less.prems(1,4)] kid by (subst pack.simps) (auto simp: comp_def case_prod_beta)
qed

lemma resolve_region:
  "region h a z \<Longrightarrow> resolve_from ls a acc h = snap_resolve (pack h a) ls acc"
proof (induction ls arbitrary: a acc)
  case (Cons l ls)
  have ch: "map_of (sn_Children (pack h a)) l = map_option (pack h) (child_at h a l)"
    using region_kids [OF Cons.prems] by (simp add: pack.simps [of h a] map_of_map_pack)
  show ?case
  proof (cases "child_at h a l")
    case (Some c)
    then have "a < c \<and> c < z" using region_edge [OF Cons.prems order_refl] region_bounds [OF Cons.prems] map_of_SomeD by metis
    then have "region h c z" using region_sub [OF Cons.prems] by simp
    then show ?thesis using Cons.IH ch Some by simp
  qed (use ch in simp)
qed simp

lemma Restore_Resolve:
  assumes "snap_ok s" "snap_depth s \<le> MaxDepth" "Restore s = Inr t"
  shows "Resolve t n = (if splitName n = [] then Inl ErrEmpty else snap_resolve s (splitName n) [])"
proof -
  obtain h' where "unpack '''' s 0 [] = Inr (length ([] :: heap), h')" "built [] h' s"
    using unpack_ok(1) [OF assms(1), of 0 "''''" "[]"] assms(2) by auto
  then have "t = \<lparr>t_heap = h', t_root = 0\<rparr>" "region h' 0 (length h')" "pack h' 0 = s"
    using assms(3) by (auto simp: Restore_def built_def)
  then show ?thesis using resolve_region by (simp add: Resolve_def)
qed

lemma Restore_Snapshot:
  assumes "tree_inv t" "depth_ok (t_root t) (t_heap t)" "\<forall>b < length (t_heap t). nd_nextNID (t_heap t ! b) \<noteq> 0"
  shows "\<exists>t'. Restore (Snapshot t) = Inr t' \<and> Snapshot t' = Snapshot t \<and> (\<forall>n. Resolve t' n = Resolve t n)"
proof -
  have "snap_ok (Snapshot t)" "snap_depth (Snapshot t) \<le> MaxDepth"
    using assms pack_ok pack_depth by (auto simp: Snapshot_def tree_inv_def depth_ok_def)
  then show ?thesis using Restore_ok Restore_Resolve Resolve_Snapshot [OF assms(1)] by metis
qed

section \<open>The published table\<close>

definition labels_ok :: "tree \<Rightarrow> bool" where
  "labels_ok t \<longleftrightarrow> t_root t = 0 \<and> (\<forall>a < length (t_heap t). if a = 0 then nd_label (t_heap t ! a) = '''' else label_ok (nd_label (t_heap t ! a)))"

lemma walk_below:
  assumes "heap_inv h" "a < length h" "\<forall>b. a < b \<and> b < length h \<longrightarrow> nd_label (h ! b) \<noteq> ''''"
  shows "set (concat (map (\<lambda>(l, c). walk_from h c ls p) (kids h a))) =
    {\<lparr>en_Name = written (ls @ ms), en_Path = p @ q\<rparr> |ms q. ms \<noteq> [] \<and> resolve_from ms a [] h = Inr q}"
  using assms(2,3)
proof (induction "length h - a" arbitrary: a ls p rule: less_induct)
  case less
  have ok: "node_ok h a" using assms(1) less.prems(1) by (rule heap_inv_node)
  have kid: "set (walk_from h c ls p) = {\<lparr>en_Name = written (ls @ l # ms), en_Path = p @ nd_nid (h ! c) # q\<rparr> |ms q. resolve_from ms c [] h = Inr q}"
    if lc: "child_at h a l = Some c" for l c
  proof -
    note c = node_okD(1,2,3) [OF ok lc]
    have below: "\<forall>b. c < b \<and> b < length h \<longrightarrow> nd_label (h ! b) \<noteq> ''''" using less.prems(2) c(1) by auto
    have lab: "nd_label (h ! c) \<noteq> ''''" using less.prems(2) c by auto
    have shrink: "length h - c < length h - a" using c by linarith
    have w: "walk_from h c ls p = \<lparr>en_Name = written (ls @ [l]), en_Path = p @ [nd_nid (h ! c)]\<rparr> #
        concat (map (\<lambda>(l', d). walk_from h d (ls @ [l]) (p @ [nd_nid (h ! c)])) (kids h c))"
      using lab c(3) by (subst walk_from.simps) (simp add: written_def Let_def)
    have "set (walk_from h c ls p) = insert \<lparr>en_Name = written (ls @ [l]), en_Path = p @ [nd_nid (h ! c)]\<rparr>
        {\<lparr>en_Name = written ((ls @ [l]) @ ms), en_Path = (p @ [nd_nid (h ! c)]) @ q\<rparr> |ms q. ms \<noteq> [] \<and> resolve_from ms c [] h = Inr q}"
      unfolding w list.set(2) less.hyps [OF shrink c(2) below, of "ls @ [l]" "p @ [nd_nid (h ! c)]"] by (rule refl)
    also have "\<dots> = {\<lparr>en_Name = written (ls @ l # ms), en_Path = p @ nd_nid (h ! c) # q\<rparr> |ms q. resolve_from ms c [] h = Inr q}"
      (is "insert ?e ?A = ?B")
    proof -
      have "x \<in> insert ?e ?A \<longleftrightarrow> x \<in> ?B" for x
      proof
        assume "x \<in> insert ?e ?A"
        then show "x \<in> ?B" by (auto intro: exI [of _ "[]"])
      next
        assume "x \<in> ?B"
        then obtain ms q where x: "x = \<lparr>en_Name = written (ls @ l # ms), en_Path = p @ nd_nid (h ! c) # q\<rparr>" "resolve_from ms c [] h = Inr q"
          by blast
        show "x \<in> insert ?e ?A"
        proof (cases "ms = []")
          case True
          then show ?thesis using x by simp
        next
          case False
          have "x = \<lparr>en_Name = written ((ls @ [l]) @ ms), en_Path = (p @ [nd_nid (h ! c)]) @ q\<rparr>" using x(1) by simp
          then show ?thesis using False x(2) by blast
        qed
      qed
      then show ?thesis by (rule set_eqI)
    qed
    finally show ?thesis .
  qed
  have mem: "(l, c) \<in> set (nd_children (h ! a)) \<longleftrightarrow> child_at h a l = Some c" for l c
    using ok by (auto simp: node_ok_def map_of_is_SomeI dest: map_of_SomeD)
  have "set (concat (map (\<lambda>(l, c). walk_from h c ls p) (kids h a))) = (\<Union>(l, c) \<in> {(l, c). child_at h a l = Some c}. set (walk_from h c ls p))"
    unfolding kids_all [OF assms(1) less.prems(1)] using mem by fastforce
  also have "\<dots> = {\<lparr>en_Name = written (ls @ ms), en_Path = p @ q\<rparr> |ms q. ms \<noteq> [] \<and> resolve_from ms a [] h = Inr q}"
    (is "?L = ?R")
  proof -
    have "x \<in> ?L \<longleftrightarrow> x \<in> ?R" for x
    proof
      assume "x \<in> ?L"
      then obtain l c ms q where "child_at h a l = Some c" "resolve_from ms c [] h = Inr q"
        "x = \<lparr>en_Name = written (ls @ l # ms), en_Path = p @ nd_nid (h ! c) # q\<rparr>" using kid by auto
      then show "x \<in> ?R" using resolve_from_Cons [of l ms a h] by blast
    next
      assume "x \<in> ?R"
      then obtain ns q where ns: "x = \<lparr>en_Name = written (ls @ ns), en_Path = p @ q\<rparr>" "ns \<noteq> []" "resolve_from ns a [] h = Inr q"
        by blast
      then obtain l ms where lms: "ns = l # ms" by (cases ns) simp_all
      then obtain c r where c: "child_at h a l = Some c" "resolve_from ms c [] h = Inr r" "q = nd_nid (h ! c) # r"
        using ns(3) resolve_from_Cons [of l ms a h q] by blast
      then have "x \<in> set (walk_from h c ls p)" using ns(1) lms unfolding kid [OF c(1)] by blast
      then show "x \<in> ?L" using c(1) by blast
    qed
    then show ?thesis by (rule set_eqI)
  qed
  finally show ?case .
qed

lemma resolve_labels:
  assumes "heap_inv h" "\<forall>b. 0 < b \<and> b < length h \<longrightarrow> label_ok (nd_label (h ! b))"
  shows "resolve_from ms a [] h = Inr q \<Longrightarrow> a < length h \<Longrightarrow> \<forall>l \<in> set ms. label_ok l"
proof (induction ms arbitrary: a q)
  case (Cons l ms)
  obtain c r where c: "child_at h a l = Some c" "resolve_from ms c [] h = Inr r"
    using Cons.prems(1) resolve_from_Cons [of l ms a h q] by blast
  note n = node_okD(1-3) [OF heap_inv_node [OF assms(1) Cons.prems(2)] c(1)]
  have "label_ok l" using assms(2) n by auto
  then show ?case using Cons.IH [OF c(2) n(2)] by simp
qed simp

lemma allocate_labels:
  assumes "allocate_from ls cur acc h = (r, h')" "heap_inv h" "counters_ok h" "cur < length h" "\<forall>l \<in> set ls. label_ok l"
  shows "\<forall>a. length h \<le> a \<and> a < length h' \<longrightarrow> label_ok (nd_label (h' ! a))"
  using assms
proof (induction ls cur acc h rule: allocate_from.induct)
  case (2 l ls cur acc h)
  show ?case
  proof (cases "child_at h cur l")
    case (Some c)
    have "c < length h" using node_okD(2) [OF heap_inv_node [OF "2.prems"(2,4)] Some] .
    then show ?thesis using "2.IH"(2) [OF Some] "2.prems" Some by simp
  next
    case None
    let ?k = "nd_nextNID (h ! cur)"
    let ?h = "add_child h cur l ?k (?k + 1)"
    show ?thesis
    proof (cases "?k = 0")
      case True
      then show ?thesis using "2.prems"(1) None by auto
    next
      case False
      have al: "allocate_from ls (length h) (acc @ [?k]) ?h = (r, h')" using "2.prems"(1) None False by (simp add: Let_def)
      note i = add_next_inv [OF "2.prems"(2,3,4) refl False None]
      have new: "\<forall>a. length ?h \<le> a \<and> a < length h' \<longrightarrow> label_ok (nd_label (h' ! a))"
        using "2.IH"(1) [OF None refl False] al i "2.prems"(5) by simp
      have "heap_ext ?h h'" using allocate_from_inv [OF al] i by simp
      then have "nd_label (h' ! length h) = l" unfolding heap_ext_def by simp
      then have "label_ok (nd_label (h' ! length h))" using "2.prems"(5) by simp
      then show ?thesis using new by (metis Suc_leI length_add_child order_le_less)
    qed
  qed
qed auto

lemma labels_ok_New: "labels_ok NewTree"
  by (simp add: labels_ok_def NewTree_def)

lemma labels_ok_Allocate:
  assumes "tree_inv t" "labels_ok t"
  shows "labels_ok (snd (Allocate n t))"
proof -
  obtain r h where a: "allocate_from (splitName n) (t_root t) [] (t_heap t) = (r, h)" by (metis prod.exhaust)
  have inv: "heap_inv (t_heap t)" "counters_ok (t_heap t)" "t_root t < length (t_heap t)" using assms(1) by (auto simp: tree_inv_def)
  have ext: "heap_ext (t_heap t) h" using allocate_from_inv [OF a inv] by simp
  have new: "\<forall>b. length (t_heap t) \<le> b \<and> b < length h \<longrightarrow> label_ok (nd_label (h ! b))"
    using allocate_labels [OF a inv] splitName_labels by blast
  have old: "nd_label (h ! b) = nd_label (t_heap t ! b)" if "b < length (t_heap t)" for b
    using ext that by (simp add: heap_ext_def)
  have "if b = 0 then nd_label (h ! b) = '''' else label_ok (nd_label (h ! b))" if "b < length h" for b
    using assms(2) old [of b] new that inv(3) by (cases "b < length (t_heap t)") (auto simp: labels_ok_def)
  then have "labels_ok (t\<lparr>t_heap := h\<rparr>)" using assms(2) by (simp add: labels_ok_def)
  then show ?thesis using assms(2) a by (simp add: Allocate_def Let_def)
qed

lemma labels_ok_Forget: "labels_ok t \<Longrightarrow> labels_ok (snd (Forget n t))"
  by (auto simp: Forget_def Let_def labels_ok_def simp del: length_greater_0_conv split: option.splits)

lemma tree_run_labels: "labels_ok (tree_run ops NewTree)"
proof (induction ops rule: rev_induct)
  case Nil
  then show ?case by (simp add: tree_run_def labels_ok_New)
next
  case (snoc e ops)
  have "tree_run (ops @ [e]) NewTree = tree_step e (tree_run ops NewTree)" by (simp add: tree_run_def)
  then show ?case using snoc tree_run_depth [of ops] labels_ok_Allocate labels_ok_Forget by (cases e) simp_all
qed

lemma set_Walk:
  assumes "tree_inv t" "labels_ok t"
  shows "set (Walk t) = {\<lparr>en_Name = written ms, en_Path = q\<rparr> |ms q. ms \<noteq> [] \<and> resolve_from ms (t_root t) [] (t_heap t) = Inr q}"
proof -
  have r: "t_root t < length (t_heap t)" "heap_inv (t_heap t)" using assms(1) by (auto simp: tree_inv_def)
  have l: "nd_label (t_heap t ! t_root t) = ''''" "\<forall>b. t_root t < b \<and> b < length (t_heap t) \<longrightarrow> nd_label (t_heap t ! b) \<noteq> ''''"
    using assms(2) r(1) by (auto simp: labels_ok_def label_ok_def)
  have "walk_from (t_heap t) (t_root t) [] [] = concat (map (\<lambda>(l, c). walk_from (t_heap t) c [] []) (kids (t_heap t) (t_root t)))"
    using l(1) by (subst walk_from.simps) simp
  then show ?thesis
    unfolding Walk_def set_sort using walk_below [OF r(2,1) l(2), of "[]" "[]"] by simp
qed

lemma Walk_iff:
  assumes "tree_inv t" "labels_ok t"
  shows "e \<in> set (Walk t) \<longleftrightarrow> Resolve t (en_Name e) = Inr (en_Path e) \<and> written (splitName (en_Name e)) = en_Name e"
proof
  assume "e \<in> set (Walk t)"
  then obtain ms q where e: "e = \<lparr>en_Name = written ms, en_Path = q\<rparr>" "ms \<noteq> []" "resolve_from ms (t_root t) [] (t_heap t) = Inr q"
    unfolding set_Walk [OF assms] by blast
  have "\<forall>l \<in> set ms. label_ok l"
    using resolve_labels [OF _ _ e(3)] assms by (auto simp: tree_inv_def labels_ok_def)
  then have "splitName (written ms) = ms" using splitName_written e(2) by blast
  then show "Resolve t (en_Name e) = Inr (en_Path e) \<and> written (splitName (en_Name e)) = en_Name e"
    using e by (simp add: Resolve_Inr_iff)
next
  assume a: "Resolve t (en_Name e) = Inr (en_Path e) \<and> written (splitName (en_Name e)) = en_Name e"
  then have "splitName (en_Name e) \<noteq> []" "resolve_from (splitName (en_Name e)) (t_root t) [] (t_heap t) = Inr (en_Path e)"
    by (auto simp: Resolve_Inr_iff)
  moreover have "e = \<lparr>en_Name = written (splitName (en_Name e)), en_Path = en_Path e\<rparr>" using a by simp
  ultimately show "e \<in> set (Walk t)" unfolding set_Walk [OF assms] by blast
qed

section \<open>Properties\<close>

text \<open>C30. The published table is exact and canonical: \<^verbatim>\<open>Walk\<close> lists a name with a path precisely when
  the name is in canonical form and resolves to that path, and the list is sorted by name.\<close>

theorem Walk_exact:
  "(e \<in> set (Walk (tree_run ops NewTree)) \<longleftrightarrow>
      Resolve (tree_run ops NewTree) (en_Name e) = Inr (en_Path e) \<and> written (splitName (en_Name e)) = en_Name e) \<and>
   sorted (map en_Name (Walk (tree_run ops NewTree)))"
  using Walk_iff [of "tree_run ops NewTree"] tree_run_depth tree_run_labels by (simp add: Walk_def)

text \<open>A used-up counter does not survive a restart: it is stored as 0, and \<^verbatim>\<open>Restore\<close> takes 0 for
  "absent" and starts again at 1. With no live child left the tree is accepted and identifier 1, already
  issued before, is handed out again.\<close>

theorem Restore_resets_used_up_counter:
  "\<exists>t t' t''. snd (Graft ''x'' [0xFFFFFFFF] NewTree) = t \<and> Restore (Snapshot (snd (Forget ''x'' t))) = Inr t' \<and>
     fst (Allocate ''w'' (snd (Forget ''x'' t))) = Inl ErrExhausted \<and> Allocate ''w'' t' = (Inr [1], t'')"
proof -
  define t where "t = snd (Graft ''x'' [0xFFFFFFFF] NewTree)"
  define t' where "t' = (case Restore (Snapshot (snd (Forget ''x'' t))) of Inr t' \<Rightarrow> t' | Inl e \<Rightarrow> NewTree)"
  have "Restore (Snapshot (snd (Forget ''x'' t))) = Inr t'" unfolding t'_def t_def by code_simp
  moreover have "fst (Allocate ''w'' (snd (Forget ''x'' t))) = Inl ErrExhausted" unfolding t_def by code_simp
  moreover have "Allocate ''w'' t' = (Inr [1], snd (Allocate ''w'' t'))" unfolding t'_def t_def by code_simp
  ultimately show ?thesis using t_def by blast
qed

end
