(* ===== verification/Json_Containers.thy ===== *)
theory Json_Containers
  imports Json_Struct "HOL-Library.List_Lexorder" "HOL-Library.Char_ord"
begin

text \<open>
  Go slices and maps with string keys as \<^verbatim>\<open>encoding/json\<close> reads and writes them. A nil slice or map is told apart
  from an empty one, since they print differently.

  A slice is filled in place: \<open>sl_back\<close> holds what was written to its array so far, so that a repeated member
  shows the elements of the earlier one where the later leaves them alone. A map has no order; it is kept
  as the association list in the order of its keys, which is the order in which it is printed. A repeated
  key replaces the earlier value.
\<close>

section \<open>Slices\<close>

record 'a slice =
  sl_back :: "'a list"
  sl_len :: nat
  sl_nil :: bool

definition slice0 :: "'a slice" where
  "slice0 = \<lparr>sl_back = [], sl_len = 0, sl_nil = True\<rparr>"

definition slice_list :: "'a slice \<Rightarrow> 'a list" where
  "slice_list s = take (sl_len s) (sl_back s)"

definition slice_opt :: "'a slice \<Rightarrow> 'a list option" where
  "slice_opt s = (if sl_nil s then None else Some (slice_list s))"

text \<open>\<open>get v old\<close> reads a value into an element that holds \<open>old\<close>; \<open>z\<close> is the zero value.\<close>

fun get_elems :: "(json \<Rightarrow> 'a \<Rightarrow> 'a option) \<Rightarrow> 'a \<Rightarrow> json list \<Rightarrow> 'a list \<Rightarrow> 'a list option" where
  "get_elems get z [] bs = Some bs"
| "get_elems get z (v # vs) bs =
     (case get v (case bs of [] \<Rightarrow> z | b # _ \<Rightarrow> b) of
        None \<Rightarrow> None
      | Some x \<Rightarrow> (case get_elems get z vs (drop 1 bs) of None \<Rightarrow> None | Some r \<Rightarrow> Some (x # r)))"

definition get_slice :: "(json \<Rightarrow> 'a \<Rightarrow> 'a option) \<Rightarrow> 'a \<Rightarrow> json \<Rightarrow> 'a slice \<Rightarrow> 'a slice option" where
  "get_slice get z v s =
     (case v of
        JNull \<Rightarrow> Some slice0
      | JArr vs \<Rightarrow>
          if vs = [] then Some \<lparr>sl_back = [], sl_len = 0, sl_nil = False\<rparr>
          else (case get_elems get z vs (sl_back s) of
                  None \<Rightarrow> None
                | Some bs \<Rightarrow> Some \<lparr>sl_back = bs, sl_len = length vs, sl_nil = False\<rparr>)
      | _ \<Rightarrow> None)"

definition slice_json :: "('a \<Rightarrow> json) \<Rightarrow> 'a list option \<Rightarrow> json" where
  "slice_json put s = (case s of None \<Rightarrow> JNull | Some xs \<Rightarrow> JArr (map put xs))"

lemma get_elems_json: "\<forall>x \<in> set xs. get (put x) z = Some x \<Longrightarrow> get_elems get z (map put xs) [] = Some xs"
  by (induction xs) simp_all

lemma get_slice_json:
  assumes "\<forall>x \<in> set (case s of None \<Rightarrow> [] | Some xs \<Rightarrow> xs). get (put x) z = Some x"
  shows "\<exists>t. get_slice get z (slice_json put s) slice0 = Some t \<and> slice_opt t = s \<and> slice_list t = (case s of None \<Rightarrow> [] | Some xs \<Rightarrow> xs)"
  using assms get_elems_json [of _ get put z]
  by (cases s) (auto simp: get_slice_def slice_json_def slice0_def slice_opt_def slice_list_def)

lemma get_elems_inv:
  assumes "get_elems get z vs bs = Some r" "\<forall>x \<in> set bs. I x" "I z" "\<And>v x y. v \<in> set vs \<Longrightarrow> get v x = Some y \<Longrightarrow> I x \<Longrightarrow> I y"
  shows "\<forall>x \<in> set r. I x"
  using assms
proof (induction get z vs bs arbitrary: r rule: get_elems.induct)
  case (2 get z v vs bs)
  let ?old = "case bs of [] \<Rightarrow> z | b # _ \<Rightarrow> b"
  obtain x q where h: "get v ?old = Some x" "get_elems get z vs (drop 1 bs) = Some q" "r = x # q"
    using "2.prems"(1) by (auto split: option.splits)
  have "I ?old" using "2.prems"(2,3) by (auto split: list.splits)
  then have "I x" using "2.prems"(4) [of v] h(1) by simp
  moreover have "\<forall>x \<in> set q. I x" using "2.IH" [OF h(1) h(2)] "2.prems"(2-4) by (auto dest: in_set_dropD)
  ultimately show ?case using h(3) by simp
qed simp

lemma get_slice_inv:
  assumes "get_slice get z v s = Some t" "\<forall>x \<in> set (sl_back s). I x" "I z" "json_valid v"
    "\<And>v x y. json_valid v \<Longrightarrow> get v x = Some y \<Longrightarrow> I x \<Longrightarrow> I y"
  shows "\<forall>x \<in> set (sl_back t). I x"
proof (cases "\<exists>vs. v = JArr vs \<and> vs \<noteq> []")
  case True
  then obtain vs r where v: "v = JArr vs" "get_elems get z vs (sl_back s) = Some r" "sl_back t = r"
    using assms(1) by (auto simp: get_slice_def split: option.splits)
  have "\<forall>x \<in> set r. I x" using assms(4,5) v(1) by (intro get_elems_inv [OF v(2) assms(2,3)]) auto
  then show ?thesis using v(3) by simp
next
  case False
  then show ?thesis using assms(1) by (auto simp: get_slice_def slice0_def split: json.splits)
qed

section \<open>Maps\<close>

fun map_put :: "string \<Rightarrow> 'a \<Rightarrow> (string \<times> 'a) list \<Rightarrow> (string \<times> 'a) list" where
  "map_put k v [] = [(k, v)]"
| "map_put k v ((k', v') # m) =
     (if k = k' then (k, v) # m else if k < k' then (k, v) # (k', v') # m else (k', v') # map_put k v m)"

definition key_sorted :: "(string \<times> 'a) list \<Rightarrow> bool" where
  "key_sorted m \<longleftrightarrow> sorted_wrt (<) (map fst m)"

fun decode_map :: "(json \<Rightarrow> 'a option) \<Rightarrow> (string \<times> json) list \<Rightarrow> (string \<times> 'a) list \<Rightarrow> (string \<times> 'a) list option" where
  "decode_map get [] m = Some m"
| "decode_map get ((k, v) # ms) m =
     (case get v of None \<Rightarrow> None | Some x \<Rightarrow> decode_map get ms (map_put k x m))"

definition map_json :: "('a \<Rightarrow> json) \<Rightarrow> (string \<times> 'a) list \<Rightarrow> json" where
  "map_json put m = JObj (map (\<lambda>(k, x). (k, put x)) m)"

lemma map_of_map_put [simp]: "map_of (map_put k v m) = (map_of m)(k \<mapsto> v)"
  by (induction m) (auto simp: fun_eq_iff)

lemma set_map_put: "set (map_put k v m) \<subseteq> insert (k, v) (set m)"
  by (induction k v m rule: map_put.induct) (auto split: if_splits)

lemma fst_map_put: "fst ` set (map_put k v m) = insert k (fst ` set m)"
  by (induction k v m rule: map_put.induct) (simp_all add: insert_commute)

lemma key_sorted_simps [simp]:
  "key_sorted []" "key_sorted ((k, v) # m) \<longleftrightarrow> (\<forall>x \<in> fst ` set m. k < x) \<and> key_sorted m"
  by (auto simp: key_sorted_def)

lemma key_sorted_put: "key_sorted m \<Longrightarrow> key_sorted (map_put k v m)"
proof (induction m)
  case (Cons a m)
  obtain k' v' where a: "a = (k', v')" by fastforce
  have m: "key_sorted m" "\<forall>x \<in> fst ` set m. k' < x" using Cons.prems a by simp_all
  consider "k = k'" | "k < k'" | "k' < k" by fastforce
  then show ?case
  proof cases
    case 2
    then have "\<forall>x \<in> fst ` set m. k < x" using m(2) by force
    then show ?thesis using 2 m a by simp
  next
    case 3
    then show ?thesis using Cons.IH m a fst_map_put [of k v m] by auto
  qed (use m a in simp)
qed simp

lemma map_put_last: "\<forall>x \<in> fst ` set m. x < k \<Longrightarrow> map_put k v m = m @ [(k, v)]"
  by (induction m) auto

lemma decode_map_inv:
  assumes "decode_map get ms m = Some m'" "key_sorted m" "\<forall>(k, x) \<in> set m. valid_utf8 k \<and> I x"
    "\<forall>(k, v) \<in> set ms. valid_utf8 k \<and> (\<forall>x. get v = Some x \<longrightarrow> I x)"
  shows "key_sorted m' \<and> (\<forall>(k, x) \<in> set m'. valid_utf8 k \<and> I x)"
  using assms
proof (induction ms arbitrary: m)
  case (Cons kv ms)
  obtain k v where kv: "kv = (k, v)" by fastforce
  obtain x where x: "get v = Some x" "decode_map get ms (map_put k x m) = Some m'"
    using Cons.prems(1) kv by (auto split: option.splits)
  have "\<forall>(k, x) \<in> set (map_put k x m). valid_utf8 k \<and> I x"
    using set_map_put [of k x m] Cons.prems(3,4) kv x(1) by fastforce
  then show ?case using Cons.IH [OF x(2) key_sorted_put [OF Cons.prems(2)]] Cons.prems(4) by simp
qed simp

lemma decode_map_put:
  assumes "key_sorted m" "\<forall>(k, x) \<in> set m. get (put x) = Some x" "\<forall>x \<in> fst ` set m0. \<forall>y \<in> fst ` set m. x < y"
  shows "decode_map get (map (\<lambda>(k, x). (k, put x)) m) m0 = Some (m0 @ m)"
  using assms
proof (induction m arbitrary: m0)
  case (Cons kx m)
  obtain k x where kx: "kx = (k, x)" by fastforce
  have "map_put k x m0 = m0 @ [(k, x)]" using Cons.prems(3) kx by (intro map_put_last) auto
  moreover have "decode_map get (map (\<lambda>(k, x). (k, put x)) m) (m0 @ [(k, x)]) = Some ((m0 @ [(k, x)]) @ m)"
    using Cons.prems kx by (intro Cons.IH) auto
  ultimately show ?case using Cons.prems(2) kx by simp
qed simp

lemma decode_map_json:
  assumes "key_sorted m" "\<forall>(k, x) \<in> set m. get (put x) = Some x"
  shows "decode_map get (map (\<lambda>(k, x). (k, put x)) m) [] = Some m"
  using decode_map_put [OF assms, of "[]"] by simp

lemma json_ok_map: "json_ok d (map_json put m) \<longleftrightarrow> d < maxNestingDepth \<and> (\<forall>(k, x) \<in> set m. valid_utf8 k \<and> json_ok (d + 1) (put x))"
  by (auto simp: map_json_def)

end
