(* ===== verification/Go_Json.thy ===== *)
theory Go_Json
  imports Ns_Persist Json_Containers
begin

text \<open>
  The namespace table in JSON, the form in which the registry signs it and a router reads it:
  \<^verbatim>\<open>json.Marshal\<close> and \<^verbatim>\<open>json.Unmarshal\<close> on \<^verbatim>\<open>[]nspath.Entry\<close>. An empty table is a nil slice and prints as \<^verbatim>\<open>null\<close>.
\<close>

section \<open>Writing\<close>

definition path_json :: "path \<Rightarrow> json" where
  "path_json p = JArr (map (\<lambda>n. JInt (uint n)) p)"

definition entry_json :: "entry \<Rightarrow> json" where
  "entry_json e = JObj [(''name'', JStr (en_Name e)), (''path'', path_json (en_Path e))]"

definition json_table :: "entry list \<Rightarrow> string" where
  "json_table es = (if es = [] then ''null'' else json_print (JArr (map entry_json es)))"

section \<open>Reading\<close>

record entry_buf =
  eb_name :: string
  eb_path :: "u32 slice"

definition entry_buf0 :: entry_buf where
  "entry_buf0 = \<lparr>eb_name = '''', eb_path = slice0\<rparr>"

definition get_nid :: "json \<Rightarrow> u32 \<Rightarrow> u32 option" where
  "get_nid v old = map_option word_of_nat (get_uint 32 v (unat old))"

definition entry_fields :: "string list" where
  "entry_fields = [''name'', ''path'']"

definition store_entry :: "string \<Rightarrow> json \<Rightarrow> entry_buf \<Rightarrow> entry_buf option" where
  "store_entry n v b =
     (if n = ''name'' then (case get_string v (eb_name b) of None \<Rightarrow> None | Some s \<Rightarrow> Some (b\<lparr>eb_name := s\<rparr>))
      else (case get_slice get_nid 0 v (eb_path b) of None \<Rightarrow> None | Some p \<Rightarrow> Some (b\<lparr>eb_path := p\<rparr>)))"

definition decode_entry :: "json \<Rightarrow> entry option" where
  "decode_entry v =
     (case decode_struct entry_fields store_entry entry_buf0 v of
        None \<Rightarrow> None
      | Some b \<Rightarrow> Some \<lparr>en_Name = eb_name b, en_Path = slice_list (eb_path b)\<rparr>)"

fun decode_entries :: "json list \<Rightarrow> entry list option" where
  "decode_entries [] = Some []"
| "decode_entries (v # vs) =
     (case decode_entry v of
        None \<Rightarrow> None
      | Some e \<Rightarrow> (case decode_entries vs of None \<Rightarrow> None | Some es \<Rightarrow> Some (e # es)))"

definition table_decode :: "string \<Rightarrow> entry list option" where
  "table_decode s =
     (case json_parse s of
        None \<Rightarrow> None
      | Some JNull \<Rightarrow> Some []
      | Some (JArr vs) \<Rightarrow> decode_entries vs
      | Some _ \<Rightarrow> None)"

section \<open>Round trip\<close>

lemma decode_entry_json: "decode_entry (entry_json e) = Some e"
proof -
  have "get_nid (JInt (uint n)) 0 = Some n" for n :: u32 using get_uint_word [of n 0] by (simp add: get_nid_def)
  then obtain t where t: "get_slice get_nid 0 (path_json (en_Path e)) slice0 = Some t" "slice_list t = en_Path e"
    using get_slice_json [of "Some (en_Path e)" get_nid "\<lambda>n. JInt (uint n)" 0] by (auto simp: path_json_def slice_json_def)
  have "decode_struct entry_fields store_entry entry_buf0 (entry_json e) = Some \<lparr>eb_name = en_Name e, eb_path = t\<rparr>"
    by (simp add: decode_struct_def entry_json_def field_def entry_fields_def store_entry_def get_string_def entry_buf0_def t)
  then show ?thesis by (simp add: decode_entry_def t)
qed

lemma decode_entries_json: "decode_entries (map entry_json es) = Some es"
  by (induction es) (simp_all add: decode_entry_json)

lemma json_ok_entry: "valid_utf8 (en_Name e) \<Longrightarrow> json_ok 1 (entry_json e)"
  by (auto simp: entry_json_def path_json_def JInt_def maxNestingDepth_def)

lemma json_ok_table: "\<forall>e \<in> set es. valid_utf8 (en_Name e) \<Longrightarrow> json_ok 0 (JArr (map entry_json es))"
  using json_ok_entry by (auto simp: maxNestingDepth_def)

lemma valid_table: "\<forall>e \<in> set es. valid_utf8 (en_Name e) \<Longrightarrow> valid_utf8 (json_table es)"
  unfolding json_table_def using valid_print [OF json_ok_table [of es]] by simp

lemma table_roundtrip: "\<forall>e \<in> set es. valid_utf8 (en_Name e) \<Longrightarrow> table_decode (json_table es) = Some es"
proof (cases "es = []")
  case True
  have "json_parse ''null'' = Some JNull" using json_parse_print [of JNull] by simp
  then show ?thesis using True by (simp add: table_decode_def json_table_def)
next
  case False
  assume "\<forall>e \<in> set es. valid_utf8 (en_Name e)"
  from json_parse_print [OF json_ok_table [OF this]] show ?thesis using False by (simp add: table_decode_def json_table_def decode_entries_json)
qed

end
