(* ===== verification/Registry.thy ===== *)
theory Registry
  imports Proto_Json Zone Go_Json Go_Time
begin

text \<open>
  \<^verbatim>\<open>cmd/dnx-registry\<close>: the name table of a registry, its delegations, its persisted ownership and
  its namespace identifiers (\<^verbatim>\<open>main.go\<close> and \<^verbatim>\<open>nids.go\<close>). A UDP address is its textual form. A file is
  what reading it gives: missing, unreadable, corrupt, or a decoded value; whether a write
  succeeds is an argument (\<open>io\<close>), and a write that fails leaves the old file, because the code
  writes a temporary file and renames it. Each function that locks the table is one step; in \<^verbatim>\<open>rebind\<close>
  the check and the update are two critical sections of one goroutine.
\<close>

section \<open>Data\<close>

type_synonym addr = string

datatype 'a disk = Missing | Unreadable | Corrupt | Content 'a

record reg_rec =
  rr_PubB64 :: string
  rr_Endpoint :: "addr option"
  rr_LastSeen :: time

record delegation =
  dg_Zone :: string
  dg_Endpoint :: string
  dg_KeyB64 :: string
  dg_Path :: string

record persistedBinding =
  pb_Name :: string
  pb_PubB64 :: string
  pb_LastSeen :: time

record nidStore =
  ns_tree :: tree
  ns_path :: string
  ns_file :: "snapNode disk"

record registry =
  rg_names :: "(string \<times> reg_rec) list"
  rg_statePath :: string
  rg_file :: "persistedBinding list disk"
  rg_signPriv :: bytes
  rg_signPub :: string
  rg_zoneName :: string
  rg_delegations :: "delegation list"
  rg_nids :: "nidStore option"

definition staleAfter :: duration where "staleAfter = 60 * Second"
definition maxSkew :: duration where "maxSkew = 30 * Second"
definition bindingRetention :: duration where "bindingRetention = 365 * 24 * 3600 * Second"

section \<open>Delegations\<close>

datatype del_error = DelUnreadable | DelCorrupt | DelNotBeneath string | DelBadKey string | DelNoEndpoint string

fun check_delegations :: "string \<Rightarrow> delegation list \<Rightarrow> del_error option" where
  "check_delegations ownZone [] = None"
| "check_delegations ownZone (d # ds) =
     (if \<not> IsNarrower (dg_Zone d) ownZone then Some (DelNotBeneath (dg_Zone d))
      else if \<not> ValidPubKey (dg_KeyB64 d) then Some (DelBadKey (dg_Zone d))
      else if dg_Endpoint d = '''' then Some (DelNoEndpoint (dg_Zone d))
      else check_delegations ownZone ds)"

definition loadDelegations :: "string \<Rightarrow> delegation list disk \<Rightarrow> string \<Rightarrow> del_error + delegation list" where
  "loadDelegations path f ownZone =
     (if path = '''' then Inr []
      else case f of
             Missing \<Rightarrow> Inr []
           | Unreadable \<Rightarrow> Inl DelUnreadable
           | Corrupt \<Rightarrow> Inl DelCorrupt
           | Content ds \<Rightarrow> (case check_delegations ownZone ds of Some e \<Rightarrow> Inl e | None \<Rightarrow> Inr ds))"

fun best_delegation :: "string \<Rightarrow> delegation list \<Rightarrow> delegation option \<Rightarrow> delegation option" where
  "best_delegation name [] best = best"
| "best_delegation name (d # ds) best =
     best_delegation name ds
       (if Contains (dg_Zone d) name then
          (case best of
             None \<Rightarrow> Some d
           | Some b \<Rightarrow> if zone_Depth (dg_Zone d) > zone_Depth (dg_Zone b) then Some d else best)
        else best)"

definition delegationFor :: "registry \<Rightarrow> string \<Rightarrow> delegation option" where
  "delegationFor r name = best_delegation name (rg_delegations r) None"

section \<open>Persistence of ownership\<close>

definition reg_save :: "bool \<Rightarrow> registry \<Rightarrow> bool \<times> registry" where
  "reg_save io r =
     (if rg_statePath r = '''' then (True, r)
      else let out = map (\<lambda>(name, rec). \<lparr>pb_Name = name, pb_PubB64 = rr_PubB64 rec, pb_LastSeen = rr_LastSeen rec\<rparr>) (rg_names r)
           in if \<not> io then (False, r) else (True, r\<lparr>rg_file := Content out\<rparr>))"

definition load_binding :: "persistedBinding \<Rightarrow> (string \<times> reg_rec) list \<Rightarrow> (string \<times> reg_rec) list" where
  "load_binding p names =
     AList.update (pb_Name p) \<lparr>rr_PubB64 = pb_PubB64 p, rr_Endpoint = None, rr_LastSeen = pb_LastSeen p\<rparr> names"

definition reg_load :: "registry \<Rightarrow> (unit + nat) \<times> registry" where
  "reg_load r =
     (if rg_statePath r = '''' then (Inr 0, r)
      else case rg_file r of
             Missing \<Rightarrow> (Inr 0, r)
           | Unreadable \<Rightarrow> (Inl (), r)
           | Corrupt \<Rightarrow> (Inl (), r)
           | Content ps \<Rightarrow> (Inr (length ps), r\<lparr>rg_names := fold load_binding ps (rg_names r)\<rparr>))"

section \<open>Binding\<close>

datatype bindResult = bindNew | bindRefreshed | bindRejected

definition bind :: "bool \<Rightarrow> string \<Rightarrow> string \<Rightarrow> addr \<Rightarrow> time \<Rightarrow> registry \<Rightarrow> bindResult \<times> registry" where
  "bind io name pubB64 endpoint now r =
     (case map_of (rg_names r) name of
        Some rec \<Rightarrow>
          if rr_PubB64 rec \<noteq> pubB64 then (bindRejected, r)
          else (bindRefreshed,
                r\<lparr>rg_names := AList.update name (rec\<lparr>rr_Endpoint := Some endpoint, rr_LastSeen := now\<rparr>) (rg_names r)\<rparr>)
      | None \<Rightarrow>
          let r1 = r\<lparr>rg_names := AList.update name
                      \<lparr>rr_PubB64 = pubB64, rr_Endpoint = Some endpoint, rr_LastSeen = now\<rparr> (rg_names r)\<rparr>
          in (bindNew, snd (reg_save io r1)))"

datatype rebind_error = RbBadKey | RbNotBound | RbSameKey | RbNotAuthorised sig_error

definition rebind :: "prims \<Rightarrow> string \<Rightarrow> string \<Rightarrow> string \<Rightarrow> int \<Rightarrow> string \<Rightarrow> time \<Rightarrow> registry \<Rightarrow> (rebind_error + unit) \<times> registry" where
  "rebind P name newPubB64 sigB64 ts nonce now r =
     (if \<not> ValidPubKey newPubB64 then (Inl RbBadKey, r)
      else case map_of (rg_names r) name of
             None \<Rightarrow> (Inl RbNotBound, r)
           | Some rec \<Rightarrow>
               if rr_PubB64 rec = newPubB64 then (Inl RbSameKey, r)
               else (case VerifyDetached P (rr_PubB64 rec) (RebindBytes name newPubB64 ts nonce) sigB64 of
                       Inl e \<Rightarrow> (Inl (RbNotAuthorised e), r)
                     | Inr _ \<Rightarrow>
                         (Inr (), r\<lparr>rg_names := AList.update name
                            (rec\<lparr>rr_PubB64 := newPubB64, rr_Endpoint := None, rr_LastSeen := now\<rparr>) (rg_names r)\<rparr>)))"

definition release :: "bool \<Rightarrow> string \<Rightarrow> registry \<Rightarrow> bool \<times> registry" where
  "release io name r =
     (case map_of (rg_names r) name of
        None \<Rightarrow> (False, r)
      | Some rec \<Rightarrow> reg_save io (r\<lparr>rg_names := AList.delete name (rg_names r)\<rparr>))"

fun prune_names :: "time \<Rightarrow> (string \<times> reg_rec) list \<Rightarrow> (string \<times> reg_rec) list \<times> nat \<times> nat" where
  "prune_names now [] = ([], 0, 0)"
| "prune_names now ((name, rec) # rest) =
     (let off = (rr_Endpoint rec \<noteq> None \<and> Time_Sub now (rr_LastSeen rec) > staleAfter);
          rec' = (if off then rec\<lparr>rr_Endpoint := None\<rparr> else rec);
          dead = (Time_Sub now (rr_LastSeen rec') > bindingRetention);
          (rest', wentOffline, retired) = prune_names now rest
      in (if dead then rest' else (name, rec') # rest',
          (if off then 1 else 0) + wentOffline, (if dead then 1 else 0) + retired))"

definition prune :: "time \<Rightarrow> registry \<Rightarrow> (nat \<times> nat) \<times> registry" where
  "prune now r =
     (let (names, wentOffline, retired) = prune_names now (rg_names r)
      in ((wentOffline, retired), r\<lparr>rg_names := names\<rparr>))"

definition freshTS :: "time \<Rightarrow> int \<Rightarrow> bool" where
  "freshTS now tsMillis = skew_ok now maxSkew tsMillis"

text \<open>One round of \<^verbatim>\<open>pruneLoop\<close>.\<close>

definition prune_round :: "bool \<Rightarrow> time \<Rightarrow> registry \<Rightarrow> registry" where
  "prune_round io now r = snd (reg_save io (snd (prune now r)))"

section \<open>Namespace identifiers\<close>

datatype nid_error =
    NidUnreadable | NidCorrupt | NidUntrusted snap_error | NidNoZone | NidParse ns_error | NidDepth nat nat | NidGraft ns_error

definition loadNIDStore :: "string \<Rightarrow> snapNode disk \<Rightarrow> nid_error + nidStore" where
  "loadNIDStore path f =
     (let s = \<lparr>ns_tree = NewTree, ns_path = path, ns_file = f\<rparr>
      in if path = '''' then Inr s
         else case f of
                Missing \<Rightarrow> Inr s
              | Unreadable \<Rightarrow> Inl NidUnreadable
              | Corrupt \<Rightarrow> Inl NidCorrupt
              | Content b \<Rightarrow> (case Restore b of Inl e \<Rightarrow> Inl (NidUntrusted e) | Inr t \<Rightarrow> Inr (s\<lparr>ns_tree := t\<rparr>)))"

definition nid_save :: "bool \<Rightarrow> nidStore \<Rightarrow> bool \<times> nidStore" where
  "nid_save io s =
     (if ns_path s = '''' then (True, s)
      else if \<not> io then (False, s)
      else (True, s\<lparr>ns_file := Content (Snapshot (ns_tree s))\<rparr>))"

definition seedZonePrefix :: "string \<Rightarrow> string \<Rightarrow> tree \<Rightarrow> nid_error + tree" where
  "seedZonePrefix zoneName dotted t =
     (if dotted = '''' then Inr t
      else if zoneName = '''' then Inl NidNoZone
      else case ns_Parse dotted of
             Inl e \<Rightarrow> Inl (NidParse e)
           | Inr p \<Rightarrow>
               if length p \<noteq> zone_Depth zoneName then Inl (NidDepth (length p) (zone_Depth zoneName))
               else (case Graft zoneName p t of
                       (Inl e, t') \<Rightarrow> Inl (NidGraft e)
                     | (Inr _, t') \<Rightarrow> Inr t'))"

fun grantDelegationPrefixes :: "delegation list \<Rightarrow> tree \<Rightarrow> nid_error + tree" where
  "grantDelegationPrefixes [] t = Inr t"
| "grantDelegationPrefixes (d # ds) t =
     (if dg_Path d = '''' then grantDelegationPrefixes ds t
      else case ns_Parse (dg_Path d) of
             Inl e \<Rightarrow> Inl (NidParse e)
           | Inr p \<Rightarrow>
               if length p \<noteq> zone_Depth (dg_Zone d) then Inl (NidDepth (length p) (zone_Depth (dg_Zone d)))
               else (case Graft (dg_Zone d) p t of
                       (Inl e, t') \<Rightarrow> Inl (NidGraft e)
                     | (Inr _, t') \<Rightarrow> grantDelegationPrefixes ds t'))"

definition allocateFor :: "bool \<Rightarrow> string \<Rightarrow> registry \<Rightarrow> registry" where
  "allocateFor io name r =
     (case rg_nids r of
        None \<Rightarrow> r
      | Some s \<Rightarrow>
          if rg_zoneName r \<noteq> '''' \<and> \<not> Contains (rg_zoneName r) name then r
          else (case delegationFor r name of
                  Some d \<Rightarrow> r
                | None \<Rightarrow>
                    (case Allocate name (ns_tree s) of
                       (Inl e, t) \<Rightarrow> r\<lparr>rg_nids := Some (s\<lparr>ns_tree := t\<rparr>)\<rparr>
                     | (Inr p, t) \<Rightarrow> r\<lparr>rg_nids := Some (snd (nid_save io (s\<lparr>ns_tree := t\<rparr>)))\<rparr>)))"

definition allocateForRestored :: "bool \<Rightarrow> registry \<Rightarrow> registry" where
  "allocateForRestored io r = fold (allocateFor io) (sort (map fst (rg_names r))) r"

definition pathFor :: "registry \<Rightarrow> string \<Rightarrow> string" where
  "pathFor r name =
     (case rg_nids r of
        None \<Rightarrow> ''''
      | Some s \<Rightarrow> (case Resolve (ns_tree s) name of Inl e \<Rightarrow> '''' | Inr p \<Rightarrow> Path_String p))"

section \<open>Messages\<close>

definition errMsg :: "string \<Rightarrow> message" where
  "errMsg info = Message0\<lparr>m_Kind := KindError, m_Info := info\<rparr>"

fun sig_text :: "sig_error \<Rightarrow> string" where
  "sig_text BadPublicKey = ''bad public key''"
| "sig_text BadSignatureEncoding = ''bad signature encoding''"
| "sig_text SignatureFailed = ''signature does not verify''"

fun rebind_text :: "rebind_error \<Rightarrow> string" where
  "rebind_text RbBadKey = ''new key is not a valid ed25519 public key''"
| "rebind_text RbNotBound = ''name is not bound, so there is nothing to transfer''"
| "rebind_text RbSameKey = ''new key is the same as the current key''"
| "rebind_text (RbNotAuthorised e) = ''transfer not authorised by the current key: '' @ sig_text e"

text \<open>
  The environment of one call of \<^verbatim>\<open>handle\<close>: the clock, and whether the writes to the ownership file
  and to the identifier file succeed.
\<close>

record env =
  ev_now :: time
  ev_io :: bool
  ev_nio :: bool

type_synonym replies = "(addr \<times> message) list"

definition handle_register :: "prims \<Rightarrow> env \<Rightarrow> addr \<Rightarrow> message \<Rightarrow> registry \<Rightarrow> replies \<times> registry" where
  "handle_register P E src m r =
     (if \<not> freshTS (ev_now E) (m_TS m) then ([(src, errMsg ''stale timestamp'')], r)
      else case Verify P m (m_PubKey m) of
             Inl e \<Rightarrow> ([(src, errMsg ''bad signature'')], r)
           | Inr _ \<Rightarrow>
               (case bind (ev_io E) (m_Name m) (m_PubKey m) src (ev_now E) r of
                  (bindRejected, r1) \<Rightarrow> ([(src, errMsg ''name is bound to another key'')], r1)
                | (_, r1) \<Rightarrow>
                    ([(src, Message0\<lparr>m_Kind := KindRegisterAck, m_Name := m_Name m, m_Endpoint := src\<rparr>)],
                     allocateFor (ev_nio E) (m_Name m) r1)))"

definition handle_rebind :: "prims \<Rightarrow> env \<Rightarrow> addr \<Rightarrow> message \<Rightarrow> registry \<Rightarrow> replies \<times> registry" where
  "handle_rebind P E src m r =
     (if \<not> freshTS (ev_now E) (m_TS m) then ([(src, errMsg ''stale timestamp'')], r)
      else case rebind P (m_Name m) (m_PubKey m) (m_Sig m) (m_TS m) (m_Nonce m) (ev_now E) r of
             (Inl e, r1) \<Rightarrow> ([(src, errMsg (rebind_text e))], r1)
           | (Inr _, r1) \<Rightarrow>
               ([(src, Message0\<lparr>m_Kind := KindRebindAck, m_Name := m_Name m\<rparr>)], snd (reg_save (ev_io E) r1)))"

definition referral :: "prims \<Rightarrow> time \<Rightarrow> message \<Rightarrow> delegation \<Rightarrow> registry \<Rightarrow> message" where
  "referral P now m d r =
     (let ts = to_millis now
      in Message0\<lparr>m_Kind := KindReferral, m_Target := m_Target m, m_Zone := dg_Zone d, m_Endpoint := dg_Endpoint d,
           m_PubKey := dg_KeyB64 d, m_TS := ts, m_Nonce := m_Nonce m,
           m_Sig := SignDetached P (rg_signPriv r)
             (ReferralBytes (m_Target m) (dg_Zone d) (dg_Endpoint d) (dg_KeyB64 d) ts (m_Nonce m))\<rparr>)"

definition is_fresh :: "time \<Rightarrow> reg_rec \<Rightarrow> bool" where
  "is_fresh now rec \<longleftrightarrow> rr_Endpoint rec \<noteq> None \<and> Time_Sub now (rr_LastSeen rec) < staleAfter"

definition resolve_resp :: "prims \<Rightarrow> time \<Rightarrow> message \<Rightarrow> reg_rec \<Rightarrow> registry \<Rightarrow> message" where
  "resolve_resp P now m rec r =
     (let ep = the (rr_Endpoint rec);
          ts = to_millis now;
          resp = Message0\<lparr>m_Kind := KindResolveResp, m_Target := m_Target m, m_PubKey := rr_PubB64 rec,
                   m_Endpoint := ep, m_TS := ts, m_Nonce := m_Nonce m,
                   m_Sig := SignDetached P (rg_signPriv r) (ResolveRespBytes (m_Target m) (rr_PubB64 rec) ep ts (m_Nonce m))\<rparr>;
          nsp = pathFor r (m_Target m)
      in if nsp \<noteq> '''' then
           resp\<lparr>m_NsPath := nsp, m_PathSig := SignDetached P (rg_signPriv r) (NsPathBytes (m_Target m) nsp ts (m_Nonce m))\<rparr>
         else resp)"

definition handle_resolve :: "prims \<Rightarrow> env \<Rightarrow> addr \<Rightarrow> message \<Rightarrow> registry \<Rightarrow> replies" where
  "handle_resolve P E src m r =
     (if rg_zoneName r \<noteq> '''' \<and> \<not> Contains (rg_zoneName r) (m_Target m) then
        [(src, errMsg (''not authoritative for '' @ m_Target m))]
      else case delegationFor r (m_Target m) of
             Some d \<Rightarrow> [(src, referral P (ev_now E) m d r)]
           | None \<Rightarrow>
               (case map_of (rg_names r) (m_Target m) of
                  Some rec \<Rightarrow>
                    if is_fresh (ev_now E) rec then [(src, resolve_resp P (ev_now E) m rec r)]
                    else [(src, errMsg (''unknown or offline: '' @ m_Target m))]
                | None \<Rightarrow> [(src, errMsg (''unknown or offline: '' @ m_Target m))]))"

definition handle_namespace :: "prims \<Rightarrow> env \<Rightarrow> addr \<Rightarrow> message \<Rightarrow> registry \<Rightarrow> replies" where
  "handle_namespace P E src m r =
     (case rg_nids r of
        None \<Rightarrow> [(src, errMsg ''this registry does not allocate namespace identifiers'')]
      | Some s \<Rightarrow>
          let tab = json_table (Walk (ns_tree s));
              ts = to_millis (ev_now E)
          in [(src, Message0\<lparr>m_Kind := KindNamespaceResp, m_Zone := rg_zoneName r, m_Info := tab, m_TS := ts,
                      m_Nonce := m_Nonce m,
                      m_Sig := SignDetached P (rg_signPriv r) (NamespaceBytes (rg_zoneName r) tab ts (m_Nonce m))\<rparr>)])"

definition handle_intro :: "env \<Rightarrow> addr \<Rightarrow> message \<Rightarrow> registry \<Rightarrow> replies" where
  "handle_intro E src m r =
     (case map_of (rg_names r) (m_Target m) of
        Some rec \<Rightarrow>
          if is_fresh (ev_now E) rec then
            [(the (rr_Endpoint rec), Message0\<lparr>m_Kind := KindPunch, m_Name := m_Name m, m_Endpoint := src\<rparr>)]
          else [(src, errMsg (''cannot introduce, target offline: '' @ m_Target m))]
      | None \<Rightarrow> [(src, errMsg (''cannot introduce, target offline: '' @ m_Target m))])"

definition reg_handle :: "prims \<Rightarrow> env \<Rightarrow> addr \<Rightarrow> message \<Rightarrow> registry \<Rightarrow> replies \<times> registry" where
  "reg_handle P E src m r =
     (if m_Kind m = KindRegister then handle_register P E src m r
      else if m_Kind m = KindRebind then handle_rebind P E src m r
      else if m_Kind m = KindResolve then (handle_resolve P E src m r, r)
      else if m_Kind m = KindNamespace then (handle_namespace P E src m r, r)
      else if m_Kind m = KindIntro then (handle_intro E src m r, r)
      else ([], r))"

text \<open>One turn of the receive loop, on bytes: what does not decode is ignored, answers are encoded.\<close>

definition reply :: "addr \<times> message \<Rightarrow> addr \<times> bytes" where
  "reply x = (case x of (to, m) \<Rightarrow> (to, Encode m))"

definition reg_receive :: "prims \<Rightarrow> env \<Rightarrow> addr \<Rightarrow> bytes \<Rightarrow> registry \<Rightarrow> (addr \<times> bytes) list \<times> registry" where
  "reg_receive P E src b r =
     (case Decode b of
        None \<Rightarrow> ([], r)
      | Some m \<Rightarrow> (let (rs, r') = reg_handle P E src m r in (map reply rs, r')))"

section \<open>Start\<close>

text \<open>The part of \<^verbatim>\<open>main\<close> between the reading of the flags and the receive loop.\<close>

record reg_config =
  cf_state :: string
  cf_zone :: string
  cf_delegations :: string
  cf_nids :: string
  cf_zonePath :: string
  cf_priv :: bytes
  cf_pub :: string

record reg_disk =
  dk_state :: "persistedBinding list disk"
  dk_delegations :: "delegation list disk"
  dk_nids :: "snapNode disk"

datatype boot_error = BootDelegations del_error | BootNids nid_error | BootState

definition boot_nids :: "reg_config \<Rightarrow> reg_disk \<Rightarrow> string \<Rightarrow> delegation list \<Rightarrow> nid_error + nidStore option" where
  "boot_nids cf dk zone ds =
     (if cf_nids cf = '''' then Inr None
      else case loadNIDStore (cf_nids cf) (dk_nids dk) of
             Inl e \<Rightarrow> Inl e
           | Inr s \<Rightarrow>
               (case seedZonePrefix zone (cf_zonePath cf) (ns_tree s) of
                  Inl e \<Rightarrow> Inl e
                | Inr t \<Rightarrow>
                    (case grantDelegationPrefixes ds t of
                       Inl e \<Rightarrow> Inl e
                     | Inr t' \<Rightarrow> Inr (Some (s\<lparr>ns_tree := t'\<rparr>)))))"

definition boot :: "bool \<Rightarrow> reg_config \<Rightarrow> reg_disk \<Rightarrow> boot_error + registry" where
  "boot io cf dk =
     (let zone = Normalise (cf_zone cf)
      in case loadDelegations (cf_delegations cf) (dk_delegations dk) zone of
           Inl e \<Rightarrow> Inl (BootDelegations e)
         | Inr ds \<Rightarrow>
             (case boot_nids cf dk zone ds of
                Inl e \<Rightarrow> Inl (BootNids e)
              | Inr nids \<Rightarrow>
                  let r = \<lparr>rg_names = [], rg_statePath = cf_state cf, rg_file = dk_state dk, rg_signPriv = cf_priv cf,
                           rg_signPub = cf_pub cf, rg_zoneName = zone, rg_delegations = ds, rg_nids = nids\<rparr>
                  in case reg_load r of
                       (Inl _, r1) \<Rightarrow> Inl BootState
                     | (Inr restored, r1) \<Rightarrow>
                         Inr (if rg_nids r1 \<noteq> None \<and> restored > 0 then allocateForRestored io r1 else r1)))"

section \<open>The signing key\<close>

record registryKeyFile =
  kf_PubB64 :: string
  kf_PrivB64 :: string

definition PrivateKeySize :: nat where "PrivateKeySize = 64"

datatype key_error = KeyEntropy | KeyUnreadable | KeyFileCorrupt | KeyPrivCorrupt | KeyWrite

text \<open>
  \<open>gen\<close> is what \<^verbatim>\<open>ed25519.GenerateKey\<close> returns: the public and the private key, or an error. The result is
  the private key and the printed public key, with the key file as it is left; a write that fails is an
  error of the call.
\<close>

definition loadOrCreateKey :: "(bytes \<times> bytes) option \<Rightarrow> bool \<Rightarrow> string \<Rightarrow> registryKeyFile disk \<Rightarrow>
    (key_error + bytes \<times> string) \<times> registryKeyFile disk" where
  "loadOrCreateKey gen io path f =
     (if path = '''' then
        (case gen of None \<Rightarrow> (Inl KeyEntropy, f) | Some (pub, priv) \<Rightarrow> (Inr (priv, EncodeToString pub), f))
      else case f of
             Content kf \<Rightarrow>
               (case DecodeString (kf_PrivB64 kf) of
                  None \<Rightarrow> (Inl KeyPrivCorrupt, f)
                | Some priv \<Rightarrow>
                    if length priv \<noteq> PrivateKeySize then (Inl KeyPrivCorrupt, f)
                    else (Inr (priv, kf_PubB64 kf), f))
           | Corrupt \<Rightarrow> (Inl KeyFileCorrupt, f)
           | Unreadable \<Rightarrow> (Inl KeyUnreadable, f)
           | Missing \<Rightarrow>
               (case gen of
                  None \<Rightarrow> (Inl KeyEntropy, f)
                | Some (pub, priv) \<Rightarrow>
                    if \<not> io then (Inl KeyWrite, f)
                    else (Inr (priv, EncodeToString pub),
                          Content \<lparr>kf_PubB64 = EncodeToString pub, kf_PrivB64 = EncodeToString priv\<rparr>)))"

text \<open>The administrative release: \<^verbatim>\<open>--release\<close> works on the file alone and exits.\<close>

definition release_command :: "bool \<Rightarrow> string \<Rightarrow> persistedBinding list disk \<Rightarrow> string \<Rightarrow> bool \<times> persistedBinding list disk" where
  "release_command io statePath f name =
     (let r0 = \<lparr>rg_names = [], rg_statePath = statePath, rg_file = f, rg_signPriv = [], rg_signPub = '''', rg_zoneName = '''',
                rg_delegations = [], rg_nids = None\<rparr>
      in case reg_load r0 of
           (Inl _, r1) \<Rightarrow> (False, f)
         | (Inr _, r1) \<Rightarrow> (let res = release io name r1 in (fst res, rg_file (snd res))))"

text \<open>The start with the key file.\<close>

definition boot_main :: "(bytes \<times> bytes) option \<Rightarrow> bool \<Rightarrow> string \<Rightarrow> registryKeyFile disk \<Rightarrow> reg_config \<Rightarrow> reg_disk \<Rightarrow>
    ((key_error + boot_error) + registry) \<times> registryKeyFile disk" where
  "boot_main gen io keyPath kfile cf dk =
     (case loadOrCreateKey gen io keyPath kfile of
        (Inl e, k) \<Rightarrow> (Inl (Inl e), k)
      | (Inr (priv, pub), k) \<Rightarrow>
          (case boot io (cf\<lparr>cf_priv := priv, cf_pub := pub\<rparr>) dk of
             Inl e \<Rightarrow> (Inl (Inr e), k)
           | Inr r \<Rightarrow> (Inr r, k)))"

end
