(* ===== verification/Registry_Props.thy ===== *)
theory Registry_Props
  imports Registry
begin

text \<open>
  The promises of the registry: a name is owned by the key that claimed it first, ownership moves
  only with the owner's signature and lapses only after a year of silence, it survives a
  restart, referrals go to the most specific branch and only downwards, and identifiers stay.
\<close>

definition owner :: "registry \<Rightarrow> string \<Rightarrow> string option" where
  "owner r n = map_option rr_PubB64 (map_of (rg_names r) n)"

definition reg_ok :: "registry \<Rightarrow> bool" where
  "reg_ok r \<longleftrightarrow> distinct (map fst (rg_names r))"

section \<open>What each operation does to ownership\<close>

lemma names_save [simp]: "rg_names (snd (reg_save io r)) = rg_names r"
  by (simp add: reg_save_def Let_def)

lemma names_allocateFor [simp]: "rg_names (allocateFor io n r) = rg_names r"
  by (auto simp: allocateFor_def split: option.splits sum.splits prod.splits)

lemma bind_names:
  assumes "bind io n k e now r = (res, r')"
  shows "(res = bindRejected \<longrightarrow> r' = r \<and> (\<exists>k'. owner r n = Some k' \<and> k' \<noteq> k)) \<and>
    (res \<noteq> bindRejected \<longrightarrow> owner r' n = Some k \<and> (owner r n = None \<or> owner r n = Some k)) \<and>
    (\<forall>m. m \<noteq> n \<longrightarrow> map_of (rg_names r') m = map_of (rg_names r) m)"
  using assms by (auto simp: bind_def owner_def Let_def split: option.splits if_splits)

lemma rebind_names:
  assumes "rebind P n k' sg ts no now r = (res, r')"
  shows "(\<forall>e. res = Inl e \<longrightarrow> r' = r) \<and>
    (res = Inr () \<longrightarrow> (\<exists>k. owner r n = Some k \<and> verified (VerifyDetached P k (RebindBytes n k' ts no) sg)) \<and> owner r' n = Some k') \<and>
    (\<forall>m. m \<noteq> n \<longrightarrow> map_of (rg_names r') m = map_of (rg_names r) m)"
  using assms by (auto simp: rebind_def owner_def split: option.splits if_splits sum.splits)

lemma owner_other: "map_of (rg_names r') m = map_of (rg_names r) m \<Longrightarrow> owner r' m = owner r m"
  by (simp add: owner_def)

lemma owner_names: "rg_names r' = rg_names r \<Longrightarrow> owner r' m = owner r m"
  by (simp add: owner_def)

text \<open>The two messages that can touch the table.\<close>

lemma register_cases:
  assumes "handle_register P E src m r = (out, r')"
  shows "rg_names r' = rg_names r \<or>
    (freshTS (ev_now E) (m_TS m) \<and> verified (Verify P m (m_PubKey m)) \<and>
     (\<exists>res r1. bind (ev_io E) (m_Name m) (m_PubKey m) src (ev_now E) r = (res, r1) \<and> res \<noteq> bindRejected \<and> rg_names r' = rg_names r1))"
proof (cases "freshTS (ev_now E) (m_TS m) \<and> verified (Verify P m (m_PubKey m))")
  case True
  obtain res r1 where b: "bind (ev_io E) (m_Name m) (m_PubKey m) src (ev_now E) r = (res, r1)" by (metis prod.exhaust)
  show ?thesis
  proof (cases "res = bindRejected")
    case rej: True
    then show ?thesis using assms True b bind_names [OF b] by (simp add: handle_register_def)
  next
    case False
    then have "rg_names r' = rg_names r1" using assms True b by (cases res) (auto simp: handle_register_def)
    then show ?thesis using True b False by blast
  qed
next
  case False
  then show ?thesis using assms by (auto simp: handle_register_def split: sum.splits if_splits)
qed

lemma rebind_cases:
  assumes "handle_rebind P E src m r = (out, r')"
  shows "rg_names r' = rg_names r \<or>
    (freshTS (ev_now E) (m_TS m) \<and>
     (\<exists>r1. rebind P (m_Name m) (m_PubKey m) (m_Sig m) (m_TS m) (m_Nonce m) (ev_now E) r = (Inr (), r1) \<and> rg_names r' = rg_names r1))"
proof (cases "freshTS (ev_now E) (m_TS m)")
  case True
  obtain res r1 where b: "rebind P (m_Name m) (m_PubKey m) (m_Sig m) (m_TS m) (m_Nonce m) (ev_now E) r = (res, r1)"
    by (metis prod.exhaust)
  show ?thesis
  proof (cases res)
    case (Inl e)
    then show ?thesis using assms True b rebind_names [OF b] by (simp add: handle_rebind_def)
  next
    case (Inr u)
    then show ?thesis using assms True b by (auto simp: handle_rebind_def)
  qed
qed (use assms in \<open>simp add: handle_rebind_def\<close>)

text \<open>A message that hands the name \<open>n\<close> on, with the signature of the key \<open>k\<close>.\<close>

definition transfers :: "prims \<Rightarrow> string \<Rightarrow> string \<Rightarrow> message \<Rightarrow> bool" where
  "transfers P n k m \<longleftrightarrow> m_Kind m = KindRebind \<and> m_Name m = n \<and>
     verified (VerifyDetached P k (RebindBytes n (m_PubKey m) (m_TS m) (m_Nonce m)) (m_Sig m))"

text \<open>A message that claims the name \<open>n\<close> for the key \<open>k\<close>, with the signature of \<open>k\<close> itself.\<close>

definition claims :: "prims \<Rightarrow> string \<Rightarrow> string \<Rightarrow> message \<Rightarrow> bool" where
  "claims P n k m \<longleftrightarrow> m_Kind m = KindRegister \<and> m_Name m = n \<and> m_PubKey m = k \<and> verified (Verify P m k)"

lemma handle_owner:
  assumes "reg_handle P E src m r = (out, r')"
  shows "owner r' n = owner r n \<or>
    (\<exists>k. owner r n = Some k \<and> transfers P n k m \<and> owner r' n = Some (m_PubKey m) \<and> freshTS (ev_now E) (m_TS m)) \<or>
    (owner r n = None \<and> claims P n (m_PubKey m) m \<and> owner r' n = Some (m_PubKey m) \<and> freshTS (ev_now E) (m_TS m))"
proof -
  consider "m_Kind m = KindRegister" "handle_register P E src m r = (out, r')"
    | "m_Kind m = KindRebind" "handle_rebind P E src m r = (out, r')" | "r' = r"
    using assms by (auto simp: reg_handle_def kind_defs split: if_splits)
  then show ?thesis
  proof cases
    case 1
    from register_cases [OF 1(2)] show ?thesis
    proof
      assume "rg_names r' = rg_names r"
      then show ?thesis using owner_names by blast
    next
      assume "freshTS (ev_now E) (m_TS m) \<and> verified (Verify P m (m_PubKey m)) \<and>
        (\<exists>res r1. bind (ev_io E) (m_Name m) (m_PubKey m) src (ev_now E) r = (res, r1) \<and> res \<noteq> bindRejected \<and> rg_names r' = rg_names r1)"
      then obtain res r1 where f: "freshTS (ev_now E) (m_TS m)" "verified (Verify P m (m_PubKey m))"
        and b: "bind (ev_io E) (m_Name m) (m_PubKey m) src (ev_now E) r = (res, r1)" "res \<noteq> bindRejected" "rg_names r' = rg_names r1" by blast
      have "owner r' x = owner r1 x" for x using b(3) by (simp add: owner_def)
      then show ?thesis
        using bind_names [OF b(1)] b(2) f 1(1) owner_other [of r1 n r] unfolding claims_def by (cases "n = m_Name m") auto
    qed
  next
    case 2
    from rebind_cases [OF 2(2)] show ?thesis
    proof
      assume "rg_names r' = rg_names r"
      then show ?thesis using owner_names by blast
    next
      assume "freshTS (ev_now E) (m_TS m) \<and>
        (\<exists>r1. rebind P (m_Name m) (m_PubKey m) (m_Sig m) (m_TS m) (m_Nonce m) (ev_now E) r = (Inr (), r1) \<and> rg_names r' = rg_names r1)"
      then obtain r1 where f: "freshTS (ev_now E) (m_TS m)"
        and b: "rebind P (m_Name m) (m_PubKey m) (m_Sig m) (m_TS m) (m_Nonce m) (ev_now E) r = (Inr (), r1)" "rg_names r' = rg_names r1" by blast
      have "owner r' x = owner r1 x" for x using b(2) by (simp add: owner_def)
      then show ?thesis
        using rebind_names [OF b(1)] f 2(1) owner_other [of r1 n r] unfolding transfers_def by (cases "n = m_Name m") auto
    qed
  qed simp
qed

section \<open>Pruning\<close>

lemma prune_names_sub: "fst ` set (fst (prune_names now ns)) \<subseteq> fst ` set ns"
proof (induction ns)
  case (Cons p ns)
  obtain m rec xs a b where "p = (m, rec)" "prune_names now ns = (xs, a, b)" by (metis prod.exhaust)
  then show ?case using Cons.IH by (auto simp: Let_def)
qed simp

lemma prune_names_distinct: "distinct (map fst ns) \<Longrightarrow> distinct (map fst (fst (prune_names now ns)))"
proof (induction ns)
  case (Cons p ns)
  obtain m rec xs a b where p: "p = (m, rec)" "prune_names now ns = (xs, a, b)" by (metis prod.exhaust)
  then show ?case using Cons prune_names_sub [of now ns] by (auto simp: Let_def)
qed simp

lemma prune_names_of:
  "distinct (map fst ns) \<Longrightarrow> map_of (fst (prune_names now ns)) n =
     (case map_of ns n of
        None \<Rightarrow> None
      | Some rec \<Rightarrow> if Time_Sub now (rr_LastSeen rec) > bindingRetention then None
                    else Some (if Time_Sub now (rr_LastSeen rec) > staleAfter then rec\<lparr>rr_Endpoint := None\<rparr> else rec))"
proof (induction ns)
  case (Cons p ns)
  obtain m rec where p: "p = (m, rec)" by (cases p)
  show ?case
  proof (cases "m = n")
    case True
    then have "n \<notin> fst ` set (fst (prune_names now ns))" using Cons.prems p prune_names_sub [of now ns] by auto
    then have "map_of (fst (prune_names now ns)) n = None" by (simp add: map_of_eq_None_iff)
    then show ?thesis using True p by (auto simp: Let_def split: prod.splits)
  next
    case False
    then show ?thesis using Cons p by (auto simp: Let_def split: prod.splits)
  qed
qed simp

lemma prune_keeps_owner:
  assumes "reg_ok r" "owner r n = Some k" "\<And>rec. map_of (rg_names r) n = Some rec \<Longrightarrow> Time_Sub now (rr_LastSeen rec) \<le> bindingRetention"
  shows "owner (prune_round io now r) n = Some k"
proof -
  obtain rec where rec: "map_of (rg_names r) n = Some rec" "rr_PubB64 rec = k" using assms(2) by (auto simp: owner_def)
  have "rg_names (prune_round io now r) = fst (prune_names now (rg_names r))"
    by (simp add: prune_round_def prune_def split: prod.splits)
  then show ?thesis using prune_names_of [of "rg_names r" now n] assms(1) rec assms(3) [OF rec(1)] by (auto simp: owner_def reg_ok_def)
qed

section \<open>The table stays a map\<close>

lemma reg_ok_names: "rg_names r' = rg_names r \<Longrightarrow> reg_ok r \<Longrightarrow> reg_ok r'"
  by (simp add: reg_ok_def)

lemma reg_ok_bind: "reg_ok r \<Longrightarrow> bind io n k e now r = (res, r') \<Longrightarrow> reg_ok r'"
  by (auto simp: bind_def reg_ok_def Let_def split: option.splits if_splits)

lemma reg_ok_rebind: "reg_ok r \<Longrightarrow> rebind P n k sg ts no now r = (res, r') \<Longrightarrow> reg_ok r'"
  by (auto simp: rebind_def reg_ok_def split: option.splits if_splits sum.splits)

lemma reg_ok_handle:
  assumes "reg_ok r" "reg_handle P E src m r = (out, r')"
  shows "reg_ok r'"
proof -
  consider "handle_register P E src m r = (out, r')" | "handle_rebind P E src m r = (out, r')" | "r' = r"
    using assms(2) by (auto simp: reg_handle_def split: if_splits)
  then show ?thesis
  proof cases
    case 1
    from register_cases [OF 1] show ?thesis using reg_ok_bind [OF assms(1)] reg_ok_names assms(1) by metis
  next
    case 2
    from rebind_cases [OF 2] show ?thesis using reg_ok_rebind [OF assms(1)] reg_ok_names assms(1) by metis
  qed (use assms in simp)
qed

lemma reg_ok_prune: "reg_ok r \<Longrightarrow> reg_ok (prune_round io now r)"
  by (simp add: reg_ok_def prune_round_def prune_def prune_names_distinct split: prod.splits) (metis fst_conv prune_names_distinct)

section \<open>Runs\<close>

text \<open>
  The life of a registry as seen by the owner \<open>k\<close> of \<open>n\<close>: any message from anyone that is not a transfer
  of \<open>n\<close> signed by \<open>k\<close>, and prune rounds less than a year after the last heartbeat.
\<close>

inductive quiet_step :: "prims \<Rightarrow> string \<Rightarrow> string \<Rightarrow> registry \<Rightarrow> registry \<Rightarrow> bool" for P n k where
  q_message: "reg_handle P E src m r = (out, r') \<Longrightarrow> \<not> transfers P n k m \<Longrightarrow> quiet_step P n k r r'"
| q_prune: "(\<And>rec. map_of (rg_names r) n = Some rec \<Longrightarrow> Time_Sub now (rr_LastSeen rec) \<le> bindingRetention) \<Longrightarrow>
     quiet_step P n k r (prune_round io now r)"

interpretation ownership: invariant_system "quiet_step P n k" "\<lambda>r. reg_ok r \<and> owner r n = Some k" for P n k
proof unfold_locales
  fix r r' assume "quiet_step P n k r r'" "reg_ok r \<and> owner r n = Some k"
  then show "reg_ok r' \<and> owner r' n = Some k"
  proof (induction rule: quiet_step.induct)
    case (q_message E src m r out r')
    then show ?case using handle_owner [OF q_message(1), of n] reg_ok_handle [OF _ q_message(1)] by auto
  next
    case (q_prune r now io)
    then show ?case using prune_keeps_owner reg_ok_prune by blast
  qed
qed

section \<open>Restart\<close>

lemma load_owner:
  "distinct (map fst ns) \<Longrightarrow>
   map_option rr_PubB64 (map_of (fold load_binding (map (\<lambda>(n, rec). \<lparr>pb_Name = n, pb_PubB64 = rr_PubB64 rec, pb_LastSeen = rr_LastSeen rec\<rparr>) ns) acc) x) =
     (case map_of ns x of Some rec \<Rightarrow> Some (rr_PubB64 rec) | None \<Rightarrow> map_option rr_PubB64 (map_of acc x))"
proof (induction ns arbitrary: acc)
  case (Cons p ns)
  obtain m rec where p: "p = (m, rec)" by (cases p)
  have "map_of ns m = None" using Cons.prems p by (auto simp: map_of_eq_None_iff)
  then show ?case using Cons p by (auto simp: load_binding_def split: option.splits)
qed simp

lemma names_allocateForRestored [simp]: "rg_names (allocateForRestored io r) = rg_names r"
proof -
  have "rg_names (fold (allocateFor io) xs s) = rg_names s" for xs s by (induction xs arbitrary: s) simp_all
  then show ?thesis by (simp add: allocateForRestored_def)
qed

lemma boot_owner:
  assumes "reg_ok r0" "rg_statePath r0 \<noteq> ''''" "reg_save True r0 = (True, r1)" "cf_state cf \<noteq> ''''" "dk_state dk = rg_file r1"
    "boot io cf dk = Inr r"
  shows "owner r n = owner r0 n"
proof -
  let ?ps = "map (\<lambda>(n, rec). \<lparr>pb_Name = n, pb_PubB64 = rr_PubB64 rec, pb_LastSeen = rr_LastSeen rec\<rparr>) (rg_names r0)"
  have f: "dk_state dk = Content ?ps" using assms(2,3,5) by (auto simp: reg_save_def Let_def)
  have "rg_names r = fold load_binding ?ps []"
    using assms(4,6) f by (auto simp: boot_def reg_load_def Let_def split: sum.splits if_splits)
  then show ?thesis using load_owner [of "rg_names r0" "[]" n] assms(1) by (auto simp: owner_def reg_ok_def split: option.splits)
qed

section \<open>Delegations\<close>

lemma best_delegation_spec:
  "best_delegation name ds best = Some d \<Longrightarrow>
   (d \<in> set ds \<and> Contains (dg_Zone d) name \<or> best = Some d) \<and>
   (\<forall>b. best = Some b \<longrightarrow> zone_Depth (dg_Zone b) \<le> zone_Depth (dg_Zone d)) \<and>
   (\<forall>c \<in> set ds. Contains (dg_Zone c) name \<longrightarrow> zone_Depth (dg_Zone c) \<le> zone_Depth (dg_Zone d))"
proof (induction ds arbitrary: best)
  case (Cons c ds)
  let ?b = "if Contains (dg_Zone c) name then
      (case best of None \<Rightarrow> Some c | Some b \<Rightarrow> if zone_Depth (dg_Zone c) > zone_Depth (dg_Zone b) then Some c else best) else best"
  have "best_delegation name ds ?b = Some d" using Cons.prems by simp
  note ih = Cons.IH [OF this]
  show ?case using ih by (cases best) (auto split: if_splits)
qed simp

lemma best_delegation_None: "best_delegation name ds best = None \<longleftrightarrow> best = None \<and> (\<forall>c \<in> set ds. \<not> Contains (dg_Zone c) name)"
proof (induction ds arbitrary: best)
  case (Cons c ds)
  then show ?case by (cases best) auto
qed simp

lemma check_delegations_ok:
  "check_delegations z ds = None \<longleftrightarrow> (\<forall>d \<in> set ds. IsNarrower (dg_Zone d) z \<and> ValidPubKey (dg_KeyB64 d) \<and> dg_Endpoint d \<noteq> '''')"
  by (induction ds) auto

lemma boot_delegations: "boot io cf dk = Inr r \<Longrightarrow> \<forall>d \<in> set (rg_delegations r). IsNarrower (dg_Zone d) (rg_zoneName r)"
proof -
  have keep: "rg_delegations (allocateForRestored io s) = rg_delegations s \<and> rg_zoneName (allocateForRestored io s) = rg_zoneName s" for s
  proof -
    have "rg_delegations (allocateFor io n s) = rg_delegations s \<and> rg_zoneName (allocateFor io n s) = rg_zoneName s" for n s
      by (auto simp: allocateFor_def split: option.splits sum.splits prod.splits)
    then have "rg_delegations (fold (allocateFor io) xs s) = rg_delegations s \<and> rg_zoneName (fold (allocateFor io) xs s) = rg_zoneName s" for xs s
      by (induction xs arbitrary: s) simp_all
    then show ?thesis by (simp add: allocateForRestored_def)
  qed
  assume b: "boot io cf dk = Inr r"
  obtain ds where ds: "loadDelegations (cf_delegations cf) (dk_delegations dk) (Normalise (cf_zone cf)) = Inr ds"
    using b by (auto simp: boot_def Let_def split: sum.splits)
  have "rg_delegations r = ds \<and> rg_zoneName r = Normalise (cf_zone cf)"
    using b ds keep by (auto simp: boot_def reg_load_def Let_def split: sum.splits if_splits disk.splits)
  moreover have "\<forall>d \<in> set ds. IsNarrower (dg_Zone d) (Normalise (cf_zone cf))"
    using ds by (auto simp: loadDelegations_def check_delegations_ok split: if_splits disk.splits option.splits)
  ultimately show ?thesis by simp
qed

section \<open>Identifiers\<close>

definition nids_ok :: "registry \<Rightarrow> bool" where
  "nids_ok r \<longleftrightarrow> (\<forall>s. rg_nids r = Some s \<longrightarrow> tree_inv (ns_tree s))"

definition path_of :: "registry \<Rightarrow> string \<Rightarrow> path option" where
  "path_of r n = (case rg_nids r of None \<Rightarrow> None | Some s \<Rightarrow> ok (Resolve (ns_tree s) n))"

lemma nids_save [simp]: "rg_nids (snd (reg_save io r)) = rg_nids r"
  by (simp add: reg_save_def Let_def)

lemma nids_bind: "bind io n k e now r = (res, r') \<Longrightarrow> rg_nids r' = rg_nids r"
  by (auto simp: bind_def Let_def split: option.splits if_splits)

lemma nids_rebind: "rebind P n k sg ts no now r = (res, r') \<Longrightarrow> rg_nids r' = rg_nids r"
  by (auto simp: rebind_def split: option.splits if_splits sum.splits)

lemma allocateFor_paths:
  assumes "nids_ok r"
  shows "nids_ok (allocateFor io n r) \<and> (\<forall>m p. path_of r m = Some p \<longrightarrow> path_of (allocateFor io n r) m = Some p)"
proof (cases "rg_nids r")
  case None
  then show ?thesis using assms by (simp add: allocateFor_def)
next
  case (Some s)
  then have inv: "tree_inv (ns_tree s)" using assms by (simp add: nids_ok_def)
  let ?t = "snd (Allocate n (ns_tree s))"
  have keep: "Resolve (ns_tree s) m = Inr p \<Longrightarrow> Resolve ?t m = Inr p" for m p
    using Resolve_ext [OF inv Allocate_ext [OF inv] Allocate_root] .
  have tree: "ns_tree (snd (nid_save io (s\<lparr>ns_tree := t\<rparr>))) = t" for t by (simp add: nid_save_def)
  have "allocateFor io n r = r \<or> (\<exists>s'. rg_nids (allocateFor io n r) = Some s' \<and> ns_tree s' = ?t)"
    using Some tree by (auto simp: allocateFor_def split: option.splits prod.splits sum.splits)
  then show ?thesis
  proof
    assume "\<exists>s'. rg_nids (allocateFor io n r) = Some s' \<and> ns_tree s' = ?t"
    then obtain s' where "rg_nids (allocateFor io n r) = Some s'" "ns_tree s' = ?t" by blast
    then show ?thesis using Some keep Allocate_inv [OF inv] by (simp add: nids_ok_def path_of_def)
  qed (use assms in simp)
qed

lemma handle_paths:
  assumes "nids_ok r" "reg_handle P E src m r = (out, r')"
  shows "nids_ok r' \<and> (\<forall>n p. path_of r n = Some p \<longrightarrow> path_of r' n = Some p)"
proof -
  have same: "nids_ok s \<and> (\<forall>n p. path_of r n = Some p \<longrightarrow> path_of s n = Some p)" if "rg_nids s = rg_nids r" for s
    using that assms(1) by (simp add: nids_ok_def path_of_def)
  consider "handle_register P E src m r = (out, r')" | "handle_rebind P E src m r = (out, r')" | "r' = r"
    using assms(2) by (auto simp: reg_handle_def split: if_splits)
  then show ?thesis
  proof cases
    case 1
    obtain res r1 where b: "bind (ev_io E) (m_Name m) (m_PubKey m) src (ev_now E) r = (res, r1)" by (metis prod.exhaust)
    have "r' = r \<or> r' = r1 \<or> r' = allocateFor (ev_nio E) (m_Name m) r1"
      using 1 b by (cases res) (auto simp: handle_register_def split: if_splits sum.splits)
    then show ?thesis using same [OF refl] same [OF nids_bind [OF b]] allocateFor_paths [of r1] by auto
  next
    case 2
    then have "rg_nids r' = rg_nids r" using nids_rebind
      by (auto simp: handle_rebind_def split: if_splits sum.splits prod.splits)
    then show ?thesis by (rule same)
  next
    case 3
    then show ?thesis using same [OF refl] by simp
  qed
qed

section \<open>An example registry\<close>

definition ex_key :: "u8 \<Rightarrow> bytes" where "ex_key b = replicate 32 b"

definition ex_pub :: "u8 \<Rightarrow> string" where "ex_pub b = EncodeToString (ex_key b)"

definition ex_reg :: registry where
  "ex_reg = \<lparr>rg_names = [(''host.z'', \<lparr>rr_PubB64 = ex_pub 1, rr_Endpoint = Some ''10.0.0.1:9'', rr_LastSeen = 0\<rparr>)],
     rg_statePath = ''s'', rg_file = Missing, rg_signPriv = ex_key 9, rg_signPub = ex_pub 9, rg_zoneName = ''z'',
     rg_delegations = [\<lparr>dg_Zone = ''d.z'', dg_Endpoint = ''10.0.0.9:1'', dg_KeyB64 = ex_pub 7, dg_Path = ''''\<rparr>],
     rg_nids = Some \<lparr>ns_tree = NewTree, ns_path = '''', ns_file = Missing\<rparr>\<rparr>"

definition ex_env :: env where "ex_env = \<lparr>ev_now = 0, ev_io = True, ev_nio = True\<rparr>"

definition ex_register :: "string \<Rightarrow> u8 \<Rightarrow> message" where
  "ex_register n b = Sign toy (ex_key b) (Message0\<lparr>m_Kind := KindRegister, m_Name := n, m_PubKey := ex_pub b\<rparr>)"

definition ex_rebind :: message where
  "ex_rebind = Message0\<lparr>m_Kind := KindRebind, m_Name := ''host.z'', m_PubKey := ex_pub 2,
     m_Sig := SignDetached toy (ex_key 1) (RebindBytes ''host.z'' (ex_pub 2) 0 '''')\<rparr>"

lemma ex_key_pair: "ed_pair toy (ex_key b) (ex_key b)"
  by (simp add: toy_pair ex_key_def PublicKeySize_def)

lemma ex_pub_inj: "ex_pub a = ex_pub b \<longleftrightarrow> a = b"
  by (simp add: ex_pub_def EncodeToString_inj ex_key_def)

lemma ex_pub_valid: "ValidPubKey (ex_pub b)"
  by (simp add: ValidPubKey_def ex_pub_def ex_key_def PublicKeySize_def)

lemma ex_fresh: "freshTS 0 0"
  by (simp add: freshTS_def skew_ok_iff maxSkew_def Second_def maxDuration_def UnixMilli_def)

lemma ex_register_verified: "verified (Verify toy (ex_register n b) (ex_pub b))" "m_PubKey (ex_register n b) = ex_pub b"
  "m_Name (ex_register n b) = n" "m_Kind (ex_register n b) = KindRegister" "m_TS (ex_register n b) = 0"
proof -
  show "verified (Verify toy (ex_register n b) (ex_pub b))"
    unfolding ex_register_def ex_pub_def by (rule Verify_Sign [OF ex_key_pair])
qed (simp_all add: ex_register_def Sign_def Message0_def)

lemma ex_rebind_verified: "transfers toy ''host.z'' (ex_pub 1) ex_rebind"
  using Verify_SignDetached [OF ex_key_pair, of 1 "RebindBytes ''host.z'' (ex_pub 2) 0 ''''"]
  by (simp add: transfers_def ex_rebind_def Message0_def ex_pub_def)

lemma ex_reg_ok: "reg_ok ex_reg" "owner ex_reg ''host.z'' = Some (ex_pub 1)" "nids_ok ex_reg"
  by (simp_all add: reg_ok_def owner_def ex_reg_def nids_ok_def tree_inv_New)

lemma handle_register_ok:
  "reg_handle toy ex_env src (ex_register n b) r =
     (case bind True n (ex_pub b) src 0 r of
        (bindRejected, r1) \<Rightarrow> ([(src, errMsg ''name is bound to another key'')], r1)
      | (_, r1) \<Rightarrow> ([(src, Message0\<lparr>m_Kind := KindRegisterAck, m_Name := n, m_Endpoint := src\<rparr>)], allocateFor True n r1))"
  using ex_register_verified [of n b] ex_fresh by (simp add: reg_handle_def handle_register_def ex_env_def split: prod.splits bindResult.splits)

section \<open>Properties\<close>

text \<open>C3. A name is owned, not leased: while no transfer signed by its key arrives and no prune round
  comes a year after its last heartbeat, the key a name is bound to stays bound through any
  sequence of messages from anyone and any number of prune rounds.\<close>

theorem ownership_is_kept:
  assumes "(quiet_step P n k)\<^sup>*\<^sup>* r r'" "reg_ok r" "owner r n = Some k"
  shows "owner r' n = Some k"
  using ownership.run_inv [OF assms(1)] assms(2,3) by blast

theorem ownership_is_kept_witness:
  "owner (snd (reg_handle toy ex_env ''6.6.6.6:6'' (ex_register ''host.z'' 2) ex_reg)) ''host.z'' = Some (ex_pub 1)"
proof -
  let ?m = "ex_register ''host.z'' 2"
  have "\<not> transfers toy ''host.z'' (ex_pub 1) ?m" using ex_register_verified(4) [of "''host.z''" 2] by (auto simp: transfers_def kind_defs)
  then have "quiet_step toy ''host.z'' (ex_pub 1) ex_reg (snd (reg_handle toy ex_env ''6.6.6.6:6'' ?m ex_reg))"
    by (intro q_message [of toy ex_env "''6.6.6.6:6''" ?m ex_reg "fst (reg_handle toy ex_env ''6.6.6.6:6'' ?m ex_reg)"]) simp_all
  from ownership_is_kept [OF r_into_rtranclp [of "quiet_step toy ''host.z'' (ex_pub 1)", OF this] ex_reg_ok(1,2)] show ?thesis .
qed

text \<open>C25. Every change of ownership is authorised: when a message changes the key of a name, either the
  name was unbound and the message is a fresh registration signed by the new key itself, or it is a
  fresh transfer signed by the current key over the new one.\<close>

theorem ownership_change_authorised:
  assumes "reg_handle P E src m r = (out, r')" "owner r' n \<noteq> owner r n"
  shows "freshTS (ev_now E) (m_TS m) \<and> m_Name m = n \<and> owner r' n = Some (m_PubKey m) \<and>
    (case owner r n of
       None \<Rightarrow> m_Kind m = KindRegister \<and> verified (Verify P m (m_PubKey m))
     | Some k \<Rightarrow> m_Kind m = KindRebind \<and>
         verified (VerifyDetached P k (RebindBytes n (m_PubKey m) (m_TS m) (m_Nonce m)) (m_Sig m)))"
  using handle_owner [OF assms(1), of n] assms(2) by (auto simp: transfers_def claims_def)

theorem ownership_change_authorised_witness:
  "owner (snd (reg_handle toy ex_env ''1.1.1.1:1'' ex_rebind ex_reg)) ''host.z'' = Some (ex_pub 2)"
proof -
  let ?r = "snd (reg_handle toy ex_env ''1.1.1.1:1'' ex_rebind ex_reg)"
  have "ex_pub 1 \<noteq> ex_pub 2" by (simp add: ex_pub_inj)
  moreover have k: "m_Kind ex_rebind = KindRebind" "m_TS ex_rebind = 0" "m_Name ex_rebind = ''host.z''" "m_PubKey ex_rebind = ex_pub 2"
    by (simp_all add: ex_rebind_def Message0_def)
  moreover have "verified (VerifyDetached toy (ex_pub 1) (RebindBytes ''host.z'' (ex_pub 2) 0 (m_Nonce ex_rebind)) (m_Sig ex_rebind))"
    using ex_rebind_verified k by (simp add: transfers_def)
  ultimately have "owner ?r ''host.z'' \<noteq> owner ex_reg ''host.z''"
    using ex_fresh ex_pub_valid [of 2]
    by (simp add: reg_handle_def handle_rebind_def rebind_def kind_defs ex_env_def owner_def) (simp add: ex_reg_def)
  from ownership_change_authorised [OF prod.collapse [symmetric] this] show ?thesis using k by simp
qed

text \<open>Ownership survives a restart: a registry started from the file another one saved knows every
  name by the key it was bound to, and knows no other name.\<close>

theorem ownership_survives_restart:
  assumes "reg_ok r0" "rg_statePath r0 \<noteq> ''''" "reg_save True r0 = (True, r1)" "cf_state cf \<noteq> ''''" "dk_state dk = rg_file r1"
    "boot io cf dk = Inr r"
  shows "owner r n = owner r0 n"
  using boot_owner [OF assms] .

definition ex_cf :: reg_config where
  "ex_cf = \<lparr>cf_state = ''s'', cf_zone = ''Z.'', cf_delegations = '''', cf_nids = '''', cf_zonePath = '''', cf_priv = ex_key 9, cf_pub = ex_pub 9\<rparr>"

definition ex_dk :: reg_disk where
  "ex_dk = \<lparr>dk_state = rg_file (snd (reg_save True ex_reg)), dk_delegations = Missing, dk_nids = Missing\<rparr>"

theorem ownership_survives_restart_witness: "\<exists>r. boot True ex_cf ex_dk = Inr r \<and> owner r ''host.z'' = Some (ex_pub 1)"
proof -
  have p: "rg_statePath ex_reg \<noteq> ''''" by (simp add: ex_reg_def)
  have s: "reg_save True ex_reg = (True, snd (reg_save True ex_reg))" by (simp add: reg_save_def Let_def)
  obtain ps where ps: "dk_state ex_dk = Content ps" using p by (auto simp: ex_dk_def reg_save_def Let_def)
  obtain r where r: "boot True ex_cf ex_dk = Inr r"
    using ps by (simp add: boot_def loadDelegations_def boot_nids_def reg_load_def ex_cf_def Let_def)
  have "cf_state ex_cf \<noteq> ''''" "dk_state ex_dk = rg_file (snd (reg_save True ex_reg))" by (simp_all add: ex_cf_def ex_dk_def)
  from ownership_survives_restart [OF ex_reg_ok(1) p s this r] show ?thesis using r ex_reg_ok(2) by auto
qed

text \<open>C32. A referral goes to the most specific branch: the delegation chosen for a name is one of the
  registry's own, contains the name, and no other delegation that contains it is deeper; there is
  none exactly when no delegation contains the name.\<close>

theorem delegation_most_specific:
  "(case delegationFor r name of
      Some d \<Rightarrow> d \<in> set (rg_delegations r) \<and> Contains (dg_Zone d) name \<and>
        list_all (\<lambda>c. Contains (dg_Zone c) name \<longrightarrow> zone_Depth (dg_Zone c) \<le> zone_Depth (dg_Zone d)) (rg_delegations r)
    | None \<Rightarrow> list_all (\<lambda>c. \<not> Contains (dg_Zone c) name) (rg_delegations r))"
  using best_delegation_spec [of name "rg_delegations r" None] best_delegation_None [of name "rg_delegations r" None]
  by (auto simp: delegationFor_def list_all_iff split: option.splits)

theorem delegation_most_specific_witness:
  "delegationFor ex_reg ''a.d.z'' \<noteq> None"
proof
  assume "delegationFor ex_reg ''a.d.z'' = None"
  then have "\<not> Contains ''d.z'' ''a.d.z''"
    using delegation_most_specific [where r = ex_reg and name = "''a.d.z''"] by (simp add: ex_reg_def)
  moreover have "Contains ''d.z'' ''a.d.z''" by code_simp
  ultimately show False by blast
qed

text \<open>Authority only flows downwards: a registry that starts has no delegation outside its own zone
  and none of the whole zone; each lies strictly beneath it.\<close>

theorem delegations_only_narrow:
  assumes "boot io cf dk = Inr r" "d \<in> set (rg_delegations r)"
  shows "IsNarrower (dg_Zone d) (rg_zoneName r) \<and> (\<forall>n. Contains (dg_Zone d) n \<longrightarrow> Contains (rg_zoneName r) n)"
  using boot_delegations [OF assms(1)] assms(2) zones.narrower_inside by blast

definition ex_del :: delegation where
  "ex_del = \<lparr>dg_Zone = ''d.z'', dg_Endpoint = ''10.0.0.9:1'', dg_KeyB64 = ex_pub 7, dg_Path = ''''\<rparr>"

theorem delegations_only_narrow_witness:
  "\<exists>r. boot True (ex_cf\<lparr>cf_delegations := ''f''\<rparr>) (ex_dk\<lparr>dk_delegations := Content [ex_del], dk_state := Missing\<rparr>) = Inr r \<and>
     IsNarrower (dg_Zone ex_del) (rg_zoneName r)"
proof -
  let ?cf = "ex_cf\<lparr>cf_delegations := ''f''\<rparr>" and ?dk = "ex_dk\<lparr>dk_delegations := Content [ex_del], dk_state := Missing\<rparr>"
  have "IsNarrower ''d.z'' (Normalise ''Z.'')" by code_simp
  then have "\<exists>r. boot True ?cf ?dk = Inr r \<and> ex_del \<in> set (rg_delegations r)"
    using ex_pub_valid [of 7] by (simp add: boot_def loadDelegations_def boot_nids_def reg_load_def ex_cf_def Let_def ex_del_def)
  then show ?thesis using delegations_only_narrow by blast
qed

text \<open>What a resolution answers: a name outside the registry's zone is refused, a name in a delegated
  branch gets the signed referral, and otherwise the answer is the current owner's key at its last
  known endpoint, heard from within the last minute, echoing the nonce, with a signature over
  exactly these fields that verifies under the registry's key.\<close>

theorem resolve_answer:
  assumes "m_Kind m = KindResolve" "ed_pair P (rg_signPriv r) pub" "reg_handle P E src m r = (out, r')"
  shows "r' = r \<and> length out = 1 \<and> fst (hd out) = src \<and>
    (m_Kind (snd (hd out)) = KindResolveResp \<longrightarrow>
       (rg_zoneName r = '''' \<or> Contains (rg_zoneName r) (m_Target m)) \<and> delegationFor r (m_Target m) = None \<and>
       m_Target (snd (hd out)) = m_Target m \<and> m_Nonce (snd (hd out)) = m_Nonce m \<and>
       owner r (m_Target m) = Some (m_PubKey (snd (hd out))) \<and>
       verified (VerifyDetached P (EncodeToString pub)
         (ResolveRespBytes (m_Target m) (m_PubKey (snd (hd out))) (m_Endpoint (snd (hd out))) (m_TS (snd (hd out))) (m_Nonce m))
         (m_Sig (snd (hd out))))) \<and>
    (m_Kind (snd (hd out)) = KindReferral \<longrightarrow>
       (\<exists>d. delegationFor r (m_Target m) = Some d \<and> m_Zone (snd (hd out)) = dg_Zone d \<and> m_PubKey (snd (hd out)) = dg_KeyB64 d \<and>
       verified (VerifyDetached P (EncodeToString pub)
         (ReferralBytes (m_Target m) (dg_Zone d) (dg_Endpoint d) (dg_KeyB64 d) (m_TS (snd (hd out))) (m_Nonce m)) (m_Sig (snd (hd out))))))"
proof -
  have sig: "verified (VerifyDetached P (EncodeToString pub) msg (SignDetached P (rg_signPriv r) msg))" for msg
    using Verify_SignDetached [OF assms(2)] .
  have r: "r' = r" "out = handle_resolve P E src m r"
    using assms(1,3) by (auto simp: reg_handle_def kind_defs)
  show ?thesis
    unfolding r using sig
    by (auto simp: handle_resolve_def errMsg_def referral_def resolve_resp_def owner_def Message0_def kind_defs Let_def split: option.splits)
qed

theorem resolve_answer_witness:
  "owner ex_reg ''host.z'' = Some (m_PubKey (snd (hd (fst (reg_handle toy ex_env ''2.2.2.2:2'' (Message0\<lparr>m_Kind := KindResolve, m_Target := ''host.z''\<rparr>) ex_reg)))))"
proof -
  let ?m = "Message0\<lparr>m_Kind := KindResolve, m_Target := ''host.z''\<rparr>"
  let ?x = "reg_handle toy ex_env ''2.2.2.2:2'' ?m ex_reg"
  have "Contains ''z'' ''host.z''" "\<not> Contains ''d.z'' ''host.z''" by code_simp+
  then have d: "delegationFor ex_reg ''host.z'' = None" "Contains (rg_zoneName ex_reg) ''host.z''"
    by (simp_all add: delegationFor_def ex_reg_def)
  obtain rec where rec: "map_of (rg_names ex_reg) ''host.z'' = Some rec" "is_fresh 0 rec"
    by (simp add: ex_reg_def is_fresh_def Time_Sub_def staleAfter_def Second_def minDuration_def maxDuration_def)
  have "m_Kind (resolve_resp P now m rec r) = KindResolveResp" for P now m rec r
    by (simp add: resolve_resp_def Let_def)
  then have "m_Kind (snd (hd (fst ?x))) = KindResolveResp"
    using d rec by (simp add: reg_handle_def handle_resolve_def kind_defs ex_env_def)
  moreover have "ed_pair toy (rg_signPriv ex_reg) (ex_key 9)" using ex_key_pair [of 9] by (simp add: ex_reg_def)
  moreover have "?x = (fst ?x, snd ?x)" by simp
  ultimately show ?thesis using resolve_answer [of ?m toy ex_reg "ex_key 9" ex_env "''2.2.2.2:2''" "fst ?x" "snd ?x"] by simp
qed

text \<open>C31. Identifiers are for good: no message changes the path of a name that has one, and the
  allocation tree stays consistent.\<close>

theorem paths_are_stable:
  assumes "nids_ok r" "reg_handle P E src m r = (out, r')" "path_of r n = Some p"
  shows "path_of r' n = Some p \<and> nids_ok r'"
  using handle_paths [OF assms(1,2)] assms(3) by blast

definition ex_reg1 :: registry where
  "ex_reg1 = allocateFor True ''host.z'' ex_reg"

theorem paths_are_stable_witness:
  "path_of (snd (reg_handle toy ex_env ''1.1.1.1:1'' (ex_register ''new.z'' 3) ex_reg1)) ''host.z'' = Some [1, 1]"
proof -
  have "path_of ex_reg1 ''host.z'' = Some [1, 1]" by code_simp
  moreover have "nids_ok ex_reg1" using allocateFor_paths [OF ex_reg_ok(3)] by (simp add: ex_reg1_def)
  ultimately show ?thesis using paths_are_stable [OF _ prod.collapse [symmetric]] by blast
qed

text \<open>Ownership compares names byte for byte while identifiers are allocated to the lower-cased name:
  two spellings of one name can be registered by two different keys, and both then publish the same
  path.\<close>

theorem case_variants_share_path:
  "\<exists>r. snd (reg_handle toy ex_env ''1.1.1.1:1'' (ex_register ''Host.z'' 2) ex_reg1) = r \<and>
     owner r ''host.z'' = Some (ex_pub 1) \<and> owner r ''Host.z'' = Some (ex_pub 2) \<and> ex_pub 1 \<noteq> ex_pub 2 \<and>
     pathFor r ''host.z'' = ''1.1'' \<and> pathFor r ''Host.z'' = ''1.1''"
proof -
  have "splitName ''Host.z'' = splitName ''host.z''" by code_simp
  then have "Resolve t ''Host.z'' = Resolve t ''host.z''" for t by (simp only: Resolve_def)
  then have same: "pathFor r ''Host.z'' = pathFor r ''host.z''" for r by (simp only: pathFor_def)
  have p: "path_of ex_reg1 ''host.z'' = Some [1, 1]" by code_simp
  let ?x = "reg_handle toy ex_env ''1.1.1.1:1'' (ex_register ''Host.z'' 2) ex_reg1"
  have n: "rg_names ex_reg1 = rg_names ex_reg" by (simp add: ex_reg1_def)
  have o: "owner (snd ?x) ''host.z'' = Some (ex_pub 1) \<and> owner (snd ?x) ''Host.z'' = Some (ex_pub 2)"
  proof -
    have "map_of (rg_names ex_reg1) ''Host.z'' = None" "map_option rr_PubB64 (map_of (rg_names ex_reg1) ''host.z'') = Some (ex_pub 1)"
      unfolding n by (simp_all add: ex_reg_def)
    then show ?thesis unfolding handle_register_ok by (simp add: bind_def owner_def)
  qed
  have "path_of (snd ?x) ''host.z'' = Some [1, 1]"
    using handle_paths [of ex_reg1 toy ex_env "''1.1.1.1:1''" "ex_register ''Host.z'' 2" "fst ?x" "snd ?x"]
      allocateFor_paths [OF ex_reg_ok(3)] p by (simp add: ex_reg1_def)
  then have "pathFor (snd ?x) ''host.z'' = Path_String [1, 1]" by (simp add: path_of_def pathFor_def split: option.splits)
  moreover have "Path_String [1, 1] = ''1.1''" by code_simp
  ultimately show ?thesis using o same by (intro exI [of _ "snd ?x"]) (simp add: ex_pub_inj)
qed

text \<open>The registry answers \<^verbatim>\<open>RESOLVE\<close>, \<^verbatim>\<open>NAMESPACE\<close> and \<^verbatim>\<open>INTRO\<close> without looking at the signature or
  the time of the request: replacing either by anything changes neither the replies nor the state.\<close>

theorem requests_not_authenticated:
  "m_Kind m \<in> {KindResolve, KindNamespace, KindIntro} \<longrightarrow>
   reg_handle P E src (m\<lparr>m_Sig := sg, m_TS := ts\<rparr>) r = reg_handle P E src m r"
  by (auto simp: reg_handle_def handle_resolve_def handle_namespace_def handle_intro_def referral_def resolve_resp_def kind_defs Let_def
      split: option.splits)

definition ex_intro :: message where
  "ex_intro = Message0\<lparr>m_Kind := KindIntro, m_Name := ''anyone'', m_Target := ''host.z''\<rparr>"

theorem requests_not_authenticated_witness:
  "reg_handle toy ex_env ''5.5.5.5:5'' (ex_intro\<lparr>m_Sig := ''junk'', m_TS := 77\<rparr>) ex_reg = reg_handle toy ex_env ''5.5.5.5:5'' ex_intro ex_reg"
proof -
  have "m_Kind ex_intro \<in> {KindResolve, KindNamespace, KindIntro}" by (simp add: ex_intro_def)
  then show ?thesis using requests_not_authenticated by blast
qed

text \<open>The two lifetimes of a record: a prune round forgets where a name is once it has been silent
  for a minute, and forgets who owns it only after 365 days.\<close>

theorem prune_two_lifetimes:
  assumes "reg_ok r" "map_of (rg_names r) n = Some rec"
  shows "map_of (rg_names (snd (prune now r))) n =
    (if Time_Sub now (rr_LastSeen rec) > 365 * 24 * 3600 * Second then None
     else if Time_Sub now (rr_LastSeen rec) > 60 * Second then Some (rec\<lparr>rr_Endpoint := None\<rparr>) else Some rec)"
proof -
  have "rg_names (snd (prune now r)) = fst (prune_names now (rg_names r))" by (simp add: prune_def split: prod.splits)
  then show ?thesis using prune_names_of [of "rg_names r" now n] assms by (simp add: reg_ok_def bindingRetention_def staleAfter_def)
qed

theorem prune_two_lifetimes_witness:
  "map_of (rg_names (snd (prune (61 * Second) ex_reg))) ''host.z'' = Some \<lparr>rr_PubB64 = ex_pub 1, rr_Endpoint = None, rr_LastSeen = 0\<rparr>"
  using prune_two_lifetimes [OF ex_reg_ok(1), of "''host.z''" "\<lparr>rr_PubB64 = ex_pub 1, rr_Endpoint = Some ''10.0.0.1:9'', rr_LastSeen = 0\<rparr>" "61 * Second"]
  by (simp add: ex_reg_def Time_Sub_def Second_def minDuration_def maxDuration_def)

end
