(* ===== verification/Routerd.thy ===== *)
theory Routerd
  imports Proto_Json Go_Json Go_Time
begin

text \<open>
  \<^verbatim>\<open>cmd/dnx-routerd\<close>: the frame format, the walk of a frame through the routers of one node, the
  telemetry ring, and the adoption of the namespace table fetched from a registry
  (\<^verbatim>\<open>main.go\<close> and \<^verbatim>\<open>namespace.go\<close>). Name resolution of hop addresses and the
  exchange of datagrams are arguments.
\<close>

section \<open>Frames\<close>

definition retiredFixedMagic :: u8 where "retiredFixedMagic = 0xDF"
definition pathMagic :: u8 where "pathMagic = 0xDE"

type_synonym pathDest = path

datatype rframe_error = EmptyFrame | RetiredFormat | TruncatedPath | PathFrame ns_error | BadMarker u8

definition keyAt :: "pathDest \<Rightarrow> int \<Rightarrow> string option" where
  "keyAt d depth = (case At d depth of None \<Rightarrow> None | Some nid \<Rightarrow> Some (show_nat (unat nid)))"

definition rt_format :: string where "rt_format = ''namespace-path''"

definition rt_encode :: "pathDest \<Rightarrow> int \<Rightarrow> bytes \<Rightarrow> bytes option" where
  "rt_encode d consumed payload =
     (case ns_Encode d of
        Inl e \<Rightarrow> None
      | Inr enc \<Rightarrow> Some ([pathMagic] @ enc @ PutUint16 (word_of_int consumed) @ payload))"

definition rt_decode :: "bytes \<Rightarrow> rframe_error + pathDest \<times> int \<times> bytes" where
  "rt_decode b =
     (if length b < 1 then Inl EmptyFrame
      else if b ! 0 = retiredFixedMagic then Inl RetiredFormat
      else if b ! 0 = pathMagic then
        if length b < 2 then Inl TruncatedPath
        else (case ns_Decode (drop 1 b) of
                Inl e \<Rightarrow> Inl (PathFrame e)
              | Inr p \<Rightarrow>
                  let encLen = EncodedLen (Path_Depth p)
                  in if length b < 1 + encLen + 2 then Inl TruncatedPath
                     else Inr (p, int (unat (Uint16 (drop (1 + encLen) b))), drop (1 + encLen + 2) b))
      else Inl (BadMarker (b ! 0)))"

section \<open>The node\<close>

record routerCfg =
  rc_Name :: string
  rc_Depth :: int
  rc_NIDs :: "(string \<times> string) list"

record nodeCfg =
  nc_Node :: string
  nc_Routers :: "routerCfg list"
  nc_Hops :: "(string \<times> string) list"
  nc_Firsthop :: string
  nc_Namespace :: "string list"

record event =
  ev_TS :: int
  ev_Node :: string
  ev_Router :: string
  ev_Field :: string
  ev_Value :: string
  ev_NextHop :: string
  ev_Action :: string
  ev_Detail :: string

record daemon =
  dm_cfg :: nodeCfg
  dm_routers :: "(int \<times> routerCfg) list"
  dm_events :: "event list"
  dm_ns :: tree

definition tableFor :: "routerCfg \<Rightarrow> (string \<times> string) list" where
  "tableFor r = rc_NIDs r"

definition levelName :: "int \<Rightarrow> string" where
  "levelName depth =
     (if depth = 0 then ''TLD'' else if depth = 1 then ''domain''
      else if depth = 2 then ''subdomain'' else if depth = 3 then ''host''
      else ''level-'' @ show_int depth)"

definition event0 :: event where
  "event0 = \<lparr>ev_TS = 0, ev_Node = '''', ev_Router = '''', ev_Field = '''', ev_Value = '''', ev_NextHop = '''',
     ev_Action = '''', ev_Detail = ''''\<rparr>"

definition emit :: "time \<Rightarrow> event \<Rightarrow> daemon \<Rightarrow> daemon" where
  "emit now e d =
     (let evs = dm_events d @ [e\<lparr>ev_TS := to_millis now\<rparr>]
      in d\<lparr>dm_events := (if length evs > 200 then drop (length evs - 200) evs else evs)\<rparr>)"

definition events_since :: "int \<Rightarrow> daemon \<Rightarrow> event list" where
  "events_since since d = filter (\<lambda>e. ev_TS e > since) (dm_events d)"

definition hex64 :: "u64 \<Rightarrow> string" where
  "hex64 v = ''0x'' @ map (\<lambda>i. hex_char (unat v div 16 ^ (15 - i) mod 16)) [0..<16]"

section \<open>Routing\<close>

datatype outcome = Dropped | Delivered string | SentTo string int

fun ev_drop :: "daemon \<Rightarrow> string \<Rightarrow> string \<Rightarrow> event" where
  "ev_drop d router detail = event0\<lparr>ev_Node := nc_Node (dm_cfg d), ev_Router := router, ev_Action := ''drop'', ev_Detail := detail\<rparr>"

fun ev_match :: "daemon \<Rightarrow> routerCfg \<Rightarrow> string \<Rightarrow> string \<Rightarrow> string \<Rightarrow> string \<Rightarrow> event" where
  "ev_match d r key nextLabel action detail =
     event0\<lparr>ev_Node := nc_Node (dm_cfg d), ev_Router := rc_Name r, ev_Field := levelName (rc_Depth r), ev_Value := key,
       ev_NextHop := nextLabel, ev_Action := action, ev_Detail := detail\<rparr>"

text \<open>The loop of \<^verbatim>\<open>route\<close>: what becomes of the frame, and the telemetry emitted on the way.\<close>

function route_loop :: "daemon \<Rightarrow> pathDest \<Rightarrow> int \<Rightarrow> outcome \<times> event list" where
  "route_loop d dest consumed =
     (case map_of (dm_routers d) consumed of
        None \<Rightarrow> (Dropped, [ev_drop d '''' (''no local router for level '' @ show_int consumed @ '' ('' @ rt_format @ '')'')])
      | Some r \<Rightarrow>
          (case keyAt dest (rc_Depth r) of
             None \<Rightarrow> (Dropped, [ev_drop d (rc_Name r) (''destination has no level '' @ show_int (rc_Depth r))])
           | Some key \<Rightarrow>
               (case map_of (tableFor r) key of
                  None \<Rightarrow>
                    (Dropped, [ev_match d r key '''' ''drop''
                       (rc_Name r @ '' is authoritative for level '' @ show_int (rc_Depth r) @ ''; no route for '' @ key @
                        '' ('' @ rt_format @ '')'')])
                | Some nextLabel \<Rightarrow>
                    (case map_of (nc_Hops (dm_cfg d)) nextLabel of
                       None \<Rightarrow> (Dropped, [ev_drop d (rc_Name r) (''unknown hop label '' @ nextLabel)])
                     | Some hop \<Rightarrow>
                         let matched = ''matched level '' @ show_int (rc_Depth r) @ '' ('' @ rt_format @ '')''
                         in if hop = '':deliver'' \<or> hop = '':local'' then
                              (Delivered (rc_Name r),
                               [ev_match d r key nextLabel ''deliver'' (matched @ ''; delivered on '' @ nc_Node (dm_cfg d))])
                            else if hop = '':localnext'' then
                              (case map_of (dm_routers d) (consumed + 1) of
                                 None \<Rightarrow> (Dropped, [ev_drop d (rc_Name r) (''localnext but no router for level '' @ show_int (consumed + 1))])
                               | Some r' \<Rightarrow>
                                   let (out, evs) = route_loop d dest (consumed + 1)
                                   in (out, ev_match d r key nextLabel ''forward'' (matched @ '' -> next level on same node'') # evs))
                            else
                              (SentTo hop (consumed + 1),
                               [ev_match d r key nextLabel ''forward'' (matched @ '' -> '' @ nextLabel @ '' @ '' @ hop @ '' (CROSS-INTERNET)'')])))))"
  by pat_completeness auto
termination
proof (relation "measure (\<lambda>(d, dest, consumed). length (filter (\<lambda>p. fst p \<ge> consumed) (dm_routers d)))", goal_cases)
  case (2 d dest consumed r)
  have mem: "(consumed, r) \<in> set (dm_routers d)" using 2 by (simp add: map_of_SomeD)
  have "filter (\<lambda>p. fst p \<ge> consumed + 1) (dm_routers d) = filter (\<lambda>p. fst p \<noteq> consumed) (filter (\<lambda>p. fst p \<ge> consumed) (dm_routers d))"
    by (auto intro: filter_cong)
  then have "length (filter (\<lambda>p. fst p \<ge> consumed + 1) (dm_routers d)) < length (filter (\<lambda>p. fst p \<ge> consumed) (dm_routers d))"
    using mem length_filter_less [of "(consumed, r)" "filter (\<lambda>p. fst p \<ge> consumed) (dm_routers d)" "\<lambda>p. fst p \<noteq> consumed"] by simp
  then show ?case by simp
qed simp

declare route_loop.simps [simp del]

text \<open>\<^verbatim>\<open>sendTo\<close>: \<open>resolve\<close> stands for \<^verbatim>\<open>net.ResolveUDPAddr\<close>; the result is the datagram written, if any.\<close>

definition sendTo :: "(string \<Rightarrow> string option) \<Rightarrow> string \<Rightarrow> pathDest \<Rightarrow> int \<Rightarrow> bytes \<Rightarrow> (string \<times> bytes) option" where
  "sendTo resolve hop dest consumed payload =
     (case resolve hop of
        None \<Rightarrow> None
      | Some a \<Rightarrow> (case rt_encode dest consumed payload of None \<Rightarrow> None | Some b \<Rightarrow> Some (a, b)))"

definition rt_route :: "(string \<Rightarrow> string option) \<Rightarrow> time \<Rightarrow> pathDest \<Rightarrow> int \<Rightarrow> bytes \<Rightarrow> daemon \<Rightarrow> (string \<times> bytes) option \<times> daemon" where
  "rt_route resolve now dest consumed payload d =
     (let (out, evs) = route_loop d dest consumed;
          d' = fold (emit now) evs d
      in (case out of SentTo hop c \<Rightarrow> sendTo resolve hop dest c payload | _ \<Rightarrow> None, d'))"

text \<open>One turn of \<^verbatim>\<open>readLoop\<close>.\<close>

definition rt_receive :: "(string \<Rightarrow> string option) \<Rightarrow> time \<Rightarrow> bytes \<Rightarrow> daemon \<Rightarrow> (string \<times> bytes) option \<times> daemon" where
  "rt_receive resolve now b d =
     (case rt_decode b of
        Inl e \<Rightarrow> (None, d)
      | Inr (dest, consumed, payload) \<Rightarrow> rt_route resolve now dest consumed payload d)"

section \<open>Injection\<close>

datatype inject_result = InjRetired | InjUnknownFormat string | InjError ns_error | Injected string nat

definition demo_payload :: bytes where
  "demo_payload = 0xD8 # to_bytes ''sealed-demo-payload''"

definition inject :: "(string \<Rightarrow> string option) \<Rightarrow> time \<Rightarrow> string \<Rightarrow> string \<Rightarrow> daemon \<Rightarrow> inject_result \<times> (string \<times> bytes) option \<times> daemon" where
  "inject resolve now name fmt d =
     (if fmt = ''fixed'' then (InjRetired, None, d)
      else if fmt \<noteq> '''' \<and> fmt \<noteq> ''path'' then (InjUnknownFormat fmt, None, d)
      else case Resolve (dm_ns d) name of
             Inl e \<Rightarrow> (InjError e, None, d)
           | Inr p \<Rightarrow>
               let enc = (case ns_Encode p of Inl e \<Rightarrow> [] | Inr b \<Rightarrow> b);
                   d1 = emit now (event0\<lparr>ev_Node := nc_Node (dm_cfg d), ev_Action := ''inject'',
                          ev_Detail := name @ '' = ['' @ Path_String p @ ''] via namespace path, '' @ show_nat (length enc) @ '' bytes'',
                          ev_Value := Path_String p\<rparr>) d;
                   (sent, d2) = rt_route resolve now p 0 demo_payload d1
               in (Injected (Path_String p) (length enc), sent, d2))"

section \<open>The namespace table\<close>

datatype fetch_error = FetchNoAnswer | FetchUndecodable | FetchRefused string | FetchUnexpected string | FetchNonce | FetchSig sig_error | FetchTable

text \<open>
  \<^verbatim>\<open>fetchNamespace\<close>: the request with a fresh \<open>nonce\<close>, and what becomes of the answer. \<open>answer\<close> is the datagram that
  came back within the deadline, or nothing when there was none or the socket failed.
\<close>

definition fetch_request :: "time \<Rightarrow> string \<Rightarrow> bytes" where
  "fetch_request now nonce = Encode (Message0\<lparr>m_Kind := KindNamespace, m_TS := to_millis now, m_Nonce := nonce\<rparr>)"

definition fetch_check :: "prims \<Rightarrow> string \<Rightarrow> string \<Rightarrow> message \<Rightarrow> fetch_error + entry list \<times> string" where
  "fetch_check P registryKey nonce m =
     (if m_Kind m = KindError then Inl (FetchRefused (m_Info m))
      else if m_Kind m \<noteq> KindNamespaceResp then Inl (FetchUnexpected (m_Kind m))
      else if m_Nonce m \<noteq> nonce then Inl FetchNonce
      else case VerifyDetached P registryKey (NamespaceBytes (m_Zone m) (m_Info m) (m_TS m) (m_Nonce m)) (m_Sig m) of
             Inl e \<Rightarrow> Inl (FetchSig e)
           | Inr _ \<Rightarrow> (case table_decode (m_Info m) of None \<Rightarrow> Inl FetchTable | Some es \<Rightarrow> Inr (es, m_Zone m)))"

definition fetchNamespace :: "prims \<Rightarrow> string \<Rightarrow> string \<Rightarrow> bytes option \<Rightarrow> fetch_error + entry list \<times> string" where
  "fetchNamespace P registryKey nonce answer =
     (case answer of
        None \<Rightarrow> Inl FetchNoAnswer
      | Some b \<Rightarrow> (case Decode b of None \<Rightarrow> Inl FetchUndecodable | Some m \<Rightarrow> fetch_check P registryKey nonce m))"

fun adopt_entries :: "entry list \<Rightarrow> tree \<Rightarrow> (ns_error + unit) \<times> tree" where
  "adopt_entries [] t = (Inr (), t)"
| "adopt_entries (e # es) t =
     (case Graft (en_Name e) (en_Path e) t of
        (Inl err, t') \<Rightarrow> (Inl err, t')
      | (Inr _, t') \<Rightarrow> adopt_entries es t')"

definition adoptNamespace :: "entry list \<Rightarrow> daemon \<Rightarrow> (ns_error + unit) \<times> daemon" where
  "adoptNamespace es d = (let (r, t) = adopt_entries es (dm_ns d) in (r, d\<lparr>dm_ns := t\<rparr>))"

datatype sync_error = SyncFetch fetch_error | SyncAdopt ns_error

definition syncNamespace :: "prims \<Rightarrow> string \<Rightarrow> string \<Rightarrow> bytes option \<Rightarrow> daemon \<Rightarrow> (sync_error + unit) \<times> daemon" where
  "syncNamespace P registryKey nonce answer d =
     (case fetchNamespace P registryKey nonce answer of
        Inl e \<Rightarrow> (Inl (SyncFetch e), d)
      | Inr (es, z) \<Rightarrow> (case adoptNamespace es d of (Inl e, d') \<Rightarrow> (Inl (SyncAdopt e), d') | (Inr _, d') \<Rightarrow> (Inr (), d')))"

section \<open>Start\<close>

fun derive_namespace :: "string list \<Rightarrow> tree \<Rightarrow> ns_error + tree" where
  "derive_namespace [] t = Inr t"
| "derive_namespace (n # ns) t = (case Allocate n t of (Inl e, t') \<Rightarrow> Inl e | (Inr p, t') \<Rightarrow> derive_namespace ns t')"

definition router_map :: "routerCfg list \<Rightarrow> (int \<times> routerCfg) list" where
  "router_map rs = fold (\<lambda>r m. AList.update (rc_Depth r) r m) rs []"

text \<open>A node without a registry: identifiers derived from the order of the configuration.\<close>

definition start_legacy :: "nodeCfg \<Rightarrow> ns_error + daemon" where
  "start_legacy cfg =
     (case derive_namespace (nc_Namespace cfg) NewTree of
        Inl e \<Rightarrow> Inl e
      | Inr t \<Rightarrow> Inr \<lparr>dm_cfg = cfg, dm_routers = router_map (nc_Routers cfg), dm_events = [], dm_ns = t\<rparr>)"

text \<open>A node with a registry: the first answer must verify and be adopted.\<close>

definition start_registry :: "prims \<Rightarrow> string \<Rightarrow> string \<Rightarrow> bytes option \<Rightarrow> nodeCfg \<Rightarrow> sync_error + daemon" where
  "start_registry P registryKey nonce answer cfg =
     (case syncNamespace P registryKey nonce answer
             \<lparr>dm_cfg = cfg, dm_routers = [], dm_events = [], dm_ns = NewTree\<rparr> of
        (Inl e, d) \<Rightarrow> Inl e
      | (Inr _, d) \<Rightarrow> Inr (d\<lparr>dm_routers := router_map (nc_Routers cfg)\<rparr>))"

text \<open>
  \<^verbatim>\<open>main\<close> after the flags and the configuration are read; \<open>answer\<close> is the reply of the registry to the first
  request. With neither a registry nor a list of names the node starts with an empty tree.
\<close>

datatype start_error = StartNoKey | StartSync sync_error | StartName ns_error

definition rt_start :: "prims \<Rightarrow> string \<Rightarrow> string \<Rightarrow> string \<Rightarrow> bytes option \<Rightarrow> nodeCfg \<Rightarrow> start_error + daemon" where
  "rt_start P registry registryKey nonce answer cfg =
     (if registry \<noteq> '''' then
        if registryKey = '''' then Inl StartNoKey
        else (case start_registry P registryKey nonce answer cfg of Inl e \<Rightarrow> Inl (StartSync e) | Inr d \<Rightarrow> Inr d)
      else (case start_legacy cfg of Inl e \<Rightarrow> Inl (StartName e) | Inr d \<Rightarrow> Inr d))"

text \<open>One turn of \<^verbatim>\<open>namespaceRefreshLoop\<close>: a failed round is only logged.\<close>

definition refresh_round :: "prims \<Rightarrow> string \<Rightarrow> string \<Rightarrow> bytes option \<Rightarrow> daemon \<Rightarrow> daemon" where
  "refresh_round P registryKey nonce answer d = snd (syncNamespace P registryKey nonce answer d)"

end
