(* ===== verification/Routerd_Props.thy ===== *)
theory Routerd_Props
  imports Routerd
begin

text \<open>
  Frames survive the wire, a router reads only the levels it owns and never changes the payload, and
  a router that adopts the table of an authority resolves exactly what the authority resolves.
\<close>

section \<open>Frames\<close>

lemma rt_decode_encode:
  assumes "rt_encode p consumed payload = Some b" "0 \<le> consumed" "consumed < 65536"
  shows "rt_decode b = Inr (p, consumed, payload)"
proof -
  obtain enc where enc: "ns_Encode p = Inr enc" "b = pathMagic # enc @ PutUint16 (word_of_int consumed) @ payload"
    using assms(1) by (auto simp: rt_encode_def split: sum.splits)
  have len: "length enc = EncodedLen (Path_Depth p)" using Encode_length [OF enc(1)] by (simp add: Path_Depth_def)
  have dec: "ns_Decode (drop 1 b) = Inr p" using Decode_Encode_append [OF enc(1)] enc(2) by simp
  have "pathMagic \<noteq> retiredFixedMagic" by (simp add: pathMagic_def retiredFixedMagic_def)
  moreover have d: "drop (1 + EncodedLen (Path_Depth p)) b = PutUint16 (word_of_int consumed) @ payload"
    using enc(2) len by simp
  moreover have "drop (1 + EncodedLen (Path_Depth p) + 2) b = payload"
  proof -
    have "drop (1 + EncodedLen (Path_Depth p) + 2) b = drop 2 (drop (1 + EncodedLen (Path_Depth p)) b)" by (simp add: add.commute)
    then show ?thesis unfolding d by simp
  qed
  moreover have "int (unat (word_of_int consumed :: u16)) = consumed" using assms(2,3) by (simp add: uint_word_of_int)
  moreover have "length b = 1 + EncodedLen (Path_Depth p) + 2 + length payload" using enc(2) len by simp
  moreover have "b ! 0 = pathMagic" using enc(2) by simp
  ultimately show ?thesis using dec by (simp add: rt_decode_def Let_def)
qed

section \<open>Routing\<close>

definition wired :: "daemon \<Rightarrow> bool" where
  "wired d \<longleftrightarrow> (\<forall>k r. map_of (dm_routers d) k = Some r \<longrightarrow> rc_Depth r = k)"

lemma wired_router_map: "\<forall>k r. map_of (router_map rs) k = Some r \<longrightarrow> rc_Depth r = k"
proof -
  have "\<forall>k r. map_of (fold (\<lambda>r m. AList.update (rc_Depth r) r m) rs acc) k = Some r \<longrightarrow> rc_Depth r = k"
    if "\<forall>k r. map_of acc k = Some r \<longrightarrow> rc_Depth r = k" for acc :: "(int \<times> routerCfg) list"
    using that
  proof (induction rs arbitrary: acc)
    case (Cons r rs)
    have "rc_Depth x = k" if "map_of (AList.update (rc_Depth r) r acc) k = Some x" for k x
    proof (cases "k = rc_Depth r")
      case True
      then show ?thesis using that by (simp add: update_conv')
    next
      case False
      then have "map_of acc k = Some x" using that by (simp add: update_conv')
      then show ?thesis using Cons.prems by blast
    qed
    then have "\<forall>k x. map_of (AList.update (rc_Depth r) r acc) k = Some x \<longrightarrow> rc_Depth x = k" by blast
    then show ?case unfolding fold_Cons comp_apply by (rule Cons.IH)
  qed simp
  note step = this
  show ?thesis unfolding router_map_def by (rule step) simp
qed

text \<open>One turn of the loop: the path enters only through the key of the level read.\<close>

lemma route_turn:
  assumes "wired d"
  obtains (stop) out e where "\<And>q. keyAt q c = keyAt p c \<Longrightarrow> route_loop d q c = (out, [e])"
      "\<And>hop c'. out = SentTo hop c' \<Longrightarrow> c' = c + 1 \<and> keyAt p c \<noteq> None"
  | (on) e r' where "\<And>q. keyAt q c = keyAt p c \<Longrightarrow> route_loop d q c = (let (out, evs) = route_loop d q (c + 1) in (out, e # evs))"
      "map_of (dm_routers d) (c + 1) = Some r'" "keyAt p c \<noteq> None"
proof (cases "map_of (dm_routers d) c")
  case None
  then show ?thesis by (intro stop [of Dropped]) (simp_all add: route_loop.simps [of d _ c])
next
  case (Some r)
  then have depth: "rc_Depth r = c" using assms by (simp add: wired_def)
  note turn = route_loop.simps [of d _ c, unfolded Some option.case depth]
  show ?thesis
  proof (cases "keyAt p c")
    case None
    then show ?thesis by (intro stop [of Dropped]) (simp_all add: turn)
  next
    case key: (Some key)
    show ?thesis
    proof (cases "map_of (tableFor r) key")
      case None
      then show ?thesis using key by (intro stop [of Dropped]) (simp_all add: turn depth)
    next
      case nl: (Some nl)
      show ?thesis
      proof (cases "map_of (nc_Hops (dm_cfg d)) nl")
        case None
        then show ?thesis using key nl by (intro stop [of Dropped]) (simp_all add: turn depth)
      next
        case h: (Some h)
        consider "h = '':deliver'' \<or> h = '':local''" | "h = '':localnext''" "map_of (dm_routers d) (c + 1) = None"
          | r' where "h = '':localnext''" "map_of (dm_routers d) (c + 1) = Some r'"
          | "h \<noteq> '':deliver''" "h \<noteq> '':local''" "h \<noteq> '':localnext''" by (cases "map_of (dm_routers d) (c + 1)") auto
        then show ?thesis
        proof cases
          case 1
          then show ?thesis using key nl h by (intro stop [of "Delivered (rc_Name r)"]) (simp_all add: turn depth)
        next
          case 2
          then show ?thesis using key nl h by (intro stop [of Dropped]) (simp_all add: turn depth)
        next
          case 3
          then show ?thesis using key nl h by (intro on) (simp_all add: turn depth Let_def)
        next
          case 4
          then show ?thesis using key nl h by (intro stop [of "SentTo h (c + 1)"]) (simp_all add: turn depth)
        qed
      qed
    qed
  qed
qed

lemma route_loop_local:
  assumes "wired d" "\<forall>i \<in> fst ` set (dm_routers d). At p i = At q i"
  shows "route_loop d p c = (out, evs) \<Longrightarrow> route_loop d q c = (out, evs)"
proof (induction "length evs" arbitrary: c evs rule: less_induct)
  case less
  show ?case
  proof (cases "map_of (dm_routers d) c")
    case None
    then show ?thesis using less.prems by (simp add: route_loop.simps [of d _ c])
  next
    case (Some r)
    then have "c \<in> fst ` set (dm_routers d)" by (metis fst_conv imageI map_of_SomeD)
    then have "At q c = At p c" using assms(2) by metis
    then have key: "keyAt q c = keyAt p c" by (simp add: keyAt_def)
    show ?thesis
      using assms(1)
    proof (cases rule: route_turn [where c = c and p = p])
      case (stop o1 e)
      then show ?thesis using key less.prems by simp
    next
      case (on e r')
      obtain es where es: "route_loop d p (c + 1) = (out, es)" "evs = e # es"
        using on(1) [of p] less.prems by (auto simp: Let_def split: prod.splits)
      have "route_loop d q (c + 1) = (out, es)" by (rule less.hyps [OF _ es(1)]) (simp add: es(2))
      then show ?thesis using on(1) [OF key] es(2) by simp
    qed
  qed
qed

lemma route_loop_sent:
  assumes "wired d"
  shows "route_loop d p c = (SentTo hop c', evs) \<Longrightarrow> 0 \<le> c \<Longrightarrow> c < c' \<and> c' \<le> int (length p) \<and> int (length evs) = c' - c"
proof (induction "length evs" arbitrary: c evs)
  case 0
  show ?case using 0 by (cases rule: route_turn [OF assms, of c p]) (auto simp: Let_def split: prod.splits)
next
  case (Suc n)
  show ?case
    using assms
  proof (cases rule: route_turn [where c = c and p = p])
    case (stop o1 e)
    then have "o1 = SentTo hop c'" "evs = [e]" using Suc.prems(1) by auto
    moreover have "keyAt p c \<noteq> None \<Longrightarrow> c < int (length p)" by (auto simp: keyAt_def At_def split: if_splits)
    ultimately show ?thesis using stop(2) by auto
  next
    case (on e r')
    obtain es where es: "route_loop d p (c + 1) = (SentTo hop c', es)" "evs = e # es"
      using on(1) [of p] Suc.prems(1) by (auto simp: Let_def split: prod.splits)
    have "c + 1 < c' \<and> c' \<le> int (length p) \<and> int (length es) = c' - (c + 1)"
      by (rule Suc.hyps(1) [OF _ es(1)]) (use Suc.hyps(2) Suc.prems(2) es(2) in auto)
    then show ?thesis using es(2) by auto
  qed
qed

lemma route_loop_events:
  assumes "wired d"
  shows "route_loop d p c = (out, evs) \<Longrightarrow> 0 \<le> c \<Longrightarrow> c \<le> int (length p) \<Longrightarrow> int (length evs) \<le> int (length p) + 1 - c"
proof (induction "length evs" arbitrary: c evs rule: less_induct)
  case less
  show ?case
    using assms
  proof (cases rule: route_turn [where c = c and p = p])
    case (stop o1 e)
    then have "evs = [e]" using less.prems(1) by auto
    then show ?thesis using less.prems(3) by simp
  next
    case (on e r')
    obtain es where es: "route_loop d p (c + 1) = (out, es)" "evs = e # es"
      using on(1) [of p] less.prems(1) by (auto simp: Let_def split: prod.splits)
    have "c < int (length p)" using on(3) by (auto simp: keyAt_def At_def split: if_splits)
    then have "int (length es) \<le> int (length p) + 1 - (c + 1)" by (intro less.hyps [OF _ es(1)]) (use less.prems(2) es(2) in auto)
    then show ?thesis using es(2) by simp
  qed
qed

lemma emit_bound: "length (dm_events (emit now e d)) \<le> 200"
  by (simp add: emit_def Let_def)

section \<open>Adopting the table of an authority\<close>

lemma resolve_from_append:
  "resolve_from (ls @ ms) a [] h = Inr p \<longleftrightarrow>
     (\<exists>b q r. descend ls a h = Some b \<and> resolve_from ls a [] h = Inr q \<and> resolve_from ms b [] h = Inr r \<and> p = q @ r)"
proof (induction ls arbitrary: a p)
  case (Cons l ls)
  show ?case
    unfolding append_Cons resolve_from_Cons Cons.IH by (cases "child_at h a l") auto
qed simp

lemma resolve_from_one: "resolve_from [l] a [] h = Inr p \<longleftrightarrow> (\<exists>c. child_at h a l = Some c \<and> p = [nd_nid (h ! c)])"
  by (auto split: option.splits)

lemma resolve_snoc:
  assumes "descend pre r h = Some cur" "resolve_from pre r [] h = Inr pp" "child_at h cur m = Some c"
  shows "resolve_from (pre @ [m]) r [] h = Inr (pp @ [nd_nid (h ! c)])" "descend (pre @ [m]) r h = Some c"
proof -
  show "resolve_from (pre @ [m]) r [] h = Inr (pp @ [nd_nid (h ! c)])"
    unfolding resolve_from_append resolve_from_one using assms by blast
  show "descend (pre @ [m]) r h = Some c" using assms(1,3) by (simp add: descend_snoc)
qed

lemma resolve_from_inj:
  assumes "heap_inv h" "a < length h" "resolve_from ls a [] h = Inr p" "resolve_from ms a [] h = Inr p"
  shows "ls = ms"
  using reverse_resolve_from [OF assms(3,1,2), of "[]"] reverse_resolve_from [OF assms(4,1,2), of "[]"] by simp

lemma resolve_from_nonzero:
  "heap_inv h \<Longrightarrow> a < length h \<Longrightarrow> resolve_from ls a [] h = Inr p \<Longrightarrow> 0 \<notin> set p"
proof (induction ls arbitrary: a p)
  case (Cons l ls)
  then obtain c q where c: "child_at h a l = Some c" "resolve_from ls c [] h = Inr q" "p = nd_nid (h ! c) # q"
    unfolding resolve_from_Cons by blast
  note n = node_okD [OF heap_inv_node [OF Cons.prems(1,2)] c(1)]
  show ?case using Cons.IH [OF Cons.prems(1) n(2) c(2)] n(4) c(3) by simp
qed simp

lemma resolve_from_add_child:
  assumes "resolve_from ms a [] (add_child h cur l k nxt) = Inr p" "a < length h" "heap_inv h"
  shows "resolve_from ms a [] h = Inr p \<or>
    (\<exists>m q. ms = m @ [l] \<and> descend m a h = Some cur \<and> resolve_from m a [] h = Inr q \<and> p = q @ [k])"
  using assms(1,2)
proof (induction ms arbitrary: a p)
  case (Cons m ms)
  let ?h = "add_child h cur l k nxt"
  obtain c q where c: "child_at ?h a m = Some c" "resolve_from ms c [] ?h = Inr q" "p = nd_nid (?h ! c) # q"
    using Cons.prems(1) unfolding resolve_from_Cons by blast
  show ?case
  proof (cases "a = cur \<and> m = l")
    case True
    then have new: "c = length h" using c(1) Cons.prems(2) by (simp add: child_at_add_child)
    then have "ms = []" using c(2) by (cases ms) simp_all
    then have "m # ms = [] @ [l]" "descend [] a h = Some cur" "p = [] @ [k]" using True new c(2,3) by simp_all
    then show ?thesis by (metis resolve_from.simps(1))
  next
    case False
    then have old: "child_at h a m = Some c" using c(1) Cons.prems(2) by (auto simp: child_at_add_child)
    have cl: "c < length h" using node_okD(2) [OF heap_inv_node [OF assms(3) Cons.prems(2)] old] .
    from Cons.IH [OF c(2) cl] show ?thesis
    proof
      assume "resolve_from ms c [] h = Inr q"
      then show ?thesis unfolding resolve_from_Cons using old c(3) cl by auto
    next
      assume "\<exists>n r. ms = n @ [l] \<and> descend n c h = Some cur \<and> resolve_from n c [] h = Inr r \<and> q = r @ [k]"
      then obtain n r where n: "ms = n @ [l]" "descend n c h = Some cur" "resolve_from n c [] h = Inr r" "q = r @ [k]" by blast
      then have "m # ms = (m # n) @ [l]" "descend (m # n) a h = Some cur" "p = (nd_nid (h ! c) # r) @ [k]"
        "resolve_from (m # n) a [] h = Inr (nd_nid (h ! c) # r)"
        using old c(3) cl unfolding resolve_from_Cons by auto
      then show ?thesis by blast
    qed
  qed
qed simp

text \<open>A replica \<open>h\<close> holds nothing that the authority \<open>H\<close> does not.\<close>

definition replica :: "nat \<Rightarrow> heap \<Rightarrow> nat \<Rightarrow> heap \<Rightarrow> bool" where
  "replica r h R H \<longleftrightarrow> (\<forall>ls p. resolve_from ls r [] h = Inr p \<longrightarrow> resolve_from ls R [] H = Inr p)"

lemma replicaD: "replica r h R H \<Longrightarrow> resolve_from ls r [] h = Inr p \<Longrightarrow> resolve_from ls R [] H = Inr p"
  by (simp add: replica_def)

lemma graft_replica:
  assumes H: "heap_inv H" "R < length H" and h: "heap_inv h" "r < length h" "cur < length h" "replica r h R H"
    and pre: "descend pre r h = Some cur" "resolve_from pre r [] h = Inr pp"
    and auth: "resolve_from (pre @ map fst lks) R [] H = Inr (pp @ map snd lks)"
  shows "\<exists>h'. graft_from lks cur h = (Inr (), h') \<and> replica r h' R H"
  using h pre auth
proof (induction lks cur h arbitrary: pre pp rule: graft_from.induct)
  case (2 l k lks cur h)
  have nz: "k \<noteq> 0" using resolve_from_nonzero [OF H "2.prems"(7)] by auto
  have one: "resolve_from (pre @ [l]) R [] H = Inr (pp @ [k])"
  proof -
    have "resolve_from ((pre @ [l]) @ map fst lks) R [] H = Inr ((pp @ [k]) @ map snd lks)" using "2.prems"(7) by simp
    then obtain b q s where q: "resolve_from (pre @ [l]) R [] H = Inr q" "resolve_from (map fst lks) b [] H = Inr s" "(pp @ [k]) @ map snd lks = q @ s"
      unfolding resolve_from_append [of "pre @ [l]"] by blast
    moreover have "length s = length lks" using resolve_from_length [OF q(2)] by simp
    ultimately have "q = pp @ [k]" by (metis append_eq_append_conv length_map)
    then show ?thesis using q(1) by simp
  qed
  have auth': "resolve_from ((pre @ [l]) @ map fst lks) R [] H = Inr ((pp @ [k]) @ map snd lks)" using "2.prems"(7) by simp
  have child: "resolve_from (pre @ [m]) r [] h = Inr (pp @ [nd_nid (h ! c)]) \<and> descend (pre @ [m]) r h = Some c"
    if "child_at h cur m = Some c" for m c
    using resolve_snoc [OF "2.prems"(5,6) that] by blast
  show ?case
  proof (cases "child_at h cur l")
    case (Some c)
    have "pp @ [nd_nid (h ! c)] = pp @ [k]" using replicaD [OF "2.prems"(4)] child [OF Some] one by force
    then have nid: "nd_nid (h ! c) = k" by simp
    have "c < length h" using node_okD(2) [OF heap_inv_node [OF "2.prems"(1,3)] Some] .
    then have "\<exists>h'. graft_from lks c h = (Inr (), h') \<and> replica r h' R H"
      using child [OF Some] nid auth' "2.prems"(1,2,4) by (intro "2.IH"(2) [OF nz Some, of "pre @ [l]" "pp @ [k]"]) simp_all
    then show ?thesis using nz Some nid by simp
  next
    case None
    have free: "nid_at h cur k = None"
    proof (rule ccontr)
      assume "nid_at h cur k \<noteq> None"
      then obtain c where c: "nid_at h cur k = Some c" by blast
      note n = node_ok_nidD [OF heap_inv_node [OF "2.prems"(1,3)] c]
      have "resolve_from (pre @ [nd_label (h ! c)]) R [] H = Inr (pp @ [k])"
        using replicaD [OF "2.prems"(4)] child [OF n(2)] n(1) by simp
      from resolve_from_inj [OF H this one] have "nd_label (h ! c) = l" by simp
      then show False using n(2) None by simp
    qed
    let ?nxt = "if k \<ge> nd_nextNID (h ! cur) then k + 1 else nd_nextNID (h ! cur)"
    let ?h = "add_child h cur l k ?nxt"
    have inv: "heap_inv ?h" using heap_inv_add_child [OF "2.prems"(1,3) None free nz] .
    have ext: "heap_ext h ?h" using heap_ext_add_child [OF None] .
    have rep: "replica r ?h R H"
      unfolding replica_def
    proof (intro allI impI)
      fix ms p assume "resolve_from ms r [] ?h = Inr p"
      from resolve_from_add_child [OF this "2.prems"(2,1)] show "resolve_from ms R [] H = Inr p"
      proof
        assume "\<exists>m q. ms = m @ [l] \<and> descend m r h = Some cur \<and> resolve_from m r [] h = Inr q \<and> p = q @ [k]"
        then obtain m q where m: "ms = m @ [l]" "descend m r h = Some cur" "resolve_from m r [] h = Inr q" "p = q @ [k]" by blast
        have "m = pre" using descend_inj [OF "2.prems"(1,2) m(2) "2.prems"(5)] .
        then show ?thesis using m one "2.prems"(6) by simp
      qed (rule replicaD [OF "2.prems"(4)])
    qed
    have "child_at ?h cur l = Some (length h)" using "2.prems"(3) by (simp add: child_at_add_child)
    from resolve_snoc [OF descend_ext [OF "2.prems"(5) ext "2.prems"(1,2)] resolve_from_ext [OF "2.prems"(6,1) ext "2.prems"(2)] this]
    have at: "descend (pre @ [l]) r ?h = Some (length h)" "resolve_from (pre @ [l]) r [] ?h = Inr (pp @ [k])" by simp_all
    have "\<exists>h'. graft_from lks (length h) ?h = (Inr (), h') \<and> replica r h' R H"
      using inv rep at auth' "2.prems"(2) by (intro "2.IH"(1) [OF nz None free, of "pre @ [l]" "pp @ [k]"]) simp_all
    then show ?thesis using nz None free by simp
  qed
qed (use h in auto)

lemma Resolve_Graft_replica:
  assumes T: "tree_inv T" "depth_ok (t_root T) (t_heap T)" and t: "t_root t < length (t_heap t)" "heap_inv (t_heap t)"
    "replica (t_root t) (t_heap t) (t_root T) (t_heap T)" and e: "Resolve T n = Inr p"
  shows "\<exists>t'. Graft n p t = (Inr (), t') \<and> t_root t' = t_root t \<and> heap_inv (t_heap t') \<and> heap_ext (t_heap t) (t_heap t') \<and>
    replica (t_root t) (t_heap t') (t_root T) (t_heap T) \<and> Resolve t' n = Inr p"
proof -
  let ?ls = "splitName n"
  have r: "?ls \<noteq> []" "resolve_from ?ls (t_root T) [] (t_heap T) = Inr p" using e by (auto simp: Resolve_Inr_iff)
  have H: "heap_inv (t_heap T)" "t_root T < length (t_heap T)" using T by (auto simp: tree_inv_def)
  have len: "length p = length ?ls" using resolve_from_length [OF r(2)] .
  have "\<exists>b. descend ?ls (t_root T) (t_heap T) = Some b" using r(2) resolve_from_append [of ?ls "[]"] by auto
  then have deep: "length ?ls \<le> MaxDepth" using T(2) by (auto simp: depth_ok_def)
  have "\<exists>h'. graft_from (zip ?ls p) (t_root t) (t_heap t) = (Inr (), h') \<and> replica (t_root t) h' (t_root T) (t_heap T)"
    using r(2) len by (intro graft_replica [OF H t(2,1,1,3), of "[]" "[]"]) simp_all
  then obtain h' where h': "graft_from (zip ?ls p) (t_root t) (t_heap t) = (Inr (), h')" "replica (t_root t) h' (t_root T) (t_heap T)" by blast
  have "resolve_from ?ls (t_root t) [] h' = Inr p" using graft_from_resolve [OF h'(1) t(2,1), of "[]"] len by simp
  then show ?thesis
    using h' r(1) len deep graft_from_inv [OF h'(1) t(2,1)] by (simp add: Graft_def Resolve_Inr_iff Let_def)
qed

lemma adopt_replica:
  assumes T: "tree_inv T" "depth_ok (t_root T) (t_heap T)" and t: "t_root t < length (t_heap t)" "heap_inv (t_heap t)"
    "replica (t_root t) (t_heap t) (t_root T) (t_heap T)" and e: "\<forall>e \<in> set es. Resolve T (en_Name e) = Inr (en_Path e)"
  shows "\<exists>t'. adopt_entries es t = (Inr (), t') \<and> t_root t' = t_root t \<and> heap_ext (t_heap t) (t_heap t') \<and> heap_inv (t_heap t') \<and>
    replica (t_root t) (t_heap t') (t_root T) (t_heap T) \<and> (\<forall>e \<in> set es. Resolve t' (en_Name e) = Inr (en_Path e))"
  using t e
proof (induction es arbitrary: t)
  case (Cons e es)
  have eT: "Resolve T (en_Name e) = Inr (en_Path e)" using Cons.prems(4) by simp
  from Resolve_Graft_replica [OF T Cons.prems(1-3) eT] obtain t1 where
    t1: "Graft (en_Name e) (en_Path e) t = (Inr (), t1)" "t_root t1 = t_root t" "heap_inv (t_heap t1)" "heap_ext (t_heap t) (t_heap t1)"
      "replica (t_root t1) (t_heap t1) (t_root T) (t_heap T)" "Resolve t1 (en_Name e) = Inr (en_Path e)" by metis
  have root: "t_root t1 < length (t_heap t1)" using t1(2,4) Cons.prems(1) by (simp add: heap_ext_def)
  from Cons.IH [OF root t1(3,5)] Cons.prems(4) obtain t' where
    t': "adopt_entries es t1 = (Inr (), t')" "t_root t' = t_root t1" "heap_ext (t_heap t1) (t_heap t')" "heap_inv (t_heap t')"
      "replica (t_root t1) (t_heap t') (t_root T) (t_heap T)" "\<forall>e \<in> set es. Resolve t' (en_Name e) = Inr (en_Path e)" by auto
  have "Resolve t' (en_Name e) = Inr (en_Path e)"
    using t1(6) t'(2) resolve_from_ext [OF _ t1(3) t'(3) root] by (simp add: Resolve_Inr_iff)
  then show ?case using t1 t' heap_ext_trans by auto
qed simp

text \<open>A replica that holds every name of the authority resolves exactly as the authority does.\<close>

lemma resolve_from_err: "resolve_from ls a acc h = Inl e \<Longrightarrow> e = ErrNotAllocated"
  by (induction ls arbitrary: a acc) (auto split: option.splits)

lemma replica_total:
  assumes T: "tree_inv T" "labels_ok T" and t: "replica (t_root t) (t_heap t) (t_root T) (t_heap T)"
    and all: "\<forall>e \<in> set (Walk T). Resolve t (en_Name e) = Inr (en_Path e)"
  shows "Resolve t n = Resolve T n"
proof (cases "splitName n = []")
  case True
  then show ?thesis by (simp add: Resolve_def)
next
  case ne: False
  show ?thesis
  proof (cases "Resolve T n")
    case (Inr p)
    have "splitName (written (splitName n)) = splitName n" using splitName_idem [OF ne] .
    then have "\<lparr>en_Name = written (splitName n), en_Path = p\<rparr> \<in> set (Walk T)" "Resolve t (written (splitName n)) = Resolve t n"
      using Inr by (simp_all add: Walk_iff [OF T] Resolve_def)
    then show ?thesis using all Inr by force
  next
    case (Inl e)
    have "Resolve t n \<noteq> Inr p" for p
      using replicaD [OF t] Inl ne by (auto simp: Resolve_def)
    then obtain e' where e': "Resolve t n = Inl e'" by (cases "Resolve t n") auto
    then have "e' = ErrNotAllocated" "e = ErrNotAllocated" using Inl ne by (auto simp: Resolve_def dest: resolve_from_err)
    then show ?thesis using e' Inl by simp
  qed
qed


lemma wired_start [simp]: "wired (d\<lparr>dm_routers := router_map rs\<rparr>)"
  using wired_router_map by (simp add: wired_def)

lemma wired_emit [simp]: "wired (fold (emit now) evs d) = wired d"
  by (induction evs arbitrary: d) (simp_all add: emit_def Let_def wired_def)

lemma wired_route: "wired d \<Longrightarrow> wired (snd (rt_route resolve now p c pl d))"
  by (simp add: rt_route_def Let_def split: prod.splits)

lemma ns_Encode_depth: "ns_Encode p = Inr b \<Longrightarrow> length p \<le> MaxDepth"
  using Encode_ok_iff [of p] by (auto simp: encodable_def)

lemma receive_forward:
  assumes "wired d" "rt_receive resolve now b d = (Some (a, b'), d')"
  shows "\<exists>p c pl c'. rt_decode b = Inr (p, c, pl) \<and> rt_decode b' = Inr (p, c', pl) \<and> 0 \<le> c \<and> c < c' \<and> c' \<le> int (length p) \<and> length p \<le> MaxDepth"
proof -
  obtain p c pl where dec: "rt_decode b = Inr (p, c, pl)" and r: "rt_route resolve now p c pl d = (Some (a, b'), d')"
    using assms(2) by (auto simp: rt_receive_def split: sum.splits)
  have c0: "0 \<le> c" using dec by (auto simp: rt_decode_def Let_def split: if_splits sum.splits)
  obtain hop c' evs where l: "route_loop d p c = (SentTo hop c', evs)" and s: "sendTo resolve hop p c' pl = Some (a, b')"
    using r by (auto simp: rt_route_def Let_def split: prod.splits outcome.splits)
  note lt = route_loop_sent [OF assms(1) l c0]
  have enc: "rt_encode p c' pl = Some b'" using s by (auto simp: sendTo_def split: option.splits)
  then obtain e where "ns_Encode p = Inr e" by (auto simp: rt_encode_def split: sum.splits)
  then have deep: "length p \<le> MaxDepth" by (rule ns_Encode_depth)
  then have "rt_decode b' = Inr (p, c', pl)" using lt c0 by (intro rt_decode_encode [OF enc]) (simp_all add: MaxDepth_def)
  then show ?thesis using dec lt c0 deep by blast
qed

lemma replica_New: "replica (t_root NewTree) (t_heap NewTree) R H"
proof -
  have "ls = [] \<and> p = []" if "resolve_from ls 0 [] [newNode [] 0] = Inr p" for ls p
    using that by (cases ls) simp_all
  then show ?thesis by (force simp: replica_def NewTree_def)
qed

lemma adopt_Walk:
  assumes T: "tree_inv T" "depth_ok (t_root T) (t_heap T)" "labels_ok T" and t: "t_root t < length (t_heap t)" "heap_inv (t_heap t)"
    "replica (t_root t) (t_heap t) (t_root T) (t_heap T)" and e: "set es = set (Walk T)"
  shows "\<exists>t'. adopt_entries es t = (Inr (), t') \<and> t_root t' < length (t_heap t') \<and> heap_inv (t_heap t') \<and>
    replica (t_root t') (t_heap t') (t_root T) (t_heap T) \<and> (\<forall>n. Resolve t' n = Resolve T n)"
proof -
  have "\<forall>e \<in> set es. Resolve T (en_Name e) = Inr (en_Path e)" using Walk_iff [OF T(1,3)] e by blast
  from adopt_replica [OF T(1,2) t this] obtain t' where
    t': "adopt_entries es t = (Inr (), t')" "t_root t' = t_root t" "heap_ext (t_heap t) (t_heap t')" "heap_inv (t_heap t')"
      "replica (t_root t) (t_heap t') (t_root T) (t_heap T)" "\<forall>e \<in> set es. Resolve t' (en_Name e) = Inr (en_Path e)" by blast
  moreover have "t_root t' < length (t_heap t')" using t'(2,3) t(1) by (simp add: heap_ext_def)
  moreover have "Resolve t' n = Resolve T n" for n using t'(2,5,6) e by (intro replica_total [OF T(1,3)]) simp_all
  ultimately show ?thesis by auto
qed

lemma tree_run_allocs:
  "tree_inv t \<Longrightarrow> heap_ext (t_heap t) (t_heap (tree_run (map OpAllocate ns) t)) \<and> t_root (tree_run (map OpAllocate ns) t) = t_root t"
proof (induction ns arbitrary: t)
  case (Cons n ns)
  have "tree_run (map OpAllocate (n # ns)) t = tree_run (map OpAllocate ns) (snd (Allocate n t))" by (simp add: tree_run_def)
  then show ?case using Cons.IH [OF Allocate_inv [OF Cons.prems]] heap_ext_trans [OF Allocate_ext [OF Cons.prems, of n]] by auto
qed (simp add: tree_run_def)

section \<open>Properties\<close>

definition ex_cfg :: nodeCfg where
  "ex_cfg = \<lparr>nc_Node = ''n1'', nc_Routers = [\<lparr>rc_Name = ''r0'', rc_Depth = 0, rc_NIDs = [(''1'', ''next'')]\<rparr>,
       \<lparr>rc_Name = ''r1'', rc_Depth = 1, rc_NIDs = [(''2'', ''far'')]\<rparr>],
     nc_Hops = [(''next'', '':localnext''), (''far'', ''10.0.0.9:9300'')], nc_Firsthop = ''r0'', nc_Namespace = []\<rparr>"

definition ex_node :: daemon where
  "ex_node = \<lparr>dm_cfg = ex_cfg, dm_routers = router_map (nc_Routers ex_cfg), dm_events = [], dm_ns = NewTree\<rparr>"

definition ex_frame :: bytes where
  "ex_frame = (case rt_encode [1, 2, 3] 0 [7, 8] of Some b \<Rightarrow> b | None \<Rightarrow> [])"

text \<open>C4. Routers agree with the authority without deriving anything: a router that starts empty and
  adopts the table of the authority's tree, entries in whatever order, succeeds and resolves every name
  exactly as the authority does, errors included; and when the authority allocates further names, the
  next refresh succeeds too and restores the agreement.\<close>

theorem adoption_agrees:
  assumes "set es = set (Walk (tree_run ops NewTree))"
    and "set es' = set (Walk (tree_run (ops @ map OpAllocate ns) NewTree))"
  shows "\<exists>d1 d2. adoptNamespace es (d\<lparr>dm_ns := NewTree\<rparr>) = (Inr (), d1) \<and> adoptNamespace es' d1 = (Inr (), d2) \<and>
    (\<forall>n. Resolve (dm_ns d1) n = Resolve (tree_run ops NewTree) n) \<and>
    (\<forall>n. Resolve (dm_ns d2) n = Resolve (tree_run (ops @ map OpAllocate ns) NewTree) n)"
proof -
  let ?T1 = "tree_run ops NewTree" and ?T2 = "tree_run (ops @ map OpAllocate ns) NewTree"
  note ok = tree_run_depth tree_run_labels
  have T2: "?T2 = tree_run (map OpAllocate ns) ?T1" by (simp add: tree_run_def)
  have T1: "tree_inv ?T1" using ok by blast
  have new: "t_root NewTree < length (t_heap NewTree)" "heap_inv (t_heap NewTree)" using tree_inv_New by (auto simp: tree_inv_def)
  obtain t1 where t1: "adopt_entries es NewTree = (Inr (), t1)" "t_root t1 < length (t_heap t1)" "heap_inv (t_heap t1)"
    "replica (t_root t1) (t_heap t1) (t_root ?T1) (t_heap ?T1)" "\<forall>n. Resolve t1 n = Resolve ?T1 n"
    using adopt_Walk [OF _ _ _ new replica_New assms(1)] ok by blast
  have "replica (t_root t1) (t_heap t1) (t_root ?T2) (t_heap ?T2)"
    using t1(4) tree_run_allocs [OF T1, of ns] T1 resolve_from_ext unfolding T2 replica_def tree_inv_def by metis
  then obtain t2 where t2: "adopt_entries es' t1 = (Inr (), t2)" "\<forall>n. Resolve t2 n = Resolve ?T2 n"
    using adopt_Walk [OF _ _ _ t1(2,3) _ assms(2)] ok by blast
  show ?thesis using t1(1,5) t2 by (simp add: adoptNamespace_def)
qed

theorem adoption_agrees_witness:
  "\<exists>d1 d2. adoptNamespace (rev (Walk (tree_run [OpAllocate ''b.a''] NewTree))) (ex_node\<lparr>dm_ns := NewTree\<rparr>) = (Inr (), d1) \<and>
     adoptNamespace (Walk (tree_run ([OpAllocate ''b.a''] @ map OpAllocate [''c.a'']) NewTree)) d1 = (Inr (), d2) \<and>
     Resolve (dm_ns d2) ''c.a'' = Inr [1, 2]"
proof -
  have "Resolve (tree_run ([OpAllocate ''b.a''] @ map OpAllocate [''c.a'']) NewTree) ''c.a'' = Inr [1, 2]" by code_simp
  moreover have "set (rev (Walk (tree_run [OpAllocate ''b.a''] NewTree))) = set (Walk (tree_run [OpAllocate ''b.a''] NewTree))" by (rule set_rev)
  from adoption_agrees [OF this refl, of ex_node "[''c.a'']"] obtain d1 d2 where
    "adoptNamespace (rev (Walk (tree_run [OpAllocate ''b.a''] NewTree))) (ex_node\<lparr>dm_ns := NewTree\<rparr>) = (Inr (), d1)"
    "adoptNamespace (Walk (tree_run ([OpAllocate ''b.a''] @ map OpAllocate [''c.a'']) NewTree)) d1 = (Inr (), d2)"
    "\<forall>n. Resolve (dm_ns d2) n = Resolve (tree_run ([OpAllocate ''b.a''] @ map OpAllocate [''c.a'']) NewTree) n" by blast
  ultimately show ?thesis by metis
qed

text \<open>When the authority releases a name and allocates it anew, the refresh of a router that knew the
  old identifier is refused with a conflict, but not atomically: the entries sorted before the conflict
  are already grafted, and the stale identifier stays in use.\<close>

theorem refresh_conflict_is_partial:
  "\<exists>t1 t2. adopt_entries (Walk (tree_run [OpAllocate ''c.a''] NewTree)) NewTree = (Inr (), t1) \<and>
     adopt_entries (Walk (tree_run [OpAllocate ''c.a'', OpForget ''c.a'', OpAllocate ''b.a'', OpAllocate ''c.a''] NewTree)) t1 = (Inl ErrConflict, t2) \<and>
     Resolve t1 ''b.a'' = Inl ErrNotAllocated \<and> Resolve t2 ''b.a'' = Inr [1, 2] \<and> Resolve t2 ''c.a'' = Inr [1, 1]"
proof -
  define t1 where "t1 = snd (adopt_entries (Walk (tree_run [OpAllocate ''c.a''] NewTree)) NewTree)"
  define es where "es = Walk (tree_run [OpAllocate ''c.a'', OpForget ''c.a'', OpAllocate ''b.a'', OpAllocate ''c.a''] NewTree)"
  have "adopt_entries (Walk (tree_run [OpAllocate ''c.a''] NewTree)) NewTree = (Inr (), t1)" unfolding t1_def by code_simp
  moreover have "adopt_entries es t1 = (Inl ErrConflict, snd (adopt_entries es t1))" unfolding es_def t1_def by code_simp
  moreover have "Resolve t1 ''b.a'' = Inl ErrNotAllocated" unfolding t1_def by code_simp
  moreover have "Resolve (snd (adopt_entries es t1)) ''b.a'' = Inr [1, 2]" unfolding es_def t1_def by code_simp
  moreover have "Resolve (snd (adopt_entries es t1)) ''c.a'' = Inr [1, 1]" unfolding es_def t1_def by code_simp
  ultimately show ?thesis unfolding es_def by blast
qed

text \<open>A router changes nothing but the level counter: a frame that a node passes on decodes to the
  same path and payload as the frame received, and at least one more level is consumed, never more
  than the path has.\<close>

theorem forwarding_keeps_path_and_payload:
  assumes "rt_receive resolve now b (d\<lparr>dm_routers := router_map rs\<rparr>) = (Some (a, b'), d')"
  shows "\<exists>p c pl c'. rt_decode b = Inr (p, c, pl) \<and> rt_decode b' = Inr (p, c', pl) \<and> c < c' \<and> c' \<le> int (length p)"
  using receive_forward [OF wired_start assms] by blast

theorem forwarding_keeps_path_and_payload_witness:
  "\<exists>p c pl c' b'. rt_decode ex_frame = Inr (p, c, pl) \<and> rt_decode b' = Inr (p, c', pl) \<and> c < c' \<and> c' \<le> int (length p)"
proof -
  define x where "x = rt_receive Some 0 ex_frame (ex_node\<lparr>dm_routers := router_map (nc_Routers ex_cfg)\<rparr>)"
  define b' where "b' = snd (the (fst x))"
  have "x = (Some (''10.0.0.9:9300'', b'), snd x)" unfolding b'_def x_def by code_simp
  from forwarding_keeps_path_and_payload [OF this [unfolded x_def]] show ?thesis by blast
qed

fun relay :: "(string \<Rightarrow> string option) \<Rightarrow> time \<Rightarrow> daemon list \<Rightarrow> bytes \<Rightarrow> bytes option" where
  "relay resolve now [] b = Some b"
| "relay resolve now (d # ds) b =
     (case fst (rt_receive resolve now b d) of None \<Rightarrow> None | Some (a, b') \<Rightarrow> relay resolve now ds b')"

lemma relay_bound:
  "\<forall>d \<in> set ds. wired d \<Longrightarrow> relay resolve now ds b = Some b' \<Longrightarrow> rt_decode b = Inr (p, c, pl) \<Longrightarrow> 
   \<exists>c'. rt_decode b' = Inr (p, c', pl) \<and> c + int (length ds) \<le> c' \<and> (ds = [] \<or> c' \<le> int (length p) \<and> length p \<le> MaxDepth)"
proof (induction ds arbitrary: b c)
  case (Cons d ds)
  obtain a b1 d' where r: "rt_receive resolve now b d = (Some (a, b1), d')" "relay resolve now ds b1 = Some b'"
    using Cons.prems(2) by (cases "rt_receive resolve now b d") (auto split: option.splits)
  obtain c1 where c1: "rt_decode b1 = Inr (p, c1, pl)" "c < c1" "c1 \<le> int (length p)" "length p \<le> MaxDepth"
    using receive_forward [OF _ r(1)] Cons.prems(1,3) by auto
  have "\<forall>d \<in> set ds. wired d" using Cons.prems(1) by simp
  from Cons.IH [OF this r(2) c1(1)] show ?case using c1 r(2) by (cases "ds = []") auto
qed simp

text \<open>C33. No routing loop outlives the path: however the tables of the nodes are set up, a frame is passed
  on at most as many times as its path has unread levels, so at most \<open>MaxDepth\<close> times, and the last
  receiver still sees the original path and payload.\<close>

theorem no_endless_forwarding:
  assumes "relay resolve now (map (\<lambda>(d, rs). d\<lparr>dm_routers := router_map rs\<rparr>) nodes) b = Some b'" and "rt_decode b = Inr (p, c, pl)"
  shows "length nodes \<le> MaxDepth \<and> (nodes \<noteq> [] \<longrightarrow> c + int (length nodes) \<le> int (length p)) \<and> (\<exists>c'. rt_decode b' = Inr (p, c', pl))"
proof -
  let ?ds = "map (\<lambda>(d, rs). d\<lparr>dm_routers := router_map rs\<rparr>) nodes"
  have "\<forall>d \<in> set ?ds. wired d" by (auto simp: case_prod_beta)
  from relay_bound [OF this assms] obtain c' where c': "rt_decode b' = Inr (p, c', pl)" "c + int (length nodes) \<le> c'"
    "nodes = [] \<or> c' \<le> int (length p) \<and> length p \<le> MaxDepth" by auto
  moreover have "0 \<le> c" using assms(2) by (auto simp: rt_decode_def Let_def split: if_splits sum.splits)
  ultimately show ?thesis by (cases "nodes = []") auto
qed

theorem no_endless_forwarding_witness:
  "\<exists>b'. relay Some 0 (map (\<lambda>(d, rs). d\<lparr>dm_routers := router_map rs\<rparr>) [(ex_node, nc_Routers ex_cfg)]) ex_frame = Some b' \<and>
     (\<exists>c'. rt_decode b' = Inr ([1, 2, 3], c', [7, 8]))"
proof -
  define b' where "b' = the (relay Some 0 (map (\<lambda>(d, rs). d\<lparr>dm_routers := router_map rs\<rparr>) [(ex_node, nc_Routers ex_cfg)]) ex_frame)"
  have r: "relay Some 0 (map (\<lambda>(d, rs). d\<lparr>dm_routers := router_map rs\<rparr>) [(ex_node, nc_Routers ex_cfg)]) ex_frame = Some b'"
    unfolding b'_def by code_simp
  have "rt_decode ex_frame = Inr ([1, 2, 3], 0, [7, 8])" by code_simp
  from no_endless_forwarding [OF r this] show ?thesis using r by blast
qed

text \<open>A node acts only on the levels it has routers for: two destinations that agree on those levels
  have the same fate at the node, telemetry included.\<close>

theorem routing_reads_own_levels_only:
  assumes "\<forall>i \<in> fst ` set (router_map rs). At p i = At q i"
  shows "route_loop (d\<lparr>dm_routers := router_map rs\<rparr>) p c = route_loop (d\<lparr>dm_routers := router_map rs\<rparr>) q c"
proof -
  let ?d = "d\<lparr>dm_routers := router_map rs\<rparr>"
  obtain out evs where "route_loop ?d p c = (out, evs)" by fastforce
  moreover have "route_loop ?d q c = (out, evs)" using calculation assms by (intro route_loop_local [OF wired_start _ calculation]) simp
  ultimately show ?thesis by simp
qed

theorem routing_reads_own_levels_only_witness:
  "route_loop (ex_node\<lparr>dm_routers := router_map (nc_Routers ex_cfg)\<rparr>) [1, 2, 3] 0 =
   route_loop (ex_node\<lparr>dm_routers := router_map (nc_Routers ex_cfg)\<rparr>) [1, 2, 9, 9] 0"
proof (rule routing_reads_own_levels_only)
  have "list_all (\<lambda>i. At [1, 2, 3] i = At [1, 2, 9, 9] i) (map fst (router_map (nc_Routers ex_cfg)))" by code_simp
  then show "\<forall>i \<in> fst ` set (router_map (nc_Routers ex_cfg)). At [1, 2, 3] i = At [1, 2, 9, 9] i"
    by (simp add: list_all_iff)
qed

text \<open>C34. The routing table is only ever changed by an answer that the configured registry signed for
  this very request.\<close>

theorem table_changes_only_by_signed_answer:
  assumes "snd (syncNamespace P registryKey nonce answer d) \<noteq> d"
  shows "\<exists>b m. answer = Some b \<and> Decode b = Some m \<and> m_Kind m = KindNamespaceResp \<and> m_Nonce m = nonce \<and>
    VerifyDetached P registryKey (NamespaceBytes (m_Zone m) (m_Info m) (m_TS m) nonce) (m_Sig m) = Inr ()"
  using assms by (auto simp: syncNamespace_def fetchNamespace_def fetch_check_def split: if_splits sum.splits option.splits)

definition ex_table :: string where
  "ex_table = json_table [\<lparr>en_Name = ''a'', en_Path = [1]\<rparr>]"

definition ex_table_msg :: message where
  "ex_table_msg = Message0\<lparr>m_Kind := KindNamespaceResp, m_Zone := ''z'', m_Info := ex_table, m_TS := 5, m_Nonce := ''n'',
     m_Sig := SignDetached toy (replicate 32 1) (NamespaceBytes ''z'' ex_table 5 ''n'')\<rparr>"

theorem table_changes_only_by_signed_answer_witness:
  "\<exists>m. Decode (Encode ex_table_msg) = Some m \<and>
     VerifyDetached toy (EncodeToString (replicate 32 1)) (NamespaceBytes (m_Zone m) (m_Info m) (m_TS m) ''n'') (m_Sig m) = Inr ()"
proof -
  have "t_heap (dm_ns (snd (syncNamespace toy (EncodeToString (replicate 32 1)) ''n'' (Some (Encode ex_table_msg)) ex_node))) \<noteq> t_heap (dm_ns ex_node)"
    by code_simp
  then have "snd (syncNamespace toy (EncodeToString (replicate 32 1)) ''n'' (Some (Encode ex_table_msg)) ex_node) \<noteq> ex_node" by metis
  from table_changes_only_by_signed_answer [OF this] show ?thesis by auto
qed

end
