(* ===== verification/Locator.thy ===== *)
theory Locator
  imports Go_Text
begin

text \<open>
  \<^verbatim>\<open>internal/locator/locator.go\<close>: tier paths and the forwarding table of one router. The
  properties are the ones the package claims: a router decides on a single tier, and its table
  answers what was last installed for that tier.
\<close>

section \<open>Locators\<close>

type_synonym locator = "string list"

definition loc_Parse :: "string \<Rightarrow> locator" where
  "loc_Parse s0 =
     (let s = TrimSpace s0;
          sep = (if CHR ''/'' \<in> set s then CHR ''/'' else CHR ''.'')
      in filter (\<lambda>t. t \<noteq> '''') (map TrimSpace (Split sep s)))"

definition loc_String :: "locator \<Rightarrow> string" where
  "loc_String l = Join ''/'' l"

definition Tier :: "locator \<Rightarrow> int \<Rightarrow> string" where
  "Tier l depth = (if depth < 0 \<or> depth \<ge> int (length l) then '''' else l ! nat depth)"

definition loc_Depth :: "locator \<Rightarrow> int" where
  "loc_Depth l = int (length l)"

section \<open>The forwarding table\<close>

definition HopLocal :: string where "HopLocal = '':local''"
definition HopDefault :: string where "HopDefault = '':default''"

record table =
  tb_tierDepth :: int
  tb_entries :: "(string \<times> string) list"
  tb_def :: string

definition NewTable :: "int \<Rightarrow> table" where
  "NewTable tierDepth = \<lparr>tb_tierDepth = tierDepth, tb_entries = [], tb_def = HopDefault\<rparr>"

definition Table_Add :: "string \<Rightarrow> string \<Rightarrow> table \<Rightarrow> table" where
  "Table_Add tierValue hop t = t\<lparr>tb_entries := AList.update tierValue hop (tb_entries t)\<rparr>"

definition SetDefault :: "string \<Rightarrow> table \<Rightarrow> table" where
  "SetDefault hop t = t\<lparr>tb_def := hop\<rparr>"

definition Table_Size :: "table \<Rightarrow> nat" where
  "Table_Size t = length (tb_entries t)"

definition TierDepth :: "table \<Rightarrow> int" where
  "TierDepth t = tb_tierDepth t"

definition Entries :: "table \<Rightarrow> (string \<times> string) list" where
  "Entries t = fold (\<lambda>(k, v) c. AList.update k v c) (tb_entries t) []"

record decision =
  MatchedTier :: string
  MatchedDepth :: int
  NextHop :: string
  Reason :: string

definition quoted :: "string \<Rightarrow> string" where
  "quoted s = [CHR 0x27] @ s @ [CHR 0x27]"

text \<open>\<^verbatim>\<open>Lookup\<close> calls \<^verbatim>\<open>suffixNote\<close> only at a depth that has a tier, so the index is never negative.\<close>

definition suffixNote :: "locator \<Rightarrow> int \<Rightarrow> string" where
  "suffixNote loc depth =
     (let below = map (\<lambda>i. loc ! nat i) [depth + 1 .. loc_Depth loc - 1]
      in if length below = 0 then ''nothing below'' else Join ''/'' below)"

definition Lookup :: "table \<Rightarrow> locator \<Rightarrow> decision" where
  "Lookup t loc =
     (let tier = Tier loc (tb_tierDepth t);
          isLeafDepth = (tb_tierDepth t = loc_Depth loc - 1)
      in if tier = '''' then
           \<lparr>MatchedTier = '''', MatchedDepth = tb_tierDepth t, NextHop = tb_def t,
            Reason = ''no tier at this depth; default route toward root''\<rparr>
         else case map_of (tb_entries t) tier of
                None \<Rightarrow>
                  \<lparr>MatchedTier = tier, MatchedDepth = tb_tierDepth t, NextHop = tb_def t,
                   Reason = ''tier '' @ quoted tier @ '' unknown here; default route toward root''\<rparr>
              | Some hop \<Rightarrow>
                  if hop = HopLocal \<or> isLeafDepth \<and> hop = HopLocal then
                    \<lparr>MatchedTier = tier, MatchedDepth = tb_tierDepth t, NextHop = HopLocal,
                     Reason = ''leaf '' @ quoted tier @ '' is local; deliver''\<rparr>
                  else
                    \<lparr>MatchedTier = tier, MatchedDepth = tb_tierDepth t, NextHop = hop,
                     Reason = ''matched tier '' @ quoted tier @ '' -> '' @ hop @
                       '' (ignored '' @ suffixNote loc (tb_tierDepth t) @ '')''\<rparr>)"

section \<open>Laws\<close>

lemma Table_Add_laws [simp]:
  "map_of (tb_entries (Table_Add v hop t)) = (map_of (tb_entries t))(v \<mapsto> hop)"
  "tb_tierDepth (Table_Add v hop t) = tb_tierDepth t" "tb_def (Table_Add v hop t) = tb_def t"
  by (simp_all add: Table_Add_def)

definition table_ok :: "table \<Rightarrow> bool" where
  "table_ok t \<longleftrightarrow> distinct (map fst (tb_entries t))"

lemma table_ok_ops:
  "table_ok (NewTable d)" "table_ok t \<Longrightarrow> table_ok (Table_Add v h t)" "table_ok t \<Longrightarrow> table_ok (SetDefault h t)"
  by (auto simp: table_ok_def NewTable_def Table_Add_def SetDefault_def)

lemma map_of_fold_update:
  "map_of (fold (\<lambda>(k, v) c. AList.update k v c) m c) = map_of c ++ map_of (rev m)"
proof (induction m arbitrary: c)
  case (Cons p m)
  then show ?case by (cases p) (simp add: map_add_def fun_eq_iff split: option.splits)
qed simp

lemma Entries_copy: "table_ok t \<Longrightarrow> map_of (Entries t) = map_of (tb_entries t)"
proof -
  assume "table_ok t"
  then have "distinct (map fst (rev (tb_entries t)))" by (simp add: table_ok_def rev_map [symmetric])
  then have "map_of (rev (tb_entries t)) = map_of (tb_entries t)"
    using \<open>table_ok t\<close> by (intro map_of_inject_set [THEN iffD2]) (simp_all add: table_ok_def)
  then show ?thesis by (simp add: Entries_def map_of_fold_update)
qed

lemma loc_Parse_tiers: "t \<in> set (loc_Parse s) \<Longrightarrow> t \<noteq> '''' \<and> TrimSpace t = t"
  by (auto simp: loc_Parse_def Let_def)

definition tier_ok :: "string \<Rightarrow> bool" where
  "tier_ok t \<longleftrightarrow> t \<noteq> '''' \<and> TrimSpace t = t \<and> CHR ''/'' \<notin> set t"

lemma Join_slash: "Suc 0 < length l \<Longrightarrow> CHR ''/'' \<in> set (Join ''/'' l)"
  by (induction "''/''" l rule: Join.induct) auto

lemma filter_id: "\<forall>x \<in> set xs. P x \<Longrightarrow> filter P xs = xs"
  by (simp add: filter_True)

lemma Parse_String_loc:
  assumes "\<forall>t \<in> set l. tier_ok t" "Suc 0 < length l"
  shows "loc_Parse (loc_String l) = l"
proof -
  let ?s = "Join ''/'' l"
  have ne: "l \<noteq> []" using assms(2) by auto
  have e: "hd l \<noteq> ''''" "last l \<noteq> ''''" "\<not> is_space (hd (hd l))" "\<not> is_space (last (last l))"
    using assms(1) ne TrimSpace_edges hd_in_set [OF ne] last_in_set [OF ne] by (metis tier_ok_def)+
  have "TrimSpace ?s = ?s" using hd_Join [OF ne e(1)] last_Join [OF ne e(2)] e(3,4) by (intro TrimSpace_id) auto
  moreover have "Split CHR ''/'' ?s = l" using assms(1) ne by (intro Split_Join) (auto simp: tier_ok_def)
  moreover have "map TrimSpace l = l" using assms(1) by (intro map_idI) (auto simp: tier_ok_def)
  moreover have "filter (\<lambda>t. t \<noteq> '''') l = l" using assms(1) by (intro filter_id) (auto simp: tier_ok_def)
  ultimately show ?thesis using Join_slash [OF assms(2)] by (simp add: loc_Parse_def loc_String_def Let_def)
qed

section \<open>Properties\<close>

text \<open>A router reads one tier: two locators that agree on the tier at this router's depth
  get the same decision, whatever their other tiers are; only the explanatory text may differ.
  The hop is the one installed for that tier, or the default.\<close>

theorem lookup_one_tier:
  assumes "Tier l (TierDepth t) = Tier m (TierDepth t)"
  shows "NextHop (Lookup t l) = NextHop (Lookup t m) \<and> MatchedTier (Lookup t l) = MatchedTier (Lookup t m) \<and>
    MatchedDepth (Lookup t l) = MatchedDepth (Lookup t m) \<and>
    NextHop (Lookup t l) = (if Tier l (TierDepth t) = '''' then tb_def t
      else case map_of (tb_entries t) (Tier l (TierDepth t)) of None \<Rightarrow> tb_def t | Some hop \<Rightarrow> hop)"
  using assms by (auto simp: Lookup_def TierDepth_def Let_def split: option.splits)

definition ex_table :: table where
  "ex_table = Table_Add ''gov'' ''r2'' (NewTable 1)"

theorem lookup_one_tier_witness:
  "NextHop (Lookup ex_table [''dnx'', ''gov'', ''a'']) = ''r2'' \<and> NextHop (Lookup ex_table [''x'', ''gov'']) = ''r2''"
  using lookup_one_tier [of "[''dnx'', ''gov'', ''a'']" ex_table "[''x'', ''gov'']"]
  by (auto simp: ex_table_def TierDepth_def NewTable_def Tier_def)

text \<open>Printing a locator of at least two tiers and parsing it gives it back, when its tiers are
  non-empty, have no slash and no surrounding blanks; and every tier \<^verbatim>\<open>Parse\<close> produces is
  non-empty and trimmed.\<close>

theorem locator_text_roundtrip:
  "((\<forall>t \<in> set l. tier_ok t) \<longrightarrow> Suc 0 < length l \<longrightarrow> loc_Parse (loc_String l) = l) \<and>
   (\<forall>t \<in> set (loc_Parse s). t \<noteq> '''' \<and> TrimSpace t = t)"
  using Parse_String_loc loc_Parse_tiers by blast

theorem locator_text_roundtrip_witness: "loc_Parse (loc_String [''dnx'', ''us-east'']) = [''dnx'', ''us-east'']"
proof -
  have "tier_ok ''dnx''" "tier_ok ''us-east''" by code_simp+
  then show ?thesis using locator_text_roundtrip [of "[''dnx'', ''us-east'']" "''''"] by simp
qed

end
