(* ===== verification/Identity.thy ===== *)
theory Identity
  imports Proto
begin

text \<open>
  \<^verbatim>\<open>internal/identity/identity.go\<close>: the identity of a node and its file. As for the registry, a file is what
  reading it gives (\<open>NoIdentity\<close>: reading fails, for whatever reason); \<open>home\<close> says whether the configuration directory exists or can be created, \<open>gen\<close> is the
  result of \<^verbatim>\<open>ed25519.GenerateKey\<close>, \<open>io\<close> whether the file can be written.
\<close>

record identity =
  id_Name :: string
  id_Registry :: string
  id_PubB64 :: string
  id_PrivB64 :: string

text \<open>The stored key, when it decodes; Go ignores the error and keeps the bytes before it.\<close>

definition id_Priv :: "identity \<Rightarrow> bytes option" where
  "id_Priv i = DecodeString (id_PrivB64 i)"

datatype id_file = NoIdentity | BadIdentity | HasIdentity identity

datatype id_error = IdDir | IdCorrupt | IdNameRequired | IdEntropy | IdWrite

definition default_registry :: string where "default_registry = ''registry.dnxroute.com:4400''"

definition LoadOrCreate :: "bool \<Rightarrow> (bytes \<times> bytes) option \<Rightarrow> bool \<Rightarrow> string \<Rightarrow> string \<Rightarrow> id_file \<Rightarrow> (id_error + identity) \<times> id_file" where
  "LoadOrCreate home gen io name registry f =
     (if \<not> home then (Inl IdDir, f)
      else case f of
             BadIdentity \<Rightarrow> (Inl IdCorrupt, f)
           | HasIdentity i \<Rightarrow> (Inr (if registry \<noteq> '''' then i\<lparr>id_Registry := registry\<rparr> else i), f)
           | NoIdentity \<Rightarrow>
               if name = '''' then (Inl IdNameRequired, f)
               else let reg = (if registry = '''' then default_registry else registry)
                    in (case gen of
                          None \<Rightarrow> (Inl IdEntropy, f)
                        | Some (pub, priv) \<Rightarrow>
                            let i = \<lparr>id_Name = name, id_Registry = reg, id_PubB64 = EncodeToString pub, id_PrivB64 = EncodeToString priv\<rparr>
                            in if io then (Inr i, HasIdentity i) else (Inl IdWrite, f)))"

text \<open>The identity minted at the first boot is the identity of every later one: the name given later is
  ignored, and only the registry can be overridden, without touching the file.\<close>

lemma identity_is_permanent:
  assumes "LoadOrCreate True gen io name registry NoIdentity = (Inr i, f)"
  shows "\<exists>j. LoadOrCreate True gen' io' name' registry' f = (Inr j, f) \<and> id_Name j = name \<and> id_PubB64 j = id_PubB64 i \<and>
    id_PrivB64 j = id_PrivB64 i \<and> id_Registry j = (if registry' = '''' then id_Registry i else registry')"
  using assms by (auto simp: LoadOrCreate_def Let_def split: if_splits option.splits)

lemma minted_key_decodes:
  assumes "LoadOrCreate True (Some (pub, priv)) io name registry NoIdentity = (Inr i, f)"
  shows "id_Priv i = Some priv" "DecodeString (id_PubB64 i) = Some pub"
  using assms by (auto simp: LoadOrCreate_def id_Priv_def Let_def split: if_splits)

end
