(* ===== verification/Tunnel_Table.thy ===== *)
theory Tunnel_Table
  imports Stream Go_Text
begin

text \<open>
  \<^verbatim>\<open>cmd/dnxd/tunnel.go\<close>, the data: the table of live tunnels and the form in which stream frames travel
  inside sealed payloads. A tunnel is an object that goroutines keep a pointer to after the table has
  dropped or replaced it, so the objects live in a heap and the table maps identifiers to addresses.
  \<open>ts_sess\<close> and \<open>ts_addr\<close> are what the send callback of the stream captured: the session (an address in
  the heap of peer sessions, see \<open>Agent\<close>) and the UDP address.
\<close>

definition payloadStream :: u8 where "payloadStream = 0x02"

record tunnelStream =
  ts_id :: u32
  ts_peer :: string
  ts_stream :: stream
  ts_sess :: nat
  ts_addr :: string
  ts_done :: bool
  ts_connClosed :: bool

record tunnelTable =
  tt_objs :: "tunnelStream list"
  tt_streams :: "(u32 \<times> nat) list"
  tt_nextID :: u32

definition newTunnelTable :: tunnelTable where
  "newTunnelTable = \<lparr>tt_objs = [], tt_streams = [], tt_nextID = 0\<rparr>"

definition tt_add :: "tunnelStream \<Rightarrow> tunnelTable \<Rightarrow> nat \<times> tunnelTable" where
  "tt_add t tt = (length (tt_objs tt),
     tt\<lparr>tt_objs := tt_objs tt @ [t], tt_streams := AList.update (ts_id t) (length (tt_objs tt)) (tt_streams tt)\<rparr>)"

definition tt_get :: "u32 \<Rightarrow> tunnelTable \<Rightarrow> nat option" where
  "tt_get i tt = map_of (tt_streams tt) i"

definition tt_remove :: "u32 \<Rightarrow> tunnelTable \<Rightarrow> tunnelTable" where
  "tt_remove i tt = tt\<lparr>tt_streams := AList.delete i (tt_streams tt)\<rparr>"

definition allocID :: "tunnelTable \<Rightarrow> u32 \<times> tunnelTable" where
  "allocID tt = (tt_nextID tt + 1, tt\<lparr>tt_nextID := tt_nextID tt + 1\<rparr>)"

definition tt_update :: "nat \<Rightarrow> (tunnelStream \<Rightarrow> tunnelStream) \<Rightarrow> tunnelTable \<Rightarrow> tunnelTable" where
  "tt_update a f tt = tt\<lparr>tt_objs := (tt_objs tt)[a := f (tt_objs tt ! a)]\<rparr>"

text \<open>\<^verbatim>\<open>close\<close> runs once; it returns the frames the closing stream sends.\<close>

definition ts_close :: "tunnelStream \<Rightarrow> bytes list \<times> tunnelStream" where
  "ts_close t =
     (if ts_done t then ([], t)
      else let (fs, s) = Close (ts_stream t)
           in (fs, t\<lparr>ts_done := True, ts_connClosed := True, ts_stream := s\<rparr>))"

definition encodeStreamPayload :: "u32 \<Rightarrow> bytes \<Rightarrow> bytes" where
  "encodeStreamPayload i frame = [payloadStream] @ PutUint32 i @ frame"

definition decodeStreamPayload :: "bytes \<Rightarrow> (u32 \<times> bytes) option" where
  "decodeStreamPayload b =
     (if length b < 5 \<or> b ! 0 \<noteq> payloadStream then None
      else Some (Uint32 (drop 1 b), drop 5 b))"

definition tunnelWaitKey :: "u32 \<Rightarrow> string" where
  "tunnelWaitKey sid = ''TUNNEL|'' @ show_nat (unat sid)"

text \<open>
  \<^verbatim>\<open>tickAll\<close>: the objects in the table are collected first and then ticked one after the other. The result
  lists, per frame sent, the object that sent it.
\<close>

definition tick_one :: "time \<Rightarrow> nat \<Rightarrow> tunnelTable \<Rightarrow> (nat \<times> bytes) list \<times> tunnelTable" where
  "tick_one now a tt =
     (let t = tt_objs tt ! a
      in case Tick now (ts_stream t) of
           (alive, fs, s) \<Rightarrow>
             (let t1 = t\<lparr>ts_stream := s\<rparr>
              in if alive then (map (Pair a) fs, tt_update a (\<lambda>_. t1) tt)
                 else let (gs, t2) = ts_close t1
                      in (map (Pair a) (fs @ gs), tt_remove (ts_id t) (tt_update a (\<lambda>_. t2) tt))))"

fun tick_list :: "time \<Rightarrow> nat list \<Rightarrow> tunnelTable \<Rightarrow> (nat \<times> bytes) list \<times> tunnelTable" where
  "tick_list now [] tt = ([], tt)"
| "tick_list now (a # as) tt =
     (let (fs, tt1) = tick_one now a tt; (gs, tt2) = tick_list now as tt1 in (fs @ gs, tt2))"

definition tickAll :: "time \<Rightarrow> tunnelTable \<Rightarrow> (nat \<times> bytes) list \<times> tunnelTable" where
  "tickAll now tt = tick_list now (map snd (tt_streams tt)) tt"

section \<open>Laws\<close>

lemma decode_encodeStreamPayload [simp]: "decodeStreamPayload (encodeStreamPayload i f) = Some (i, f)"
  by (simp add: decodeStreamPayload_def encodeStreamPayload_def payloadStream_def)

interpretation tunnel_wire: wire_codec "\<lambda>_. True" "\<lambda>(i, f). encodeStreamPayload i f" decodeStreamPayload
  by unfold_locales auto

lemma decodeStreamPayload_inverse:
  assumes "decodeStreamPayload b = Some (i, f)"
  shows "encodeStreamPayload i f = b"
proof -
  have b: "5 \<le> length b" "b ! 0 = payloadStream" "i = Uint32 (drop 1 b)" "f = drop 5 b"
    using assms by (auto simp: decodeStreamPayload_def split: if_splits)
  have "PutUint32 i = take 4 (drop 1 b)" using b PutUint32_Uint32 [of "drop 1 b"] by simp
  moreover have "f = drop 4 (drop 1 b)" using b(4) by (simp add: add.commute)
  ultimately have "encodeStreamPayload i f = payloadStream # drop 1 b"
    unfolding encodeStreamPayload_def by (metis append_Cons append_Nil append_take_drop_id)
  also have "\<dots> = b" using b(1,2) by (cases b) simp_all
  finally show ?thesis .
qed

lemma tt_get_add: "tt_get i (snd (tt_add t tt)) = (if i = ts_id t then Some (length (tt_objs tt)) else tt_get i tt)"
  by (simp add: tt_get_def tt_add_def)

lemma tt_get_remove: "tt_get i (tt_remove j tt) = (if i = j then None else tt_get i tt)"
  by (simp add: tt_get_def tt_remove_def)

lemma tunnelWaitKey_inj: "tunnelWaitKey i = tunnelWaitKey j \<longleftrightarrow> i = j"
  by (simp add: tunnelWaitKey_def show_nat_inj word_unat_eq_iff)

end
