(* ===== verification/Secure.thy ===== *)
theory Secure
  imports Proto Go_Time
begin

text \<open>
  \<^verbatim>\<open>internal/secure/secure.go\<close>: the handshake string, key derivation, and the sealed channel with its
  counter nonces and replay guard. An AEAD cipher object is represented by its key. \<^verbatim>\<open>Open\<close> takes the
  lock twice, once to look for the counter and once to record it, with the decryption in
  between, so it is modelled as two steps and their composition. Randomness
  (\<^verbatim>\<open>NewEphemeral\<close>, \<^verbatim>\<open>NewNonce\<close>) enters as an argument.
\<close>

section \<open>Constants\<close>

definition Minute :: duration where "Minute = 60 * Second"
definition RekeyAfter :: duration where "RekeyAfter = 5 * Minute"
definition HandshakeTimeout :: duration where "HandshakeTimeout = 8 * Second"
definition MaxSkew :: duration where "MaxSkew = 30 * Second"
definition dirInitiator :: string where "dirInitiator = ''dnx v0.2 initiator->responder''"
definition dirResponder :: string where "dirResponder = ''dnx v0.2 responder->initiator''"
definition FrameMagic :: u8 where "FrameMagic = 0xD8"
definition sealedHeaderLen :: nat where "sealedHeaderLen = 1 + 8"
definition nonceLen :: nat where "nonceLen = 12"
definition AEADOverhead :: nat where "AEADOverhead = 16"
definition AEADKeySize :: nat where "AEADKeySize = 32"

section \<open>Ephemeral keys\<close>

record ephemeral =
  eph_priv :: bytes
  eph_Pub :: bytes

datatype sec_error =
    X25519Failed | BadPeerKey | BadSigEncoding | BadHandshakeSig | BadKeyLength | BadEphPub
  | FrameShort | NotSealed | Replayed | AuthFailed

definition NewEphemeral :: "prims \<Rightarrow> bytes \<Rightarrow> sec_error + ephemeral" where
  "NewEphemeral P rnd =
     (case x25519 P rnd (x_base P) of
        None \<Rightarrow> Inl X25519Failed
      | Some pub \<Rightarrow> Inr \<lparr>eph_priv = rnd, eph_Pub = pub\<rparr>)"

definition eph_shared :: "prims \<Rightarrow> ephemeral \<Rightarrow> bytes \<Rightarrow> sec_error + bytes" where
  "eph_shared P e peerPub = (case x25519 P (eph_priv e) peerPub of None \<Rightarrow> Inl X25519Failed | Some s \<Rightarrow> Inr s)"

definition EncodeEphPub :: "bytes \<Rightarrow> string" where
  "EncodeEphPub pub = EncodeToString pub"

definition DecodeEphPub :: "string \<Rightarrow> sec_error + bytes" where
  "DecodeEphPub b64 =
     (case DecodeString b64 of
        None \<Rightarrow> Inl BadEphPub
      | Some b \<Rightarrow> if length b \<noteq> 32 then Inl BadEphPub else Inr b)"

section \<open>The handshake signature\<close>

definition HandshakeBytes :: "string \<Rightarrow> string \<Rightarrow> string \<Rightarrow> bytes \<Rightarrow> string \<Rightarrow> string \<Rightarrow> int \<Rightarrow> bytes" where
  "HandshakeBytes tag selfName peerName eph nonceA nonceB ts =
     to_bytes (Join ''|'' [''dnx2'', tag, selfName, peerName, EncodeToString eph, nonceA, nonceB, show_int ts])"

definition SignHandshake :: "prims \<Rightarrow> bytes \<Rightarrow> bytes \<Rightarrow> string" where
  "SignHandshake P priv msg = EncodeToString (ed_sign P priv msg)"

definition VerifyHandshake :: "prims \<Rightarrow> string \<Rightarrow> bytes \<Rightarrow> string \<Rightarrow> sec_error + unit" where
  "VerifyHandshake P peerPubB64 msg sigB64 =
     (case DecodeString peerPubB64 of
        None \<Rightarrow> Inl BadPeerKey
      | Some pub \<Rightarrow>
          if length pub \<noteq> PublicKeySize then Inl BadPeerKey
          else (case DecodeString sigB64 of
                  None \<Rightarrow> Inl BadSigEncoding
                | Some sig \<Rightarrow> if \<not> ed_verify P pub msg sig then Inl BadHandshakeSig else Inr ()))"

definition FreshTS :: "time \<Rightarrow> int \<Rightarrow> bool" where
  "FreshTS now tsMillis = skew_ok now MaxSkew tsMillis"

section \<open>Sessions\<close>

definition deriveKey :: "prims \<Rightarrow> bytes \<Rightarrow> string \<Rightarrow> string \<Rightarrow> string \<Rightarrow> bytes" where
  "deriveKey P shared nonceA nonceB info = hkdf32 P shared (to_bytes (nonceA @ nonceB)) (to_bytes info)"

record session =
  PeerName :: string
  PeerIDKey :: string
  Established :: time
  sendKey :: bytes
  recvKey :: bytes
  counter :: u64
  seen :: "u64 list"

definition NewSession :: "prims \<Rightarrow> time \<Rightarrow> string \<Rightarrow> string \<Rightarrow> bytes \<Rightarrow> string \<Rightarrow> string \<Rightarrow> bool \<Rightarrow> sec_error + session" where
  "NewSession P now peerName peerIDKey shared nonceA nonceB initiator =
     (let kInit = deriveKey P shared nonceA nonceB dirInitiator;
          kResp = deriveKey P shared nonceA nonceB dirResponder;
          (sk, rk) = (if \<not> initiator then (kResp, kInit) else (kInit, kResp))
      in if length sk \<noteq> AEADKeySize then Inl BadKeyLength
         else if length rk \<noteq> AEADKeySize then Inl BadKeyLength
         else Inr \<lparr>PeerName = peerName, PeerIDKey = peerIDKey, Established = now,
                   sendKey = sk, recvKey = rk, counter = 0, seen = []\<rparr>)"

definition Derive :: "prims \<Rightarrow> time \<Rightarrow> ephemeral \<Rightarrow> bytes \<Rightarrow> string \<Rightarrow> string \<Rightarrow> string \<Rightarrow> string \<Rightarrow> bool \<Rightarrow> sec_error + session" where
  "Derive P now eph peerEphPub peerName peerIDKey nonceA nonceB initiator =
     (case eph_shared P eph peerEphPub of
        Inl e \<Rightarrow> Inl e
      | Inr shared \<Rightarrow> NewSession P now peerName peerIDKey shared nonceA nonceB initiator)"

definition Expired :: "time \<Rightarrow> session \<Rightarrow> bool" where
  "Expired now s = (Time_Sub now (Established s) > RekeyAfter)"

section \<open>Sealed frames\<close>

definition sealed_hdr :: "u64 \<Rightarrow> bytes" where
  "sealed_hdr ctr = FrameMagic # PutUint64 ctr"

definition sealed_nonce :: "u64 \<Rightarrow> bytes" where
  "sealed_nonce ctr = [0, 0, 0, 0] @ PutUint64 ctr"

definition Seal :: "prims \<Rightarrow> bytes \<Rightarrow> session \<Rightarrow> bytes \<times> session" where
  "Seal P plaintext s =
     (let ctr = counter s;
          s' = s\<lparr>counter := counter s + 1\<rparr>;
          hdr = sealed_hdr ctr;
          ct = aead_seal P (sendKey s) (sealed_nonce ctr) plaintext hdr
      in (hdr @ ct, s'))"

definition open_begin :: "bytes \<Rightarrow> session \<Rightarrow> sec_error + u64" where
  "open_begin frame s =
     (if length frame < sealedHeaderLen + AEADOverhead then Inl FrameShort
      else if frame ! 0 \<noteq> FrameMagic then Inl NotSealed
      else let ctr = Uint64 (drop 1 frame)
           in if ctr \<in> set (seen s) then Inl Replayed else Inr ctr)"

definition open_finish :: "prims \<Rightarrow> bytes \<Rightarrow> u64 \<Rightarrow> session \<Rightarrow> (sec_error + bytes) \<times> session" where
  "open_finish P frame ctr s =
     (case aead_open P (recvKey s) (sealed_nonce ctr) (drop sealedHeaderLen frame) (take sealedHeaderLen frame) of
        None \<Rightarrow> (Inl AuthFailed, s)
      | Some pt \<Rightarrow> (Inr pt, s\<lparr>seen := List.insert ctr (seen s)\<rparr>))"

definition Open :: "prims \<Rightarrow> bytes \<Rightarrow> session \<Rightarrow> (sec_error + bytes) \<times> session" where
  "Open P frame s =
     (case open_begin frame s of
        Inl e \<Rightarrow> (Inl e, s)
      | Inr ctr \<Rightarrow> open_finish P frame ctr s)"

definition IsSealed :: "bytes \<Rightarrow> bool" where
  "IsSealed b \<longleftrightarrow> length b > 0 \<and> b ! 0 = FrameMagic"

section \<open>Documented behaviour of the primitives\<close>

definition aead_ok :: "prims \<Rightarrow> bool" where
  "aead_ok P \<longleftrightarrow> (\<forall>k n pt ad. aead_open P k n (aead_seal P k n pt ad) ad = Some pt \<and>
     length (aead_seal P k n pt ad) = length pt + AEADOverhead)"

definition dh_ok :: "prims \<Rightarrow> bool" where
  "dh_ok P \<longleftrightarrow> (\<forall>a b pa pb. x25519 P a (x_base P) = Some pa \<longrightarrow> x25519 P b (x_base P) = Some pb \<longrightarrow>
     x25519 P a pb = x25519 P b pa)"

section \<open>Laws\<close>

lemma length_sealed_hdr [simp]: "length (sealed_hdr c) = 9"
  by (simp add: sealed_hdr_def)

lemma sealed_nonce_inj: "sealed_nonce a = sealed_nonce b \<longleftrightarrow> a = b"
  unfolding sealed_nonce_def by (metis Uint_Put_self(3) same_append_eq)

lemma open_begin_Seal:
  assumes "aead_ok P" "Seal P pt s = (f, s')" "counter s \<notin> set (seen r)"
  shows "open_begin f r = Inr (counter s) \<and> take 9 f = sealed_hdr (counter s) \<and>
    drop 9 f = aead_seal P (sendKey s) (sealed_nonce (counter s)) pt (sealed_hdr (counter s))"
proof -
  let ?ct = "aead_seal P (sendKey s) (sealed_nonce (counter s)) pt (sealed_hdr (counter s))"
  have f: "f = sealed_hdr (counter s) @ ?ct" using assms(2) by (simp add: Seal_def Let_def)
  have len: "length ?ct = length pt + AEADOverhead" using assms(1) by (simp add: aead_ok_def)
  have "drop 1 f = PutUint64 (counter s) @ ?ct" "f ! 0 = FrameMagic" unfolding f by (simp_all add: sealed_hdr_def)
  then show ?thesis
    using assms(3) len by (simp add: open_begin_def Let_def f sealedHeaderLen_def)
qed

lemma Open_Seal:
  assumes "aead_ok P" "Seal P pt s = (f, s')" "recvKey r = sendKey s" "counter s \<notin> set (seen r)"
  shows "Open P f r = (Inr pt, r\<lparr>seen := List.insert (counter s) (seen r)\<rparr>)"
  using open_begin_Seal [OF assms(1,2,4)] assms(1,3)
  by (simp add: Open_def open_finish_def sealedHeaderLen_def aead_ok_def)

lemma Open_accept:
  assumes "Open P f s = (Inr pt, s')"
  shows "Uint64 (drop 1 f) \<notin> set (seen s) \<and> s' = s\<lparr>seen := List.insert (Uint64 (drop 1 f)) (seen s)\<rparr> \<and>
    aead_open P (recvKey s) (sealed_nonce (Uint64 (drop 1 f))) (drop 9 f) (take 9 f) = Some pt"
  using assms by (auto simp: Open_def open_begin_def open_finish_def sealedHeaderLen_def Let_def
      split: if_splits sum.splits option.splits)

lemma Open_reject: "Open P f s = (Inl e, s') \<Longrightarrow> s' = s"
  by (auto simp: Open_def open_finish_def split: sum.splits option.splits)

text \<open>A run of \<^verbatim>\<open>Open\<close> calls one after the other, and the counters it accepted.\<close>

fun open_run :: "prims \<Rightarrow> bytes list \<Rightarrow> session \<Rightarrow> u64 list \<times> session" where
  "open_run P [] s = ([], s)"
| "open_run P (f # fs) s =
     (case Open P f s of
        (Inl e, s1) \<Rightarrow> open_run P fs s1
      | (Inr pt, s1) \<Rightarrow> (let (acc, s2) = open_run P fs s1 in (Uint64 (drop 1 f) # acc, s2)))"

lemma open_run_fresh: "open_run P fs s = (acc, s') \<Longrightarrow> distinct acc \<and> set acc \<inter> set (seen s) = {} \<and> set (seen s') = set (seen s) \<union> set acc"
proof (induction fs arbitrary: s acc s')
  case (Cons f fs)
  show ?case
  proof (cases "Open P f s")
    case (Pair r s1)
    show ?thesis
    proof (cases r)
      case (Inl e)
      then show ?thesis using Cons Pair Open_reject by fastforce
    next
      case (Inr pt)
      obtain a s2 where r: "open_run P fs s1 = (a, s2)" by (metis prod.exhaust)
      have "acc = Uint64 (drop 1 f) # a" "s' = s2" using Cons.prems Pair Inr r by auto
      moreover note Open_accept [of P f s pt s1] Cons.IH [OF r]
      ultimately show ?thesis using Pair Inr by auto
    qed
  qed
qed simp

fun seal_run :: "prims \<Rightarrow> bytes list \<Rightarrow> session \<Rightarrow> bytes list \<times> session" where
  "seal_run P [] s = ([], s)"
| "seal_run P (p # ps) s =
     (let (f, s1) = Seal P p s; (fs, s2) = seal_run P ps s1 in (f # fs, s2))"

lemma seal_run_counters:
  "seal_run P ps s = (fs, s') \<Longrightarrow>
   map (\<lambda>f. Uint64 (drop 1 f)) fs = map (\<lambda>i. counter s + word_of_nat i) [0..<length ps] \<and> counter s' = counter s + word_of_nat (length ps)"
proof (induction ps arbitrary: s fs s')
  case (Cons p ps)
  obtain f s1 where f: "Seal P p s = (f, s1)" by (metis prod.exhaust)
  obtain gs s2 where r: "seal_run P ps s1 = (gs, s2)" by (metis prod.exhaust)
  have res: "fs = f # gs" "s' = s2" using Cons.prems f r by auto
  have "counter s1 = counter s + 1" "Uint64 (drop 1 f) = counter s"
    using f by (auto simp: Seal_def Let_def sealed_hdr_def)
  moreover have "map (\<lambda>i. counter s + word_of_nat i) [0..<length (p # ps)] =
      counter s # map (\<lambda>i. counter s + 1 + word_of_nat i) [0..<length ps]"
    by (simp add: upt_rec [of 0] map_Suc_upt [symmetric] comp_def algebra_simps del: upt_Suc)
  ultimately show ?case using Cons.IH [OF r] res by (simp add: algebra_simps)
qed simp

lemma word_offsets_distinct:
  "n \<le> 2 ^ 64 \<Longrightarrow> distinct (map (\<lambda>i. (c :: u64) + word_of_nat i) [0..<n])"
proof -
  assume n: "n \<le> 2 ^ 64"
  have "inj_on (\<lambda>i. c + word_of_nat i) (set [0..<n])"
  proof (rule inj_onI)
    fix i j assume "i \<in> set [0..<n]" "j \<in> set [0..<n]" "c + word_of_nat i = c + word_of_nat j"
    then have "unat (word_of_nat i :: u64) = unat (word_of_nat j :: u64)" "i < 2 ^ 64" "j < 2 ^ 64" using n by auto
    then show "i = j" by (simp add: unat_of_nat)
  qed
  then show ?thesis by (simp add: distinct_map)
qed

lemma NewSession_keys:
  assumes "NewSession P now pn pk sh na nb ini = Inr s"
  shows "sendKey s = deriveKey P sh na nb (if ini then dirInitiator else dirResponder) \<and>
    recvKey s = deriveKey P sh na nb (if ini then dirResponder else dirInitiator) \<and>
    counter s = 0 \<and> seen s = [] \<and> PeerName s = pn \<and> PeerIDKey s = pk \<and> Established s = now"
  using assms by (cases ini) (auto simp: NewSession_def Let_def split: if_splits)

lemma Derive_keys:
  assumes "Derive P now e pub pn pk na nb ini = Inr s"
  obtains sh where "x25519 P (eph_priv e) pub = Some sh" "NewSession P now pn pk sh na nb ini = Inr s"
  using assms by (auto simp: Derive_def eph_shared_def split: option.splits)

lemma Derive_mirror:
  assumes "dh_ok P" "NewEphemeral P ra = Inr ea" "NewEphemeral P rb = Inr eb"
    "Derive P t1 ea (eph_Pub eb) nb kb na no True = Inr sa" "Derive P t2 eb (eph_Pub ea) nm km na no False = Inr sb"
  shows "recvKey sb = sendKey sa \<and> recvKey sa = sendKey sb \<and> counter sa = 0 \<and> seen sb = []"
proof -
  have pubs: "x25519 P (eph_priv ea) (x_base P) = Some (eph_Pub ea)" "x25519 P (eph_priv eb) (x_base P) = Some (eph_Pub eb)"
    using assms(2,3) by (auto simp: NewEphemeral_def split: option.splits)
  obtain s1 where 1: "x25519 P (eph_priv ea) (eph_Pub eb) = Some s1" "NewSession P t1 nb kb s1 na no True = Inr sa"
    using Derive_keys [OF assms(4)] .
  obtain s2 where 2: "x25519 P (eph_priv eb) (eph_Pub ea) = Some s2" "NewSession P t2 nm km s2 na no False = Inr sb"
    using Derive_keys [OF assms(5)] .
  have "s1 = s2" using assms(1) pubs 1(1) 2(1) unfolding dh_ok_def by (metis option.inject)
  then show ?thesis using NewSession_keys [OF 1(2)] NewSession_keys [OF 2(2)] by simp
qed

lemma toy_ok: "aead_ok toy" "dh_ok toy"
  by (simp_all add: aead_ok_def dh_ok_def toy_def AEADOverhead_def add.commute)

definition toy_A :: session where
  "toy_A = \<lparr>PeerName = ''b'', PeerIDKey = ''K'', Established = 0, sendKey = take 32 (to_bytes dirInitiator @ replicate 32 0),
     recvKey = take 32 (to_bytes dirResponder @ replicate 32 0), counter = 0, seen = []\<rparr>"

definition toy_B :: session where
  "toy_B = \<lparr>PeerName = ''a'', PeerIDKey = ''J'', Established = 0, sendKey = take 32 (to_bytes dirResponder @ replicate 32 0),
     recvKey = take 32 (to_bytes dirInitiator @ replicate 32 0), counter = 0, seen = []\<rparr>"

lemma toy_derived:
  "NewEphemeral toy [1] = Inr \<lparr>eph_priv = [1], eph_Pub = [1]\<rparr>" "NewEphemeral toy [2] = Inr \<lparr>eph_priv = [2], eph_Pub = [2]\<rparr>"
  "Derive toy 0 \<lparr>eph_priv = [1], eph_Pub = [1]\<rparr> [2] ''b'' ''K'' ''x'' ''y'' True = Inr toy_A"
  "Derive toy 0 \<lparr>eph_priv = [2], eph_Pub = [2]\<rparr> [1] ''a'' ''J'' ''x'' ''y'' False = Inr toy_B"
  by (simp_all add: NewEphemeral_def Derive_def eph_shared_def NewSession_def deriveKey_def toy_def toy_A_def toy_B_def
      AEADKeySize_def to_bytes_def dirInitiator_def dirResponder_def)

section \<open>Properties\<close>

text \<open>The two ends of a handshake agree: when each derives its session from its own ephemeral key,
  the other's public key and the same two nonces, what one seals the other opens to the same
  plaintext, in both directions.\<close>

theorem handshake_sessions_agree:
  assumes "aead_ok P" "dh_ok P" "NewEphemeral P ra = Inr ea" "NewEphemeral P rb = Inr eb"
    "Derive P t1 ea (eph_Pub eb) nb kb na no True = Inr sa" "Derive P t2 eb (eph_Pub ea) nm km na no False = Inr sb"
  shows "fst (Open P (fst (Seal P pt sa)) sb) = Inr pt \<and> fst (Open P (fst (Seal P pt sb)) sa) = Inr pt"
proof -
  note m = Derive_mirror [OF assms(2-6)]
  have "counter sb = 0" "seen sa = []"
    using NewSession_keys Derive_keys [OF assms(5)] Derive_keys [OF assms(6)] by metis+
  then show ?thesis
    using m Open_Seal [OF assms(1), of pt sa "fst (Seal P pt sa)" "snd (Seal P pt sa)" sb]
      Open_Seal [OF assms(1), of pt sb "fst (Seal P pt sb)" "snd (Seal P pt sb)" sa] by simp
qed

theorem handshake_sessions_agree_witness: "fst (Open toy (fst (Seal toy [1, 2, 3] toy_A)) toy_B) = Inr [1, 2, 3]"
  using handshake_sessions_agree [OF toy_ok toy_derived(1,2), of 0 "''b''" "''K''" "''x''" "''y''" toy_A 0 "''a''" "''J''" toy_B "[1, 2, 3]"]
    toy_derived(3,4) by simp

text \<open>C26. The replay guard: over any sequence of frames handed to \<^verbatim>\<open>Open\<close> one after the other, no
  counter is accepted twice; and a frame that is refused leaves the session as it was, so forged
  frames cannot fill the table.\<close>

theorem replay_guard_sequential:
  "distinct (fst (open_run P fs s)) \<and> set (fst (open_run P fs s)) \<inter> set (seen s) = {} \<and>
   (fst (Open P f s) = Inl e \<longrightarrow> snd (Open P f s) = s)"
  using open_run_fresh [of P fs s] Open_reject [of P f s e] by (cases "open_run P fs s"; cases "Open P f s") auto

theorem replay_guard_sequential_witness: "snd (Open toy [1] toy_B) = toy_B"
  using replay_guard_sequential [of toy "[]" toy_B "[1]" FrameShort]
  by (simp add: Open_def open_begin_def sealedHeaderLen_def AEADOverhead_def)

text \<open>The guard does not hold between concurrent calls: \<^verbatim>\<open>Open\<close> looks the counter up and records
  it in two separate critical sections, so two calls that both pass the first before either
  reaches the second both accept the same frame.\<close>

theorem replay_guard_race:
  assumes "open_begin f s = Inr c" "open_finish P f c s = (Inr pt, s1)"
  shows "open_begin f s1 = Inl Replayed \<and> fst (open_finish P f c s1) = Inr pt"
  using assms by (auto simp: open_begin_def open_finish_def Let_def split: if_splits option.splits)

theorem replay_guard_race_witness:
  "fst (open_finish toy (fst (Seal toy [5] toy_A)) 0 (snd (open_finish toy (fst (Seal toy [5] toy_A)) 0 toy_B))) = Inr [5]"
proof -
  have "open_begin (fst (Seal toy [5] toy_A)) toy_B = Inr 0"
    "open_finish toy (fst (Seal toy [5] toy_A)) 0 toy_B = (Inr [5], snd (open_finish toy (fst (Seal toy [5] toy_A)) 0 toy_B))"
    by code_simp+
  from replay_guard_race [OF this] show ?thesis by blast
qed



text \<open>A handshake signature is tied to its purpose: an \<^verbatim>\<open>HS_INIT\<close> string is never an \<^verbatim>\<open>HS_RESP\<close>
  string, and neither is a string signed for any other message.\<close>

theorem handshake_string_separate:
  "HandshakeBytes KindHSInit a b e na nb t \<noteq> HandshakeBytes KindHSResp a' b' e' na' nb' t' \<and>
   HandshakeBytes tag a b e na nb t \<noteq> SigningBytes m \<and> HandshakeBytes tag a b e na nb t \<noteq> RebindBytes n k u o1 \<and>
   HandshakeBytes tag a b e na nb t \<noteq> ResolveRespBytes n k p u o1 \<and> HandshakeBytes tag a b e na nb t \<noteq> ReferralBytes n z p k u o1"
proof -
  have "HandshakeBytes KindHSInit a b e na nb t \<noteq> HandshakeBytes KindHSResp a' b' e' na' nb' t'"
  proof
    assume "HandshakeBytes KindHSInit a b e na nb t = HandshakeBytes KindHSResp a' b' e' na' nb' t'"
    then have "to_bytes (Join ''|'' (KindHSInit # a # b # [EncodeToString e, na, nb, show_int t])) =
        to_bytes (Join ''|'' (KindHSResp # a' # b' # [EncodeToString e', na', nb', show_int t']))"
      unfolding HandshakeBytes_def by (simp add: to_bytes_inj)
    then have "KindHSInit = KindHSResp" by (rule tag_separates) (simp_all add: no_bar_def kind_defs)
    then show False by (simp add: kind_defs)
  qed
  moreover have "HandshakeBytes tag a b e na nb t \<noteq> SigningBytes m \<and> HandshakeBytes tag a b e na nb t \<noteq> RebindBytes n k u o1 \<and>
    HandshakeBytes tag a b e na nb t \<noteq> ResolveRespBytes n k p u o1 \<and> HandshakeBytes tag a b e na nb t \<noteq> ReferralBytes n z p k u o1"
    unfolding HandshakeBytes_def signed_defs by (intro conjI notI) (drule tag_separates; simp)+
  ultimately show ?thesis by blast
qed

text \<open>What \<^verbatim>\<open>FreshTS\<close> accepts: a timestamp less than 30 seconds away from now, and, beyond that,
  any timestamp some 292 years or more in the future, for which the difference saturates at
  the least duration and its negation is negative again.\<close>

theorem FreshTS_accepts:
  "FreshTS now ts \<longleftrightarrow> \<bar>now - UnixMilli ts\<bar> < 30 * Second \<or> UnixMilli ts - now \<ge> 2 ^ 63"
  unfolding FreshTS_def using skew_ok_iff [of MaxSkew now ts]
  by (auto simp: MaxSkew_def Second_def maxDuration_def minDuration_def)

end
