(* ===== verification/Payload_Json.thy ===== *)
theory Payload_Json
  imports Proto_Json
begin

text \<open>
  The control payloads that travel inside a session, \<^verbatim>\<open>sealedPayload\<close> of \<^verbatim>\<open>cmd/dnxd/session.go\<close>, with
  \<^verbatim>\<open>json.Marshal\<close> and \<^verbatim>\<open>json.Unmarshal\<close> on them.
\<close>

record sealedPayload =
  sp_Kind :: string
  sp_Name :: string
  sp_Nonce :: string
  sp_TS :: int
  sp_SID :: u32
  sp_Port :: int
  sp_Info :: string
  sp_Probe :: bool

definition sealedPayload0 :: sealedPayload where
  "sealedPayload0 = \<lparr>sp_Kind = '''', sp_Name = '''', sp_Nonce = '''', sp_TS = 0, sp_SID = 0, sp_Port = 0, sp_Info = '''', sp_Probe = False\<rparr>"

section \<open>The codec\<close>

definition payload_members :: "sealedPayload \<Rightarrow> (string \<times> json) list" where
  "payload_members p =
     [(''k'', JStr (sp_Kind p)), (''n'', JStr (sp_Name p))] @ opt_string ''x'' (sp_Nonce p) @ opt_int ''t'' (sp_TS p) @
     opt_int ''s'' (uint (sp_SID p)) @ opt_int ''p'' (sp_Port p) @ opt_string ''i'' (sp_Info p) @ opt_bool ''pr'' (sp_Probe p) @ []"

definition payload_marshal :: "sealedPayload \<Rightarrow> bytes" where
  "payload_marshal p = to_bytes (json_print (JObj (payload_members p)))"

definition payload_fields :: "string list" where
  "payload_fields = [''k'', ''n'', ''x'', ''t'', ''s'', ''p'', ''i'', ''pr'']"

definition payload_store :: "string \<Rightarrow> json \<Rightarrow> sealedPayload \<Rightarrow> sealedPayload option" where
  "payload_store n v p =
     (if n = ''k'' then map_option (\<lambda>s. p\<lparr>sp_Kind := s\<rparr>) (get_string v (sp_Kind p))
      else if n = ''n'' then map_option (\<lambda>s. p\<lparr>sp_Name := s\<rparr>) (get_string v (sp_Name p))
      else if n = ''x'' then map_option (\<lambda>s. p\<lparr>sp_Nonce := s\<rparr>) (get_string v (sp_Nonce p))
      else if n = ''t'' then map_option (\<lambda>i. p\<lparr>sp_TS := i\<rparr>) (get_int 64 v (sp_TS p))
      else if n = ''s'' then map_option (\<lambda>i. p\<lparr>sp_SID := word_of_nat i\<rparr>) (get_uint 32 v (unat (sp_SID p)))
      else if n = ''p'' then map_option (\<lambda>i. p\<lparr>sp_Port := i\<rparr>) (get_int 64 v (sp_Port p))
      else if n = ''i'' then map_option (\<lambda>s. p\<lparr>sp_Info := s\<rparr>) (get_string v (sp_Info p))
      else map_option (\<lambda>b. p\<lparr>sp_Probe := b\<rparr>) (get_bool v (sp_Probe p)))"

definition payload_unmarshal :: "bytes \<Rightarrow> sealedPayload option" where
  "payload_unmarshal b =
     (case json_parse (of_bytes b) of
        None \<Rightarrow> None
      | Some v \<Rightarrow> decode_struct payload_fields payload_store sealedPayload0 v)"

section \<open>Round trip\<close>

definition wire_payload :: "sealedPayload \<Rightarrow> bool" where
  "wire_payload p \<longleftrightarrow> valid_utf8 (sp_Kind p) \<and> valid_utf8 (sp_Name p) \<and> valid_utf8 (sp_Nonce p) \<and> fits 64 (sp_TS p) \<and>
     fits 64 (sp_Port p) \<and> valid_utf8 (sp_Info p)"

lemma payload_json_ok: "wire_payload p \<Longrightarrow> json_ok 0 (JObj (payload_members p))"
  by (simp del: json_ok.simps(6) add: json_ok_obj payload_members_def wire_payload_def maxNestingDepth_def)

lemma payload_steps:
  fixes r :: sealedPayload
  shows
  "sp_Nonce r = '''' \<Longrightarrow> decode_fields payload_fields payload_store (opt_string ''x'' s @ ms) r = decode_fields payload_fields payload_store ms (r\<lparr>sp_Nonce := s\<rparr>)"
  "sp_TS r = 0 \<Longrightarrow> fits 64 i \<Longrightarrow> decode_fields payload_fields payload_store (opt_int ''t'' i @ ms) r = decode_fields payload_fields payload_store ms (r\<lparr>sp_TS := i\<rparr>)"
  "sp_SID r = 0 \<Longrightarrow> decode_fields payload_fields payload_store (opt_int ''s'' (uint w) @ ms) r = decode_fields payload_fields payload_store ms (r\<lparr>sp_SID := w\<rparr>)"
  "sp_Port r = 0 \<Longrightarrow> fits 64 i \<Longrightarrow> decode_fields payload_fields payload_store (opt_int ''p'' i @ ms) r = decode_fields payload_fields payload_store ms (r\<lparr>sp_Port := i\<rparr>)"
  "sp_Info r = '''' \<Longrightarrow> decode_fields payload_fields payload_store (opt_string ''i'' s @ ms) r = decode_fields payload_fields payload_store ms (r\<lparr>sp_Info := s\<rparr>)"
  "sp_Probe r = False \<Longrightarrow> decode_fields payload_fields payload_store (opt_bool ''pr'' b @ ms) r = decode_fields payload_fields payload_store ms (r\<lparr>sp_Probe := b\<rparr>)"
proof -
  let ?D = "decode_fields payload_fields payload_store"
  note d = field_exact payload_fields_def payload_store_def
  show "sp_Nonce r = [] \<Longrightarrow> ?D (opt_string ''x'' s @ ms) r = ?D ms (r\<lparr>sp_Nonce := s\<rparr>)"
    by (intro decode_opt_string) (auto simp: d get_string_def)
  show "sp_TS r = 0 \<Longrightarrow> fits 64 i \<Longrightarrow> ?D (opt_int ''t'' i @ ms) r = ?D ms (r\<lparr>sp_TS := i\<rparr>)"
    by (intro decode_opt_int) (auto simp: d get_int_show)
  show "sp_SID r = 0 \<Longrightarrow> ?D (opt_int ''s'' (uint w) @ ms) r = ?D ms (r\<lparr>sp_SID := w\<rparr>)"
    by (intro decode_opt_int) (auto simp: d get_uint_word uint_0_iff)
  show "sp_Port r = 0 \<Longrightarrow> fits 64 i \<Longrightarrow> ?D (opt_int ''p'' i @ ms) r = ?D ms (r\<lparr>sp_Port := i\<rparr>)"
    by (intro decode_opt_int) (auto simp: d get_int_show)
  show "sp_Info r = [] \<Longrightarrow> ?D (opt_string ''i'' s @ ms) r = ?D ms (r\<lparr>sp_Info := s\<rparr>)"
    by (intro decode_opt_string) (auto simp: d get_string_def)
  show "sp_Probe r = False \<Longrightarrow> ?D (opt_bool ''pr'' b @ ms) r = ?D ms (r\<lparr>sp_Probe := b\<rparr>)"
    by (intro decode_opt_bool) (auto simp: d get_bool_def)
qed

lemma decode_payload_members:
  assumes "fits 64 (sp_TS p)" "fits 64 (sp_Port p)"
  shows "decode_fields payload_fields payload_store (payload_members p) sealedPayload0 = Some p"
proof -
  have f: "field payload_fields ''k'' = Some ''k''" "field payload_fields ''n'' = Some ''n''" by (simp_all add: field_def payload_fields_def)
  have k: "decode_fields payload_fields payload_store ((''k'', JStr s) # ms) r = decode_fields payload_fields payload_store ms (r\<lparr>sp_Kind := s\<rparr>)"
      "decode_fields payload_fields payload_store ((''n'', JStr s) # ms) r = decode_fields payload_fields payload_store ms (r\<lparr>sp_Name := s\<rparr>)" for s ms r
    by (simp_all add: f payload_store_def get_string_def)
  show ?thesis unfolding payload_members_def using assms
    by (simp add: k payload_steps sealedPayload0_def del: append_Nil2 decode_fields.simps(2))
qed

lemma payload_unmarshal_marshal: "wire_payload p \<Longrightarrow> payload_unmarshal (payload_marshal p) = Some p"
  using json_parse_print [OF payload_json_ok] decode_payload_members [of p]
  by (simp add: payload_unmarshal_def payload_marshal_def decode_struct_def wire_payload_def)

interpretation payload_wire: wire_codec wire_payload payload_marshal payload_unmarshal
  by unfold_locales (rule payload_unmarshal_marshal)

lemma payload_marshal_brace: "\<exists>r. payload_marshal p = 0x7B # r"
  by (simp add: payload_marshal_def to_bytes_def)

end
