(* ===== verification/Agent.thy ===== *)
theory Agent
  imports Identity Tunnel_Table Secure Zone Payload_Json
begin

text \<open>
  \<^verbatim>\<open>cmd/dnxd\<close>: the node agent. This theory holds its state and its handlers: the routing of answers to
  waiting operations, the handshake on both sides, sealed frames, tunnels, and the dispatch of
  datagrams (\<^verbatim>\<open>main.go\<close>, \<^verbatim>\<open>session.go\<close>, \<^verbatim>\<open>tunnel.go\<close>). The maps of the agent hold pointers that goroutines
  keep: a handshake waits on its own \<^verbatim>\<open>peerSession\<close> object even when another one has taken its place in
  the map, so peer sessions, response channels and tunnels live in heaps (lists; an address is an index)
  and the maps hold addresses. A handler returns the datagrams it sends and the agent it leaves. Each
  handler reads the clock once; randomness, address resolution and the
  TCP dialer are arguments. A UDP address is its textual form.
\<close>

section \<open>State\<close>

datatype hs_error = HsNoResp | HsTimeout | HsCrypto sec_error

text \<open>\<open>ps_done\<close>: the field \<^verbatim>\<open>done\<close> is not nil; \<open>ps_closed\<close>: the channel it was created with is closed.\<close>

record peerSession =
  ps_sess :: "session option"
  ps_eph :: ephemeral
  ps_addr :: "string option"
  ps_nonceA :: string
  ps_done :: bool
  ps_closed :: bool
  ps_err :: "hs_error option"
  ps_initiator :: bool

record agent =
  ag_id :: identity
  ag_priv :: bytes
  ag_regAddr :: string
  ag_public :: string
  ag_waiters :: "(string \<times> nat) list"
  ag_chans :: "message list list"
  ag_sessions :: "(string \<times> nat) list"
  ag_peers :: "peerSession list"
  ag_tunnels :: tunnelTable
  ag_tunnelPorts :: "int list"
  ag_registryKey :: string

datatype out = Msg string message | Sealed string bytes

definition newAgent :: "identity \<Rightarrow> bytes \<Rightarrow> string \<Rightarrow> int list \<Rightarrow> string \<Rightarrow> agent" where
  "newAgent i priv reg ports registryKey =
     \<lparr>ag_id = i, ag_priv = priv, ag_regAddr = reg, ag_public = '''', ag_waiters = [], ag_chans = [], ag_sessions = [],
      ag_peers = [], ag_tunnels = newTunnelTable, ag_tunnelPorts = ports, ag_registryKey = registryKey\<rparr>"

section \<open>Ports\<close>

text \<open>\<^verbatim>\<open>strconv.Atoi\<close>: an optional sign and decimal digits, within 64 bits.\<close>

definition Atoi :: "string \<Rightarrow> int option" where
  "Atoi s =
     (let neg = (s \<noteq> [] \<and> hd s = CHR ''-'');
          ds = (if s \<noteq> [] \<and> (hd s = CHR ''-'' \<or> hd s = CHR ''+'') then tl s else s)
      in if ds = [] \<or> \<not> list_all is_digit ds then None
         else let v = (if neg then - int (digits_val ds) else int (digits_val ds))
              in if v < - (2 ^ 63) \<or> v \<ge> 2 ^ 63 then None else Some v)"

datatype port_error = BadPort string | PortRange int

fun parse_ports :: "string list \<Rightarrow> int list \<Rightarrow> port_error + int list" where
  "parse_ports [] acc = Inr acc"
| "parse_ports (f # fs) acc =
     (let g = TrimSpace f
      in if g = '''' then parse_ports fs acc
         else case Atoi g of
                None \<Rightarrow> Inl (BadPort g)
              | Some n \<Rightarrow> if n < 1 \<or> n > 65535 then Inl (PortRange n) else parse_ports fs (List.insert n acc))"

definition parseTunnelPorts :: "string \<Rightarrow> port_error + int list" where
  "parseTunnelPorts spec = parse_ports (Split CHR '','' spec) []"

datatype tunnel_refusal = TunnelsDisabled | PortNotAllowed int

definition tunnelAllowed :: "int \<Rightarrow> agent \<Rightarrow> tunnel_refusal option" where
  "tunnelAllowed port a =
     (if length (ag_tunnelPorts a) = 0 then Some TunnelsDisabled
      else if port \<notin> set (ag_tunnelPorts a) then Some (PortNotAllowed port)
      else None)"

fun refusal_text :: "tunnel_refusal \<Rightarrow> string" where
  "refusal_text TunnelsDisabled = ''inbound tunnels are disabled on this node''"
| "refusal_text (PortNotAllowed port) = ''port '' @ show_int port @ '' is not in this node's tunnel allowlist''"

section \<open>Waiting for answers\<close>

definition chanCap :: nat where "chanCap = 4"

definition wait :: "string \<Rightarrow> agent \<Rightarrow> nat \<times> agent" where
  "wait key a = (length (ag_chans a),
     a\<lparr>ag_chans := ag_chans a @ [[]], ag_waiters := AList.update key (length (ag_chans a)) (ag_waiters a)\<rparr>)"

definition unwait :: "string \<Rightarrow> agent \<Rightarrow> agent" where
  "unwait key a = a\<lparr>ag_waiters := AList.delete key (ag_waiters a)\<rparr>"

definition chan_push :: "nat \<Rightarrow> message \<Rightarrow> agent \<Rightarrow> agent" where
  "chan_push c m a =
     (if length (ag_chans a ! c) < chanCap then a\<lparr>ag_chans := (ag_chans a)[c := ag_chans a ! c @ [m]]\<rparr> else a)"

fun deliver_keys :: "string list \<Rightarrow> message \<Rightarrow> agent \<Rightarrow> agent" where
  "deliver_keys [] m a = a"
| "deliver_keys (k # ks) m a =
     (case map_of (ag_waiters a) k of
        Some c \<Rightarrow> if k \<noteq> '''' \<and> k \<noteq> ''|'' then chan_push c m a else deliver_keys ks m a
      | None \<Rightarrow> deliver_keys ks m a)"

definition deliver :: "message \<Rightarrow> agent \<Rightarrow> agent" where
  "deliver m a = deliver_keys [m_Nonce m, m_Kind m @ ''|'' @ m_Target m] m a"

section \<open>Messages of the agent\<close>

definition heartbeat :: "prims \<Rightarrow> time \<Rightarrow> string \<Rightarrow> agent \<Rightarrow> out" where
  "heartbeat P now nonce a =
     Msg (ag_regAddr a) (Sign P (ag_priv a) (Message0\<lparr>m_Kind := KindRegister, m_Name := id_Name (ag_id a),
       m_PubKey := id_PubB64 (ag_id a), m_TS := to_millis now, m_Nonce := nonce\<rparr>))"

definition intro :: "prims \<Rightarrow> time \<Rightarrow> string \<Rightarrow> string \<Rightarrow> string \<Rightarrow> agent \<Rightarrow> out" where
  "intro P now nonce target reg a =
     Msg reg (Sign P (ag_priv a) (Message0\<lparr>m_Kind := KindIntro, m_Name := id_Name (ag_id a), m_Target := target,
       m_TS := to_millis now, m_Nonce := nonce\<rparr>))"

definition resolve_request :: "prims \<Rightarrow> time \<Rightarrow> string \<Rightarrow> string \<Rightarrow> agent \<Rightarrow> message" where
  "resolve_request P now nonce target a =
     Sign P (ag_priv a) (Message0\<lparr>m_Kind := KindResolve, m_Name := id_Name (ag_id a), m_Target := target,
       m_TS := to_millis now, m_Nonce := nonce\<rparr>)"

section \<open>The handshake\<close>

definition set_peer :: "nat \<Rightarrow> peerSession \<Rightarrow> agent \<Rightarrow> agent" where
  "set_peer i ps a = a\<lparr>ag_peers := (ag_peers a)[i := ps]\<rparr>"

definition add_peer :: "string \<Rightarrow> peerSession \<Rightarrow> agent \<Rightarrow> agent" where
  "add_peer name ps a =
     a\<lparr>ag_peers := ag_peers a @ [ps], ag_sessions := AList.update name (length (ag_peers a)) (ag_sessions a)\<rparr>"

datatype gs_start = GsReady nat | GsWait nat | GsStarted nat message | GsFail sec_error

definition hs_init :: "prims \<Rightarrow> time \<Rightarrow> ephemeral \<Rightarrow> string \<Rightarrow> string \<Rightarrow> agent \<Rightarrow> message" where
  "hs_init P now eph nonceA peerName a =
     (let ts = to_millis now
      in Message0\<lparr>m_Kind := KindHSInit, m_Name := id_Name (ag_id a), m_Target := peerName, m_PubKey := id_PubB64 (ag_id a),
           m_EphPub := EncodeEphPub (eph_Pub eph), m_Nonce := nonceA, m_TS := ts,
           m_Sig := SignHandshake P (ag_priv a)
             (HandshakeBytes ''HS_INIT'' (id_Name (ag_id a)) peerName (eph_Pub eph) nonceA '''' ts)\<rparr>)"

definition start_handshake :: "prims \<Rightarrow> time \<Rightarrow> bytes \<Rightarrow> string \<Rightarrow> string \<Rightarrow> string \<Rightarrow> agent \<Rightarrow> gs_start \<times> agent" where
  "start_handshake P now rnd nonceA peerName peerAddr a =
     (case NewEphemeral P rnd of
        Inl e \<Rightarrow> (GsFail e, a)
      | Inr eph \<Rightarrow>
          (GsStarted (length (ag_peers a)) (hs_init P now eph nonceA peerName a),
           add_peer peerName \<lparr>ps_sess = None, ps_eph = eph, ps_addr = Some peerAddr, ps_nonceA = nonceA, ps_done = True,
             ps_closed = False, ps_err = None, ps_initiator = True\<rparr> a))"

text \<open>The first critical section of \<^verbatim>\<open>getSession\<close>: reuse, wait for a handshake in flight, or start one.\<close>

definition getSession_begin :: "prims \<Rightarrow> time \<Rightarrow> bytes \<Rightarrow> string \<Rightarrow> string \<Rightarrow> string \<Rightarrow> agent \<Rightarrow> gs_start \<times> agent" where
  "getSession_begin P now rnd nonceA peerName peerAddr a =
     (case map_of (ag_sessions a) peerName of
        None \<Rightarrow> start_handshake P now rnd nonceA peerName peerAddr a
      | Some i \<Rightarrow>
          let ps = ag_peers a ! i
          in case ps_sess ps of
               Some s \<Rightarrow>
                 if \<not> Expired now s then (GsReady i, set_peer i (ps\<lparr>ps_addr := Some peerAddr\<rparr>) a)
                 else start_handshake P now rnd nonceA peerName peerAddr a
             | None \<Rightarrow>
                 if ps_done ps then (GsWait i, a)
                 else start_handshake P now rnd nonceA peerName peerAddr a)"

text \<open>A turn of the retry goroutine, and its deadline; \<^verbatim>\<open>close\<close> of a nil or closed channel panics (\<open>None\<close>).\<close>

definition hs_retry :: "nat \<Rightarrow> message \<Rightarrow> agent \<Rightarrow> out list" where
  "hs_retry i msg a =
     (let ps = ag_peers a ! i
      in if ps_sess ps \<noteq> None then [] else case ps_addr ps of None \<Rightarrow> [] | Some addr \<Rightarrow> [Msg addr msg])"

definition hs_deadline :: "nat \<Rightarrow> agent \<Rightarrow> agent option" where
  "hs_deadline i a =
     (let ps = ag_peers a ! i
      in if ps_sess ps = None \<and> ps_err ps = None then
           if \<not> ps_done ps \<or> ps_closed ps then None
           else Some (set_peer i (ps\<lparr>ps_err := Some HsNoResp, ps_closed := True, ps_done := False\<rparr>) a)
         else Some a)"

datatype gs_end = GsPending | GsError hs_error | GsSession nat | GsNilSession

definition getSession_end :: "nat \<Rightarrow> agent \<Rightarrow> gs_end" where
  "getSession_end i a =
     (let ps = ag_peers a ! i
      in if \<not> ps_closed ps then GsPending
         else case ps_err ps of
                Some e \<Rightarrow> GsError e
              | None \<Rightarrow> (case ps_sess ps of Some s \<Rightarrow> GsSession i | None \<Rightarrow> GsNilSession))"

definition handleHSInit :: "prims \<Rightarrow> time \<Rightarrow> bytes \<Rightarrow> string \<Rightarrow> string \<Rightarrow> message \<Rightarrow> agent \<Rightarrow> out list \<times> agent" where
  "handleHSInit P now rnd nonceB src m a =
     (if \<not> FreshTS now (m_TS m) then ([], a)
      else case DecodeEphPub (m_EphPub m) of
             Inl e \<Rightarrow> ([], a)
           | Inr ephPub \<Rightarrow>
               (case VerifyHandshake P (m_PubKey m)
                       (HandshakeBytes ''HS_INIT'' (m_Name m) (id_Name (ag_id a)) ephPub (m_Nonce m) '''' (m_TS m)) (m_Sig m) of
                  Inl e \<Rightarrow> ([], a)
                | Inr _ \<Rightarrow>
                    (case NewEphemeral P rnd of
                       Inl e \<Rightarrow> ([], a)
                     | Inr eph \<Rightarrow>
                         (case Derive P now eph ephPub (m_Name m) (m_PubKey m) (m_Nonce m) nonceB False of
                            Inl e \<Rightarrow> ([], a)
                          | Inr sess \<Rightarrow>
                              let ts = to_millis now;
                                  resp = Message0\<lparr>m_Kind := KindHSResp, m_Name := id_Name (ag_id a), m_Target := m_Name m,
                                    m_PubKey := id_PubB64 (ag_id a), m_EphPub := EncodeEphPub (eph_Pub eph), m_Nonce := m_Nonce m,
                                    m_NonceB := nonceB, m_TS := ts,
                                    m_Sig := SignHandshake P (ag_priv a)
                                      (HandshakeBytes ''HS_RESP'' (id_Name (ag_id a)) (m_Name m) (eph_Pub eph) (m_Nonce m) nonceB ts)\<rparr>
                              in ([Msg src resp],
                                  add_peer (m_Name m) \<lparr>ps_sess = Some sess, ps_eph = eph, ps_addr = Some src, ps_nonceA = '''',
                                    ps_done = False, ps_closed = False, ps_err = None, ps_initiator = False\<rparr> a)))))"

definition hs_resp_check :: "prims \<Rightarrow> time \<Rightarrow> peerSession \<Rightarrow> message \<Rightarrow> agent \<Rightarrow> session option" where
  "hs_resp_check P now ps m a =
     (if \<not> FreshTS now (m_TS m) then None
      else if m_Nonce m \<noteq> ps_nonceA ps then None
      else case DecodeEphPub (m_EphPub m) of
             Inl e \<Rightarrow> None
           | Inr ephPub \<Rightarrow>
               (case VerifyHandshake P (m_PubKey m)
                       (HandshakeBytes ''HS_RESP'' (m_Name m) (id_Name (ag_id a)) ephPub (ps_nonceA ps) (m_NonceB m) (m_TS m)) (m_Sig m) of
                  Inl e \<Rightarrow> None
                | Inr _ \<Rightarrow>
                    (case Derive P now (ps_eph ps) ephPub (m_Name m) (m_PubKey m) (ps_nonceA ps) (m_NonceB m) True of
                       Inl e \<Rightarrow> None
                     | Inr sess \<Rightarrow> Some sess)))"

text \<open>
  \<^verbatim>\<open>handleHSResp\<close>. The code checks the entry and completes it in two critical sections; only the read loop
  completes handshakes, and the deadline of the retry goroutine leaves the fields read in between alone.
  Closing a channel that is closed panics (\<open>None\<close>).
\<close>

definition handleHSResp :: "prims \<Rightarrow> time \<Rightarrow> string \<Rightarrow> message \<Rightarrow> agent \<Rightarrow> agent option" where
  "handleHSResp P now src m a =
     (case map_of (ag_sessions a) (m_Name m) of
        None \<Rightarrow> Some a
      | Some i \<Rightarrow>
          let ps = ag_peers a ! i
          in if \<not> ps_initiator ps \<or> ps_sess ps \<noteq> None then Some a
             else case hs_resp_check P now ps m a of
                    None \<Rightarrow> Some a
                  | Some sess \<Rightarrow>
                      let ps1 = ps\<lparr>ps_sess := Some sess, ps_addr := Some src\<rparr>
                      in if ps_done ps1 then
                           if ps_closed ps1 then None
                           else Some (set_peer i (ps1\<lparr>ps_closed := True, ps_done := False\<rparr>) a)
                         else Some (set_peer i ps1 a))"

text \<open>One round of \<^verbatim>\<open>rekeyLoop\<close>.\<close>

definition rekey_round :: "time \<Rightarrow> agent \<Rightarrow> agent" where
  "rekey_round now a =
     a\<lparr>ag_sessions := filter (\<lambda>(name, i). \<not> (case ps_sess (ag_peers a ! i) of None \<Rightarrow> False | Some s \<Rightarrow> Expired now s)) (ag_sessions a)\<rparr>"

section \<open>Sealed frames\<close>

text \<open>Seal a payload with the session of a peer object and send it. The code holds a pointer to a live
  session there; without one it would panic (\<open>None\<close>).\<close>

definition seal_to :: "prims \<Rightarrow> nat \<Rightarrow> string \<Rightarrow> bytes \<Rightarrow> agent \<Rightarrow> (out \<times> agent) option" where
  "seal_to P i addr pt a =
     (case ps_sess (ag_peers a ! i) of
        None \<Rightarrow> None
      | Some s \<Rightarrow>
          let (f, s') = Seal P pt s
          in Some (Sealed addr f, set_peer i ((ag_peers a ! i)\<lparr>ps_sess := Some s'\<rparr>) a))"

fun seal_all :: "prims \<Rightarrow> nat \<Rightarrow> string \<Rightarrow> bytes list \<Rightarrow> agent \<Rightarrow> (out list \<times> agent) option" where
  "seal_all P i addr [] a = Some ([], a)"
| "seal_all P i addr (pt # pts) a =
     (case seal_to P i addr pt a of
        None \<Rightarrow> None
      | Some (x, a1) \<Rightarrow> (case seal_all P i addr pts a1 of None \<Rightarrow> None | Some (xs, a2) \<Rightarrow> Some (x # xs, a2)))"

text \<open>The frames a stream sends go through the callback the tunnel was created with.\<close>

definition tunnel_send :: "prims \<Rightarrow> nat \<Rightarrow> bytes list \<Rightarrow> agent \<Rightarrow> (out list \<times> agent) option" where
  "tunnel_send P k fs a =
     (let t = tt_objs (ag_tunnels a) ! k
      in seal_all P (ts_sess t) (ts_addr t) (map (encodeStreamPayload (ts_id t)) fs) a)"

definition set_tunnels :: "tunnelTable \<Rightarrow> agent \<Rightarrow> agent" where
  "set_tunnels tt a = a\<lparr>ag_tunnels := tt\<rparr>"

text \<open>The session for an address: the first one in the order in which the map is visited.\<close>

fun find_session :: "string \<Rightarrow> peerSession list \<Rightarrow> (string \<times> nat) list \<Rightarrow> nat option" where
  "find_session src peers [] = None"
| "find_session src peers ((name, i) # rest) =
     (if ps_sess (peers ! i) \<noteq> None \<and> ps_addr (peers ! i) = Some src then Some i else find_session src peers rest)"

text \<open>
  \<^verbatim>\<open>handleTunnelOpen\<close>; \<open>dial\<close> is the outcome of connecting to a loopback port (\<open>Inl\<close> the error text). The
  result also lists the ports dialled. The pipe goroutine that then moves bytes between the connection
  and the stream drives \<open>Write\<close>, \<open>Read\<close> and \<open>Close\<close> of the stream.
\<close>

definition handleTunnelOpen :: "prims \<Rightarrow> (int \<Rightarrow> string + unit) \<Rightarrow> sealedPayload \<Rightarrow> nat \<Rightarrow> string \<Rightarrow> agent \<Rightarrow>
    (int list \<times> out list \<times> agent) option" where
  "handleTunnelOpen P dial p i addr a =
     (let answer = (\<lambda>kind info dialled a'.
            (case seal_to P i addr (payload_marshal (sealedPayload0\<lparr>sp_Kind := kind, sp_Name := id_Name (ag_id a'), sp_SID := sp_SID p,
                    sp_Info := info\<rparr>)) a' of
               None \<Rightarrow> None
             | Some (x, a1) \<Rightarrow> Some (dialled, [x], a1)))
      in case tunnelAllowed (sp_Port p) a of
           Some r \<Rightarrow> answer ''OPENERR'' (refusal_text r) [] a
         | None \<Rightarrow>
             (case dial (sp_Port p) of
                Inl err \<Rightarrow>
                  if sp_Probe p then
                    answer ''OPENERR'' (''port '' @ show_int (sp_Port p) @ '' is permitted but nothing is listening on it'') [sp_Port p] a
                  else answer ''OPENERR'' err [sp_Port p] a
              | Inr _ \<Rightarrow>
                  if sp_Probe p then answer ''OPENOK'' '''' [sp_Port p] a
                  else
                    let (k, tt) = tt_add \<lparr>ts_id = sp_SID p, ts_peer = sp_Name p, ts_stream = New, ts_sess = i, ts_addr = addr,
                                    ts_done = False, ts_connClosed = False\<rparr> (ag_tunnels a)
                    in answer ''OPENOK'' '''' [sp_Port p] (set_tunnels tt a)))"

definition close_tunnel :: "prims \<Rightarrow> u32 \<Rightarrow> agent \<Rightarrow> (out list \<times> agent) option" where
  "close_tunnel P sid a =
     (case tt_get sid (ag_tunnels a) of
        None \<Rightarrow> Some ([], a)
      | Some k \<Rightarrow>
          let (fs, t) = ts_close (tt_objs (ag_tunnels a) ! k)
          in case tunnel_send P k fs (set_tunnels (tt_update k (\<lambda>_. t) (ag_tunnels a)) a) of
               None \<Rightarrow> None
             | Some (xs, a1) \<Rightarrow> Some (xs, set_tunnels (tt_remove sid (ag_tunnels a1)) a1))"

text \<open>
  What \<^verbatim>\<open>handleSealed\<close> does with a payload once the frame is opened in session \<open>i\<close>: stream frames go to the
  tunnel with that identifier, control payloads are answered, delivered or open a tunnel. The code opens
  a tunnel in a goroutine of its own; it takes the locks of the table and of the session once each, and
  here it runs to its end at once.
\<close>

definition handle_payload :: "prims \<Rightarrow> time \<Rightarrow> (int \<Rightarrow> string + unit) \<Rightarrow> string \<Rightarrow> nat \<Rightarrow> bytes \<Rightarrow> agent \<Rightarrow>
    (int list \<times> out list \<times> agent) option" where
  "handle_payload P now dial src i pt a =
     (case decodeStreamPayload pt of
        Some (sid, sf) \<Rightarrow>
          (case tt_get sid (ag_tunnels a) of
             None \<Rightarrow> Some ([], [], a)
           | Some k \<Rightarrow>
               (case OnFrame now sf (ts_stream (tt_objs (ag_tunnels a) ! k)) of
                  None \<Rightarrow> None
                | Some (s, fs) \<Rightarrow>
                    (case tunnel_send P k fs (set_tunnels (tt_update k (\<lambda>t. t\<lparr>ts_stream := s\<rparr>) (ag_tunnels a)) a) of
                       None \<Rightarrow> None
                     | Some (xs, a1) \<Rightarrow> Some ([], xs, a1))))
      | None \<Rightarrow>
          (case payload_unmarshal pt of
             None \<Rightarrow> Some ([], [], a)
           | Some p \<Rightarrow>
               if sp_Kind p = ''PING'' then
                 (case seal_to P i src (payload_marshal (sealedPayload0\<lparr>sp_Kind := ''PONG'', sp_Name := id_Name (ag_id a),
                         sp_Nonce := sp_Nonce p, sp_TS := to_millis now\<rparr>)) a of
                    None \<Rightarrow> None
                  | Some (x, a1) \<Rightarrow> Some ([], [x], a1))
               else if sp_Kind p = ''PONG'' then
                 Some ([], [], deliver (Message0\<lparr>m_Kind := KindPong, m_Name := sp_Name p, m_Nonce := sp_Nonce p\<rparr>) a)
               else if sp_Kind p = ''OPEN'' then handleTunnelOpen P dial p i src a
               else if sp_Kind p = ''OPENOK'' then
                 Some ([], [], deliver (Message0\<lparr>m_Kind := KindPong, m_Nonce := tunnelWaitKey (sp_SID p)\<rparr>) a)
               else if sp_Kind p = ''OPENERR'' then
                 (case close_tunnel P (sp_SID p)
                         (deliver (Message0\<lparr>m_Kind := KindError, m_Nonce := tunnelWaitKey (sp_SID p), m_Info := sp_Info p\<rparr>) a) of
                    None \<Rightarrow> None
                  | Some (xs, a1) \<Rightarrow> Some ([], xs, a1))
               else Some ([], [], a)))"

definition handleSealed :: "prims \<Rightarrow> time \<Rightarrow> (int \<Rightarrow> string + unit) \<Rightarrow> string \<Rightarrow> bytes \<Rightarrow> agent \<Rightarrow>
    (int list \<times> out list \<times> agent) option" where
  "handleSealed P now dial src frame a =
     (case find_session src (ag_peers a) (ag_sessions a) of
        None \<Rightarrow> Some ([], [], a)
      | Some i \<Rightarrow>
          (case ps_sess (ag_peers a ! i) of
             None \<Rightarrow> None
           | Some s \<Rightarrow>
               (case Open P frame s of
                  (Inl e, s') \<Rightarrow> Some ([], [], set_peer i ((ag_peers a ! i)\<lparr>ps_sess := Some s'\<rparr>) a)
                | (Inr pt, s') \<Rightarrow>
                    handle_payload P now dial src i pt (set_peer i ((ag_peers a ! i)\<lparr>ps_sess := Some s'\<rparr>) a))))"

section \<open>Dispatch\<close>

text \<open>The sources of one turn of \<^verbatim>\<open>readLoop\<close>: the clock, randomness and the network functions.\<close>

record agent_env =
  ae_now :: time
  ae_rnd :: bytes
  ae_nonce :: string
  ae_udp :: "string \<Rightarrow> string option"
  ae_dial :: "int \<Rightarrow> string + unit"

definition handle_message :: "prims \<Rightarrow> agent_env \<Rightarrow> string \<Rightarrow> message \<Rightarrow> agent \<Rightarrow> (int list \<times> out list \<times> agent) option" where
  "handle_message P E src m a =
     (if m_Kind m = KindHSInit then
        (let (xs, a1) = handleHSInit P (ae_now E) (ae_rnd E) (ae_nonce E) src m a in Some ([], xs, a1))
      else if m_Kind m = KindHSResp then map_option (\<lambda>a1. ([], [], a1)) (handleHSResp P (ae_now E) src m a)
      else if m_Kind m = KindRegisterAck then Some ([], [], a\<lparr>ag_public := m_Endpoint m\<rparr>)
      else if m_Kind m = KindPunch then
        (case ae_udp E (m_Endpoint m) of
           None \<Rightarrow> Some ([], [], a)
         | Some peer \<Rightarrow>
             Some ([], replicate 3 (Msg peer (Message0\<lparr>m_Kind := KindPong, m_Name := id_Name (ag_id a), m_Info := ''punch''\<rparr>)), a))
      else if m_Kind m = KindPing then
        Some ([], [Msg src (Sign P (ag_priv a) (Message0\<lparr>m_Kind := KindPong, m_Name := id_Name (ag_id a), m_Nonce := m_Nonce m,
          m_TS := to_millis (ae_now E)\<rparr>))], a)
      else if m_Kind m = KindPong \<or> m_Kind m = KindResolveResp \<or> m_Kind m = KindReferral \<or> m_Kind m = KindError then
        Some ([], [], deliver m a)
      else Some ([], [], a))"

definition agent_receive :: "prims \<Rightarrow> agent_env \<Rightarrow> string \<Rightarrow> bytes \<Rightarrow> agent \<Rightarrow> (int list \<times> out list \<times> agent) option" where
  "agent_receive P E src b a =
     (if IsSealed b then handleSealed P (ae_now E) (ae_dial E) src b a
      else case Decode b of
             None \<Rightarrow> Some ([], [], a)
           | Some m \<Rightarrow> handle_message P E src m a)"

text \<open>The three kinds of datagrams and payloads are told apart by their first byte.\<close>

lemma Encode_not_sealed [simp]: "\<not> IsSealed (Encode m)"
  using Encode_brace [of m] by (auto simp: IsSealed_def FrameMagic_def)

lemma payload_not_stream [simp]: "decodeStreamPayload (payload_marshal p) = None"
  using payload_marshal_brace [of p] by (auto simp: decodeStreamPayload_def payloadStream_def)

lemma receive_Encode: "wire_message m \<Longrightarrow> agent_receive P E src (Encode m) a = handle_message P E src m a"
  by (simp add: agent_receive_def Decode_Encode)

lemma hs_init_wire:
  assumes "valid_utf8 (id_Name (ag_id a))" "valid_utf8 peer" "valid_utf8 (id_PubB64 (ag_id a))" "valid_utf8 na" "fits 64 (to_millis now)"
  shows "wire_message (hs_init P now eph na peer a)"
  using assms by (simp add: wire_message_def hs_init_def Let_def Message0_def EncodeEphPub_def SignHandshake_def kind_defs)

end
