(* ===== verification/Agent_Ops.thy ===== *)
theory Agent_Ops
  imports Agent
begin

text \<open>
  \<^verbatim>\<open>cmd/dnxd\<close>, the operations a user starts: resolving a name through referrals, the encrypted and the
  plain ping, and tunnels. An operation that waits is split where it waits: the part before the wait
  returns what is sent and the state left, the part after takes the answer as an argument.
\<close>

section \<open>Resolution\<close>

definition maxReferrals :: nat where "maxReferrals = 8"

record resolution =
  rs_PeerKey :: string
  rs_PeerAddr :: string
  rs_Registry :: string
  rs_NsPath :: string

datatype resolve_error =
    RsTimeout nat | RsUnreachable | RsRemote string | RsReferralNonce | RsReferralSig sig_error | RsOutside string
  | RsWidens string string | RsBadKey string | RsBadEndpoint | RsAnswerNonce | RsAnswerSig sig_error | RsPathSig sig_error
  | RsUnexpected string | RsTooMany

datatype rs_step = RsDone "resolve_error + resolution" | RsNext string string string

text \<open>A signature is checked only when there is a key to check it against.\<close>

definition check_sig :: "prims \<Rightarrow> string \<Rightarrow> bytes \<Rightarrow> string \<Rightarrow> sig_error option" where
  "check_sig P key b sig =
     (if key = '''' then None else case VerifyDetached P key b sig of Inl e \<Rightarrow> Some e | Inr _ \<Rightarrow> None)"

definition on_referral :: "prims \<Rightarrow> (string \<Rightarrow> string option) \<Rightarrow> string \<Rightarrow> string \<Rightarrow> string \<Rightarrow> string \<Rightarrow> message \<Rightarrow> rs_step" where
  "on_referral P udp target nonce curKey curZone m =
     (if m_Nonce m \<noteq> nonce then RsDone (Inl RsReferralNonce)
      else case check_sig P curKey (ReferralBytes target (m_Zone m) (m_Endpoint m) (m_PubKey m) (m_TS m) (m_Nonce m)) (m_Sig m) of
             Some e \<Rightarrow> RsDone (Inl (RsReferralSig e))
           | None \<Rightarrow>
               if \<not> Contains (m_Zone m) target then RsDone (Inl (RsOutside (m_Zone m)))
               else if curZone \<noteq> '''' \<and> \<not> IsNarrower (m_Zone m) curZone then RsDone (Inl (RsWidens curZone (m_Zone m)))
               else if \<not> ValidPubKey (m_PubKey m) then RsDone (Inl (RsBadKey (m_Zone m)))
               else case udp (m_Endpoint m) of
                      None \<Rightarrow> RsDone (Inl RsBadEndpoint)
                    | Some nxt \<Rightarrow> RsNext nxt (m_PubKey m) (m_Zone m))"

definition on_answer :: "prims \<Rightarrow> (string \<Rightarrow> string option) \<Rightarrow> string \<Rightarrow> string \<Rightarrow> string \<Rightarrow> message \<Rightarrow> resolve_error + resolution" where
  "on_answer P udp nonce curAddr curKey m =
     (if curKey \<noteq> '''' \<and> m_Nonce m \<noteq> nonce then Inl RsAnswerNonce
      else case check_sig P curKey (ResolveRespBytes (m_Target m) (m_PubKey m) (m_Endpoint m) (m_TS m) (m_Nonce m)) (m_Sig m) of
             Some e \<Rightarrow> Inl (RsAnswerSig e)
           | None \<Rightarrow>
               (case udp (m_Endpoint m) of
                  None \<Rightarrow> Inl RsBadEndpoint
                | Some peer \<Rightarrow>
                    let answer = (\<lambda>nsp. Inr \<lparr>rs_PeerKey = m_PubKey m, rs_PeerAddr = peer, rs_Registry = curAddr, rs_NsPath = nsp\<rparr>)
                    in if m_NsPath m \<noteq> '''' \<and> curKey \<noteq> '''' then
                         (case VerifyDetached P curKey (NsPathBytes (m_Target m) (m_NsPath m) (m_TS m) (m_Nonce m)) (m_PathSig m) of
                            Inl e \<Rightarrow> Inl (RsPathSig e)
                          | Inr _ \<Rightarrow> answer (m_NsPath m))
                       else answer ''''))"

definition resolve_reply :: "prims \<Rightarrow> (string \<Rightarrow> string option) \<Rightarrow> string \<Rightarrow> string \<Rightarrow> string \<Rightarrow> string \<Rightarrow> string \<Rightarrow> message \<Rightarrow> rs_step" where
  "resolve_reply P udp target nonce curAddr curKey curZone m =
     (if m_Kind m = KindError then RsDone (Inl (RsRemote (m_Info m)))
      else if m_Kind m = KindReferral then on_referral P udp target nonce curKey curZone m
      else if m_Kind m = KindResolveResp then RsDone (on_answer P udp nonce curAddr curKey m)
      else RsDone (Inl (RsUnexpected (m_Kind m))))"

text \<open>
  The world during a resolution, by hop: whether the deadline has passed, the clock, the fresh nonce, and
  the first message that reaches the waiter after the request is sent (\<open>None\<close> when time runs out).
\<close>

record resolver_env =
  re_expired :: "nat \<Rightarrow> bool"
  re_now :: "nat \<Rightarrow> time"
  re_nonce :: "nat \<Rightarrow> string"
  re_udp :: "string \<Rightarrow> string option"
  re_ask :: "nat \<Rightarrow> string \<Rightarrow> message \<Rightarrow> message option"

fun resolve_loop :: "prims \<Rightarrow> resolver_env \<Rightarrow> agent \<Rightarrow> string \<Rightarrow> nat \<Rightarrow> nat \<Rightarrow> string \<Rightarrow> string \<Rightarrow> string \<Rightarrow> resolve_error + resolution" where
  "resolve_loop P R a target 0 hop curAddr curKey curZone = Inl RsTooMany"
| "resolve_loop P R a target (Suc n) hop curAddr curKey curZone =
     (if re_expired R hop then Inl (RsTimeout hop)
      else case re_ask R hop curAddr (resolve_request P (re_now R hop) (re_nonce R hop) target a) of
             None \<Rightarrow> Inl RsUnreachable
           | Some m \<Rightarrow>
               (case resolve_reply P (re_udp R) target (re_nonce R hop) curAddr curKey curZone m of
                  RsDone r \<Rightarrow> r
                | RsNext nxt key zone \<Rightarrow> resolve_loop P R a target n (hop + 1) nxt key zone))"

definition resolve :: "prims \<Rightarrow> resolver_env \<Rightarrow> agent \<Rightarrow> string \<Rightarrow> resolve_error + resolution" where
  "resolve P R a target = resolve_loop P R a target maxReferrals 0 (ag_regAddr a) (ag_registryKey a) ''''"

section \<open>Encrypted ping\<close>

text \<open>
  \<^verbatim>\<open>pingEncrypted\<close>, \<^verbatim>\<open>probeTunnel\<close> and \<^verbatim>\<open>openTunnelStream\<close> continue in the same way once \<^verbatim>\<open>getSession\<close> has returned
  the session at \<open>i\<close>: its key must be the one the registry bound to the name, and the address is read
  from the map again. The lookup yields nil when the entry has gone in the meantime, and reading its
  address panics (\<open>None\<close>).
\<close>

datatype key_check = KeyOk session | KeyMismatch | KeyNil

definition check_peer :: "nat \<Rightarrow> string \<Rightarrow> agent \<Rightarrow> key_check" where
  "check_peer i peerKey a =
     (case ps_sess (ag_peers a ! i) of
        None \<Rightarrow> KeyNil
      | Some s \<Rightarrow> if PeerIDKey s \<noteq> peerKey then KeyMismatch else KeyOk s)"

definition send_in_session :: "prims \<Rightarrow> string \<Rightarrow> nat \<Rightarrow> bytes \<Rightarrow> agent \<Rightarrow> (out list \<times> agent) option" where
  "send_in_session P target i pt a =
     (case map_of (ag_sessions a) target of
        None \<Rightarrow> None
      | Some j \<Rightarrow>
          (case ps_addr (ag_peers a ! j) of
             None \<Rightarrow> map_option (\<lambda>(x, a1). ([], a1)) (seal_to P i '''' pt a)
           | Some addr \<Rightarrow> map_option (\<lambda>(x, a1). ([x], a1)) (seal_to P i addr pt a)))"

datatype ping_start = PingMismatch | PingWaiting nat "out list"

definition ping_begin :: "prims \<Rightarrow> time \<Rightarrow> string \<Rightarrow> string \<Rightarrow> nat \<Rightarrow> string \<Rightarrow> agent \<Rightarrow> (ping_start \<times> agent) option" where
  "ping_begin P now nonce target i peerKey a =
     (case check_peer i peerKey a of
        KeyNil \<Rightarrow> None
      | KeyMismatch \<Rightarrow> Some (PingMismatch, a)
      | KeyOk s \<Rightarrow>
          let (ch, a1) = wait nonce a;
              payload = payload_marshal (sealedPayload0\<lparr>sp_Kind := ''PING'', sp_Name := id_Name (ag_id a), sp_Nonce := nonce,
                          sp_TS := to_millis now\<rparr>)
          in case send_in_session P target i payload a1 of
               None \<Rightarrow> None
             | Some (xs, a2) \<Rightarrow> Some (PingWaiting ch xs, a2))"

text \<open>While no answer has come the payload is sealed and sent again, to the address read at the start.\<close>

definition ping_resend :: "prims \<Rightarrow> int \<Rightarrow> string \<Rightarrow> nat \<Rightarrow> string \<Rightarrow> agent \<Rightarrow> (out \<times> agent) option" where
  "ping_resend P ts nonce i addr a =
     seal_to P i addr (payload_marshal (sealedPayload0\<lparr>sp_Kind := ''PING'', sp_Name := id_Name (ag_id a), sp_Nonce := nonce, sp_TS := ts\<rparr>)) a"

definition ping_end :: "string \<Rightarrow> agent \<Rightarrow> agent" where
  "ping_end nonce a = unwait nonce a"

text \<open>
  How \<^verbatim>\<open>pingEncrypted\<close>, \<^verbatim>\<open>probeTunnel\<close> and \<^verbatim>\<open>openTunnelStream\<close> begin: the name is resolved, the registry that
  answered is asked for an introduction, and the session is reused, awaited or started.
\<close>

definition connect_begin :: "prims \<Rightarrow> resolver_env \<Rightarrow> time \<Rightarrow> bytes \<Rightarrow> string \<Rightarrow> string \<Rightarrow> string \<Rightarrow> agent \<Rightarrow>
    (resolve_error + resolution \<times> gs_start) \<times> out list \<times> agent" where
  "connect_begin P R now rnd introNonce nonceA target a =
     (case resolve P R a target of
        Inl e \<Rightarrow> (Inl e, [], a)
      | Inr r \<Rightarrow>
          let (g, a1) = getSession_begin P now rnd nonceA target (rs_PeerAddr r) a
          in (Inr (r, g), [intro P now introNonce target (rs_Registry r) a], a1))"

section \<open>Plain ping\<close>

datatype plain_error = PlainRemote string | PlainEndpoint | PlainTimeout | PlainSpoofed

text \<open>The answer to the resolution of a plain ping: the key and the address are taken as they come.\<close>

definition plain_resolved :: "(string \<Rightarrow> string option) \<Rightarrow> message option \<Rightarrow> plain_error + string \<times> string" where
  "plain_resolved udp r =
     (case r of
        None \<Rightarrow> Inl PlainTimeout
      | Some m \<Rightarrow>
          if m_Kind m = KindError then Inl (PlainRemote (m_Info m))
          else (case udp (m_Endpoint m) of None \<Rightarrow> Inl PlainEndpoint | Some addr \<Rightarrow> Inr (m_PubKey m, addr)))"

definition plain_ping :: "prims \<Rightarrow> time \<Rightarrow> string \<Rightarrow> string \<Rightarrow> agent \<Rightarrow> out" where
  "plain_ping P now nonce addr a =
     Msg addr (Sign P (ag_priv a) (Message0\<lparr>m_Kind := KindPing, m_Name := id_Name (ag_id a), m_Nonce := nonce, m_TS := to_millis now\<rparr>))"

definition plain_pong :: "prims \<Rightarrow> string \<Rightarrow> message option \<Rightarrow> plain_error option" where
  "plain_pong P peerKey r =
     (case r of
        None \<Rightarrow> Some PlainTimeout
      | Some m \<Rightarrow> (case Verify P m peerKey of Inl e \<Rightarrow> Some PlainSpoofed | Inr _ \<Rightarrow> None))"

section \<open>Tunnels\<close>

datatype tunnel_start = TunnelMismatch | TunnelWaiting u32 nat "out list"

definition probe_begin :: "prims \<Rightarrow> string \<Rightarrow> nat \<Rightarrow> string \<Rightarrow> int \<Rightarrow> agent \<Rightarrow> (tunnel_start \<times> agent) option" where
  "probe_begin P peerName i peerKey port a =
     (case check_peer i peerKey a of
        KeyNil \<Rightarrow> None
      | KeyMismatch \<Rightarrow> Some (TunnelMismatch, a)
      | KeyOk s \<Rightarrow>
          let (sid, tt) = allocID (ag_tunnels a);
              (ch, a1) = wait (tunnelWaitKey sid) (set_tunnels tt a);
              payload = payload_marshal (sealedPayload0\<lparr>sp_Kind := ''OPEN'', sp_Name := id_Name (ag_id a), sp_SID := sid,
                          sp_Port := port, sp_Probe := True\<rparr>)
          in case send_in_session P peerName i payload a1 of
               None \<Rightarrow> None
             | Some (xs, a2) \<Rightarrow> Some (TunnelWaiting sid ch xs, a2))"

datatype probe_result = ProbeOk | ProbeRefused string | ProbeSilent

definition probe_end :: "u32 \<Rightarrow> message option \<Rightarrow> agent \<Rightarrow> probe_result \<times> agent" where
  "probe_end sid r a =
     (case r of
        None \<Rightarrow> ProbeSilent
      | Some m \<Rightarrow> if m_Kind m = KindError then ProbeRefused (m_Info m) else ProbeOk,
      unwait (tunnelWaitKey sid) a)"

text \<open>\<^verbatim>\<open>openTunnelStream\<close> after \<^verbatim>\<open>getSession\<close>: the address is read before the tunnel is entered.\<close>

definition open_tunnel :: "prims \<Rightarrow> string \<Rightarrow> nat \<Rightarrow> string \<Rightarrow> int \<Rightarrow> agent \<Rightarrow> (nat option \<times> out list \<times> agent) option" where
  "open_tunnel P peerName i peerKey port a =
     (case check_peer i peerKey a of
        KeyNil \<Rightarrow> None
      | KeyMismatch \<Rightarrow> Some (None, [], a)
      | KeyOk s \<Rightarrow>
          let (sid, tt) = allocID (ag_tunnels a)
          in case map_of (ag_sessions a) peerName of
               None \<Rightarrow> None
             | Some j \<Rightarrow>
                 let addr = (case ps_addr (ag_peers a ! j) of None \<Rightarrow> '''' | Some x \<Rightarrow> x);
                     (k, tt1) = tt_add \<lparr>ts_id = sid, ts_peer = peerName, ts_stream = New, ts_sess = i, ts_addr = addr,
                                  ts_done = False, ts_connClosed = False\<rparr> tt
                 in case seal_to P i addr (payload_marshal (sealedPayload0\<lparr>sp_Kind := ''OPEN'', sp_Name := id_Name (ag_id a),
                           sp_SID := sid, sp_Port := port\<rparr>)) (set_tunnels tt1 a) of
                      None \<Rightarrow> None
                    | Some (x, a1) \<Rightarrow> Some (Some k, [x], a1))"

text \<open>The pipe of a tunnel: bytes from the connection are written to the stream, bytes of the stream are
  read for the connection, and at the end the tunnel is closed and its identifier removed.\<close>

definition on_stream :: "prims \<Rightarrow> nat \<Rightarrow> stream \<Rightarrow> bytes list \<Rightarrow> agent \<Rightarrow> (out list \<times> agent) option" where
  "on_stream P k s fs a = tunnel_send P k fs (set_tunnels (tt_update k (\<lambda>t. t\<lparr>ts_stream := s\<rparr>) (ag_tunnels a)) a)"

definition pipe_write :: "prims \<Rightarrow> (nat \<Rightarrow> time) \<Rightarrow> nat \<Rightarrow> bytes \<Rightarrow> agent \<Rightarrow> write_out \<times> (out list \<times> agent) option" where
  "pipe_write P clk k p a =
     (case Write clk p 0 (ts_stream (tt_objs (ag_tunnels a) ! k)) of (r, fs, s) \<Rightarrow> (r, on_stream P k s fs a))"

definition pipe_read :: "prims \<Rightarrow> nat \<Rightarrow> nat \<Rightarrow> agent \<Rightarrow> read_out \<times> (out list \<times> agent) option" where
  "pipe_read P k n a =
     (case Read n (ts_stream (tt_objs (ag_tunnels a) ! k)) of (r, fs, s) \<Rightarrow> (r, on_stream P k s fs a))"

definition pipe_tcp_done :: "prims \<Rightarrow> nat \<Rightarrow> agent \<Rightarrow> (out list \<times> agent) option" where
  "pipe_tcp_done P k a =
     (case Close (ts_stream (tt_objs (ag_tunnels a) ! k)) of (fs, s) \<Rightarrow> on_stream P k s fs a)"

definition pipe_exit :: "prims \<Rightarrow> nat \<Rightarrow> agent \<Rightarrow> (out list \<times> agent) option" where
  "pipe_exit P k a =
     (let (fs, t) = ts_close (tt_objs (ag_tunnels a) ! k)
      in case tunnel_send P k fs (set_tunnels (tt_update k (\<lambda>_. t) (ag_tunnels a)) a) of
           None \<Rightarrow> None
         | Some (xs, a1) \<Rightarrow> Some (xs, set_tunnels (tt_remove (ts_id t) (ag_tunnels a1)) a1))"

text \<open>One round of \<^verbatim>\<open>tunnelTickLoop\<close>: the frames go out through the sessions of their tunnels.\<close>

fun send_ticks :: "prims \<Rightarrow> (nat \<times> bytes) list \<Rightarrow> agent \<Rightarrow> (out list \<times> agent) option" where
  "send_ticks P [] a = Some ([], a)"
| "send_ticks P ((k, f) # fs) a =
     (case tunnel_send P k [f] a of
        None \<Rightarrow> None
      | Some (xs, a1) \<Rightarrow> (case send_ticks P fs a1 of None \<Rightarrow> None | Some (ys, a2) \<Rightarrow> Some (xs @ ys, a2)))"

definition tick_round :: "prims \<Rightarrow> time \<Rightarrow> agent \<Rightarrow> (out list \<times> agent) option" where
  "tick_round P now a =
     (let (fs, tt) = tickAll now (ag_tunnels a) in send_ticks P fs (set_tunnels tt a))"

section \<open>Start\<close>

text \<open>
  The part of \<^verbatim>\<open>main\<close> before the goroutines start. A stored private key that does not decode to 64 bytes
  (\<open>StartKey\<close>) is not noticed by \<^verbatim>\<open>main\<close>; the first signature, in the heartbeat, panics.
\<close>

datatype start_error = StartPorts port_error | StartIdentity id_error | StartRegistry | StartKey

definition dnxd_start :: "bool \<Rightarrow> (bytes \<times> bytes) option \<Rightarrow> bool \<Rightarrow> (string \<Rightarrow> string option) \<Rightarrow> string \<Rightarrow> string \<Rightarrow> string \<Rightarrow> string \<Rightarrow>
    id_file \<Rightarrow> (start_error + agent) \<times> id_file" where
  "dnxd_start home gen io udp name registry tunnelPorts registryKey f =
     (case parseTunnelPorts tunnelPorts of
        Inl e \<Rightarrow> (Inl (StartPorts e), f)
      | Inr ports \<Rightarrow>
          (case LoadOrCreate home gen io name registry f of
             (Inl e, f1) \<Rightarrow> (Inl (StartIdentity e), f1)
           | (Inr i, f1) \<Rightarrow>
               (case udp (id_Registry i) of
                  None \<Rightarrow> (Inl StartRegistry, f1)
                | Some reg \<Rightarrow>
                    (case id_Priv i of
                       None \<Rightarrow> (Inl StartKey, f1)
                     | Some priv \<Rightarrow>
                         if length priv \<noteq> 64 then (Inl StartKey, f1)
                         else (Inr (newAgent i priv reg ports registryKey), f1)))))"

end
