(* ===== verification/Agent_Inv.thy ===== *)
theory Agent_Inv
  imports Agent_Ops Stream_Net
begin

text \<open>
  The agent as a state machine: any interleaving of received datagrams (any bytes from any address),
  operations of the user and rounds of the background loops. The invariant says that the heaps and maps
  fit together, that the channel protocol of the handshake is respected, that every session is backed by
  a signature of the key it is attributed to, and that every tunnel has a session and a sound stream. It
  makes every handler total: no datagram makes the agent panic.
\<close>

section \<open>Interface: what tunnels need of streams\<close>

locale stream_service =
  fixes good :: "'s \<Rightarrow> bool"
    and fresh :: 's
    and receive :: "time \<Rightarrow> bytes \<Rightarrow> 's \<Rightarrow> ('s \<times> bytes list) option"
    and put :: "(nat \<Rightarrow> time) \<Rightarrow> bytes \<Rightarrow> nat \<Rightarrow> 's \<Rightarrow> write_out \<times> bytes list \<times> 's"
    and fetch :: "nat \<Rightarrow> 's \<Rightarrow> read_out \<times> bytes list \<times> 's"
    and close :: "'s \<Rightarrow> bytes list \<times> 's"
    and tick :: "time \<Rightarrow> 's \<Rightarrow> bool \<times> bytes list \<times> 's"
  assumes good_fresh: "good fresh"
    and receive_good: "good s \<Longrightarrow> \<exists>s' fs. receive now b s = Some (s', fs) \<and> good s'"
    and put_good: "good s \<Longrightarrow> put clk p w s = (out, fs, s') \<Longrightarrow> good s'"
    and fetch_good: "good s \<Longrightarrow> fetch n s = (r, fs, s') \<Longrightarrow> good s'"
    and close_good: "good s \<Longrightarrow> close s = (fs, s') \<Longrightarrow> good s'"
    and tick_good: "good s \<Longrightarrow> tick now s = (alive, fs, s') \<Longrightarrow> good s'"
begin

lemma receive_keeps: "good s \<Longrightarrow> receive now b s = Some (s', fs) \<Longrightarrow> good s'"
  using receive_good by (metis option.inject prod.inject)

end

interpretation streams: stream_service snd_win New OnFrame Write Read Close Tick
proof
  show "snd_win New" by (rule snd_win_New)
  show "\<exists>s' fs. OnFrame now b s = Some (s', fs) \<and> snd_win s'" if "snd_win s" for s now b
    using OnFrame_snd [OF that] by blast
  show "snd_win s'" if "snd_win s" "Write clk p w s = (out, fs, s')" for s clk p w out fs s'
    using that by (rule Write_win)
  show "snd_win s'" if "snd_win s" "Read n s = (r, fs, s')" for s n r fs s'
    using that Read_snd snd_win_all by blast
  show "snd_win s'" if "snd_win s" "Close s = (fs, s')" for s fs s'
    using that Close_view snd_win_part by blast
  show "snd_win s'" if "snd_win s" "Tick now s = (alive, fs, s')" for s now alive fs s'
    using that by (rule Tick_win)
qed

section \<open>Invariant\<close>

definition genuine :: "prims \<Rightarrow> string \<Rightarrow> session \<Rightarrow> bool" where
  "genuine P me s \<longleftrightarrow> (\<exists>tag eph na nb ts sig. (tag = ''HS_INIT'' \<or> tag = ''HS_RESP'') \<and>
     VerifyHandshake P (PeerIDKey s) (HandshakeBytes tag (PeerName s) me eph na nb ts) sig = Inr ())"

definition peer_ok :: "prims \<Rightarrow> string \<Rightarrow> peerSession \<Rightarrow> bool" where
  "peer_ok P me ps \<longleftrightarrow> ps_addr ps \<noteq> None \<and>
     (case ps_sess ps of
        Some s \<Rightarrow> \<not> ps_done ps \<and> genuine P me s
      | None \<Rightarrow> (case ps_err ps of None \<Rightarrow> ps_done ps \<and> \<not> ps_closed ps | Some e \<Rightarrow> \<not> ps_done ps))"

lemma genuineI:
  "tag = ''HS_INIT'' \<or> tag = ''HS_RESP'' \<Longrightarrow> VerifyHandshake P k (HandshakeBytes tag n me eph na nb ts) sig = Inr () \<Longrightarrow>
   PeerIDKey s = k \<Longrightarrow> PeerName s = n \<Longrightarrow> genuine P me s"
  unfolding genuine_def by blast

definition sessions_ok :: "(string \<times> nat) list \<Rightarrow> peerSession list \<Rightarrow> bool" where
  "sessions_ok ss peers \<longleftrightarrow> distinct (map fst ss) \<and> distinct (map snd ss) \<and>
     (\<forall>n i. (n, i) \<in> set ss \<longrightarrow> i < length peers \<and> (\<forall>s. ps_sess (peers ! i) = Some s \<longrightarrow> PeerName s = n))"

definition tunnels_ok :: "tunnelTable \<Rightarrow> peerSession list \<Rightarrow> bool" where
  "tunnels_ok tt peers \<longleftrightarrow>
     (\<forall>t \<in> set (tt_objs tt). ts_sess t < length peers \<and> ps_sess (peers ! ts_sess t) \<noteq> None \<and> snd_win (ts_stream t)) \<and>
     (\<forall>i k. (i, k) \<in> set (tt_streams tt) \<longrightarrow> k < length (tt_objs tt))"

definition agent_ok :: "prims \<Rightarrow> agent \<Rightarrow> bool" where
  "agent_ok P a \<longleftrightarrow> (\<forall>ps \<in> set (ag_peers a). peer_ok P (id_Name (ag_id a)) ps) \<and>
     sessions_ok (ag_sessions a) (ag_peers a) \<and> tunnels_ok (ag_tunnels a) (ag_peers a)"

lemma agent_okI:
  "(\<And>ps. ps \<in> set (ag_peers a) \<Longrightarrow> peer_ok P (id_Name (ag_id a)) ps) \<Longrightarrow> sessions_ok (ag_sessions a) (ag_peers a) \<Longrightarrow>
   tunnels_ok (ag_tunnels a) (ag_peers a) \<Longrightarrow> agent_ok P a"
  by (simp add: agent_ok_def)

lemma agent_okD:
  assumes "agent_ok P a"
  shows "i < length (ag_peers a) \<Longrightarrow> peer_ok P (id_Name (ag_id a)) (ag_peers a ! i)"
    "sessions_ok (ag_sessions a) (ag_peers a)" "tunnels_ok (ag_tunnels a) (ag_peers a)"
  using assms by (auto simp: agent_ok_def)

lemma newAgent_ok: "agent_ok P (newAgent i priv reg ports key)"
  by (simp add: agent_ok_def newAgent_def sessions_ok_def tunnels_ok_def newTunnelTable_def)

lemma sessions_okD:
  assumes "sessions_ok ss peers" "map_of ss n = Some i"
  shows "i < length peers" "ps_sess (peers ! i) = Some s \<Longrightarrow> PeerName s = n"
  using assms by (auto simp: sessions_ok_def dest: map_of_SomeD)

subsection \<open>Changes that leave the sessions alone\<close>

lemma agent_ok_cong:
  assumes "agent_ok P a" "ag_id a' = ag_id a" "ag_peers a' = ag_peers a" "ag_sessions a' = ag_sessions a" "ag_tunnels a' = ag_tunnels a"
  shows "agent_ok P a'"
  using assms by (simp add: agent_ok_def)

lemma agent_ok_upd [simp]:
  "agent_ok P (a\<lparr>ag_public := x\<rparr>) = agent_ok P a" "agent_ok P (a\<lparr>ag_chans := c\<rparr>) = agent_ok P a"
  "agent_ok P (a\<lparr>ag_waiters := w\<rparr>) = agent_ok P a" "agent_ok P (a\<lparr>ag_chans := c, ag_waiters := w\<rparr>) = agent_ok P a"
  by (simp_all add: agent_ok_def)

lemma deliver_keys_frame:
  "ag_id (deliver_keys ks m a) = ag_id a" "ag_peers (deliver_keys ks m a) = ag_peers a"
  "ag_sessions (deliver_keys ks m a) = ag_sessions a" "ag_tunnels (deliver_keys ks m a) = ag_tunnels a"
  by (induction ks m a rule: deliver_keys.induct) (auto simp: chan_push_def split: option.splits)

lemma deliver_frame [simp]:
  "ag_id (deliver m a) = ag_id a" "ag_peers (deliver m a) = ag_peers a"
  "ag_sessions (deliver m a) = ag_sessions a" "ag_tunnels (deliver m a) = ag_tunnels a"
  by (simp_all add: deliver_def deliver_keys_frame del: deliver_keys.simps)

lemma agent_ok_deliver [simp]: "agent_ok P (deliver m a) = agent_ok P a"
  by (simp add: agent_ok_def)

lemma set_tunnels_sel [simp]:
  "ag_id (set_tunnels tt a) = ag_id a" "ag_peers (set_tunnels tt a) = ag_peers a"
  "ag_sessions (set_tunnels tt a) = ag_sessions a" "ag_tunnels (set_tunnels tt a) = tt"
  by (simp_all add: set_tunnels_def)

lemma agent_ok_set_tunnels: "agent_ok P a \<Longrightarrow> tunnels_ok tt (ag_peers a) \<Longrightarrow> agent_ok P (set_tunnels tt a)"
  by (simp add: agent_ok_def)

lemma sessions_ok_filter: "sessions_ok ss peers \<Longrightarrow> sessions_ok (filter f ss) peers"
  by (auto simp: sessions_ok_def distinct_map_filter)

lemma rekey_ok: "agent_ok P a \<Longrightarrow> agent_ok P (rekey_round now a)"
  by (simp add: agent_ok_def rekey_round_def sessions_ok_filter)

subsection \<open>Changing and adding peer sessions\<close>

lemma set_peer_sel [simp]:
  "ag_id (set_peer i ps a) = ag_id a" "ag_sessions (set_peer i ps a) = ag_sessions a" "ag_tunnels (set_peer i ps a) = ag_tunnels a"
  "ag_peers (set_peer i ps a) = (ag_peers a)[i := ps]"
  by (simp_all add: set_peer_def)

lemma set_peer_ok:
  assumes a: "agent_ok P a" and i: "i < length (ag_peers a)" and ps: "peer_ok P (id_Name (ag_id a)) ps"
    and live: "ps_sess (ag_peers a ! i) \<noteq> None \<Longrightarrow> ps_sess ps \<noteq> None"
    and name: "\<And>n s. (n, i) \<in> set (ag_sessions a) \<Longrightarrow> ps_sess ps = Some s \<Longrightarrow> PeerName s = n"
  shows "agent_ok P (set_peer i ps a)"
proof (rule agent_okI)
  show "peer_ok P (id_Name (ag_id (set_peer i ps a))) q" if "q \<in> set (ag_peers (set_peer i ps a))" for q
  proof -
    have "q = ps \<or> q \<in> set (ag_peers a)" using that set_update_subset_insert by fastforce
    then show ?thesis using ps a by (auto simp: agent_ok_def)
  qed
  show "sessions_ok (ag_sessions (set_peer i ps a)) (ag_peers (set_peer i ps a))"
    using agent_okD(2) [OF a] name i unfolding sessions_ok_def by (simp add: nth_list_update)
  show "tunnels_ok (ag_tunnels (set_peer i ps a)) (ag_peers (set_peer i ps a))"
    using agent_okD(3) [OF a] live i unfolding tunnels_ok_def by (simp add: nth_list_update)
qed

lemma add_peer_sel [simp]:
  "ag_id (add_peer n ps a) = ag_id a" "ag_tunnels (add_peer n ps a) = ag_tunnels a" "ag_peers (add_peer n ps a) = ag_peers a @ [ps]"
  "ag_sessions (add_peer n ps a) = AList.update n (length (ag_peers a)) (ag_sessions a)"
  by (simp_all add: add_peer_def)

lemma set_alist_update_subset: "(n, v) \<in> set (AList.update k w m) \<Longrightarrow> (n = k \<and> v = w) \<or> (n, v) \<in> set m"
  by (induction m) (auto split: if_splits)

lemma distinct_snd_update:
  "distinct (map snd m) \<Longrightarrow> w \<notin> snd ` set m \<Longrightarrow> distinct (map snd (AList.update k w m))"
proof (induction m)
  case (Cons p m)
  have "v = w \<or> v \<in> snd ` set m" if "v \<in> snd ` set (AList.update k w m)" for v
    using that set_alist_update_subset [of _ _ k w m] by force
  then have "snd p \<notin> snd ` set (AList.update k w m)" using Cons.prems by auto
  then show ?case using Cons by (cases p) auto
qed simp

lemma add_peer_ok:
  assumes a: "agent_ok P a" and ps: "peer_ok P (id_Name (ag_id a)) ps" and name: "\<And>s. ps_sess ps = Some s \<Longrightarrow> PeerName s = n"
  shows "agent_ok P (add_peer n ps a)"
proof (rule agent_okI)
  show "peer_ok P (id_Name (ag_id (add_peer n ps a))) q" if "q \<in> set (ag_peers (add_peer n ps a))" for q
    using that ps a by (auto simp: agent_ok_def)
  let ?ss = "ag_sessions a" and ?L = "length (ag_peers a)"
  have ok: "distinct (map fst ?ss)" "distinct (map snd ?ss)" "\<And>m i. (m, i) \<in> set ?ss \<Longrightarrow> i < ?L"
    "\<And>m i s. (m, i) \<in> set ?ss \<Longrightarrow> ps_sess (ag_peers a ! i) = Some s \<Longrightarrow> PeerName s = m"
    using agent_okD(2) [OF a] unfolding sessions_ok_def by blast+
  have "?L \<notin> snd ` set ?ss" using ok(3) by force
  then have d: "distinct (map snd (AList.update n ?L ?ss))" using ok(2) by (rule distinct_snd_update [rotated])
  have e: "i < Suc ?L \<and> (\<forall>s. ps_sess ((ag_peers a @ [ps]) ! i) = Some s \<longrightarrow> PeerName s = m)" if "(m, i) \<in> set (AList.update n ?L ?ss)" for m i
    using set_alist_update_subset [OF that] ok(3,4) [of m i] name by (auto simp: nth_append)
  show "sessions_ok (ag_sessions (add_peer n ps a)) (ag_peers (add_peer n ps a))"
    unfolding sessions_ok_def using ok(1) d e by auto
  show "tunnels_ok (ag_tunnels (add_peer n ps a)) (ag_peers (add_peer n ps a))"
    using agent_okD(3) [OF a] unfolding tunnels_ok_def by (auto simp: nth_append)
qed

section \<open>The handshake keeps the invariant\<close>

lemma genuine_cong: "PeerIDKey s' = PeerIDKey s \<Longrightarrow> PeerName s' = PeerName s \<Longrightarrow> genuine P me s' = genuine P me s"
  by (simp add: genuine_def)

lemma start_handshake_ok: "agent_ok P a \<Longrightarrow> start_handshake P now rnd na n addr a = (r, a') \<Longrightarrow> agent_ok P a'"
  by (auto simp: start_handshake_def peer_ok_def split: sum.splits intro!: add_peer_ok)

lemma getSession_ok:
  assumes a: "agent_ok P a" and g: "getSession_begin P now rnd na n addr a = (r, a')"
  shows "agent_ok P a'"
proof (cases "map_of (ag_sessions a) n")
  case None
  then show ?thesis using g start_handshake_ok [OF a] by (simp add: getSession_begin_def)
next
  case (Some i)
  note i = sessions_okD(1) [OF agent_okD(2) [OF a] Some]
  note pok = agent_okD(1) [OF a i]
  have up: "agent_ok P (set_peer i ((ag_peers a ! i)\<lparr>ps_addr := Some addr\<rparr>) a)"
  proof (rule set_peer_ok [OF a i])
    show "peer_ok P (id_Name (ag_id a)) ((ag_peers a ! i)\<lparr>ps_addr := Some addr\<rparr>)" using pok by (auto simp: peer_ok_def split: option.splits)
    show "PeerName s = m" if "(m, i) \<in> set (ag_sessions a)" "ps_sess ((ag_peers a ! i)\<lparr>ps_addr := Some addr\<rparr>) = Some s" for m s
      using that agent_okD(2) [OF a] by (auto simp: sessions_ok_def)
  qed simp
  show ?thesis
    using g Some up a start_handshake_ok [OF a] by (auto simp: getSession_begin_def Let_def split: option.splits if_splits)
qed

lemma deadline_ok:
  assumes a: "agent_ok P a" and i: "i < length (ag_peers a)"
  shows "\<exists>a'. hs_deadline i a = Some a' \<and> agent_ok P a'"
proof (cases "ps_sess (ag_peers a ! i) = None \<and> ps_err (ag_peers a ! i) = None")
  case True
  note pok = agent_okD(1) [OF a i]
  let ?ps = "(ag_peers a ! i)\<lparr>ps_err := Some HsNoResp, ps_closed := True, ps_done := False\<rparr>"
  have "ps_done (ag_peers a ! i)" "\<not> ps_closed (ag_peers a ! i)" using pok True by (auto simp: peer_ok_def)
  then have "hs_deadline i a = Some (set_peer i ?ps a)" using True by (simp add: hs_deadline_def Let_def)
  moreover have "agent_ok P (set_peer i ?ps a)"
    using True pok by (intro set_peer_ok [OF a i]) (auto simp: peer_ok_def)
  ultimately show ?thesis by blast
next
  case False
  then have "hs_deadline i a = Some a" unfolding hs_deadline_def Let_def by auto
  then show ?thesis using a by blast
qed

lemma Derive_peer: "Derive P now e pub pn pk na nb ini = Inr s \<Longrightarrow> PeerName s = pn \<and> PeerIDKey s = pk"
  using Derive_keys NewSession_keys by metis

lemma handleHSInit_ok:
  assumes a: "agent_ok P a" and h: "handleHSInit P now rnd nb src m a = (xs, a')"
  shows "agent_ok P a'"
proof (cases "a' = a")
  case False
  obtain ephPub eph sess where d: "VerifyHandshake P (m_PubKey m)
      (HandshakeBytes ''HS_INIT'' (m_Name m) (id_Name (ag_id a)) ephPub (m_Nonce m) [] (m_TS m)) (m_Sig m) = Inr ()"
    "Derive P now eph ephPub (m_Name m) (m_PubKey m) (m_Nonce m) nb False = Inr sess"
    "a' = add_peer (m_Name m) \<lparr>ps_sess = Some sess, ps_eph = eph, ps_addr = Some src, ps_nonceA = [],
       ps_done = False, ps_closed = False, ps_err = None, ps_initiator = False\<rparr> a"
    using h False by (auto simp: handleHSInit_def Let_def split: if_splits sum.splits)
  note p = Derive_peer [OF d(2)]
  have "genuine P (id_Name (ag_id a)) sess" by (rule genuineI [OF _ d(1)]) (use p in simp_all)
  then show ?thesis unfolding d(3) using p by (intro add_peer_ok [OF a]) (simp_all add: peer_ok_def)
qed (use a in simp)

lemma hs_resp_check_genuine:
  assumes "hs_resp_check P now ps m a = Some s"
  shows "genuine P (id_Name (ag_id a)) s \<and> PeerName s = m_Name m"
proof -
  obtain ephPub where d: "VerifyHandshake P (m_PubKey m)
      (HandshakeBytes ''HS_RESP'' (m_Name m) (id_Name (ag_id a)) ephPub (ps_nonceA ps) (m_NonceB m) (m_TS m)) (m_Sig m) = Inr ()"
    "Derive P now (ps_eph ps) ephPub (m_Name m) (m_PubKey m) (ps_nonceA ps) (m_NonceB m) True = Inr s"
    using assms by (auto simp: hs_resp_check_def split: if_splits sum.splits)
  note p = Derive_peer [OF d(2)]
  have "genuine P (id_Name (ag_id a)) s" by (rule genuineI [OF _ d(1)]) (use p in simp_all)
  then show ?thesis using p by simp
qed

lemma handleHSResp_ok:
  assumes a: "agent_ok P a"
  shows "\<exists>a'. handleHSResp P now src m a = Some a' \<and> agent_ok P a'"
proof (cases "map_of (ag_sessions a) (m_Name m)")
  case None
  then show ?thesis using a by (simp add: handleHSResp_def)
next
  case (Some i)
  let ?ps = "ag_peers a ! i"
  note i = sessions_okD(1) [OF agent_okD(2) [OF a] Some]
  note pok = agent_okD(1) [OF a i]
  show ?thesis
  proof (cases "\<not> ps_initiator ?ps \<or> ps_sess ?ps \<noteq> None \<or> hs_resp_check P now ?ps m a = None")
    case True
    then have "handleHSResp P now src m a = Some a" unfolding handleHSResp_def Some Let_def by auto
    then show ?thesis using a by blast
  next
    case False
    then obtain s where s: "hs_resp_check P now ?ps m a = Some s" by auto
    note g = hs_resp_check_genuine [OF s]
    let ?p1 = "?ps\<lparr>ps_sess := Some s, ps_addr := Some src\<rparr>" and ?p2 = "?ps\<lparr>ps_sess := Some s, ps_addr := Some src, ps_closed := True, ps_done := False\<rparr>"
    have name: "t = m_Name m" if "(t, i) \<in> set (ag_sessions a)" for t
    proof -
      have "distinct (map snd (ag_sessions a))" "(m_Name m, i) \<in> set (ag_sessions a)"
        using agent_okD(2) [OF a] map_of_SomeD [OF Some] unfolding sessions_ok_def by blast+
      then show ?thesis using that by (metis distinct_map inj_onD prod.inject snd_conv)
    qed
    have put: "agent_ok P (set_peer i q a)" if "peer_ok P (id_Name (ag_id a)) q" "ps_sess q = Some s" for q
      using that name g by (intro set_peer_ok [OF a i]) auto
    show ?thesis
    proof (cases "ps_done ?ps")
      case True
      then have "\<not> ps_closed ?ps" using pok by (auto simp: peer_ok_def split: option.splits)
      then have "handleHSResp P now src m a = Some (set_peer i ?p2 a)"
        using False s True Some unfolding handleHSResp_def by (simp add: Let_def)
      moreover have "agent_ok P (set_peer i ?p2 a)" using g by (intro put) (simp_all add: peer_ok_def)
      ultimately show ?thesis by blast
    next
      case nd: False
      then have "handleHSResp P now src m a = Some (set_peer i ?p1 a)"
        using False s Some unfolding handleHSResp_def by (simp add: Let_def)
      moreover have "agent_ok P (set_peer i ?p1 a)" using g nd by (intro put) (simp_all add: peer_ok_def)
      ultimately show ?thesis by blast
    qed
  qed
qed

section \<open>Sealed traffic keeps the invariant\<close>

text \<open>What sending leaves as it was: everything but counters.\<close>

definition same_but_counters :: "agent \<Rightarrow> agent \<Rightarrow> bool" where
  "same_but_counters a a' \<longleftrightarrow> ag_id a' = ag_id a \<and> ag_sessions a' = ag_sessions a \<and> ag_tunnels a' = ag_tunnels a \<and>
     ag_waiters a' = ag_waiters a \<and> ag_chans a' = ag_chans a \<and> length (ag_peers a') = length (ag_peers a) \<and>
     (\<forall>j. ps_addr (ag_peers a' ! j) = ps_addr (ag_peers a ! j) \<and> (ps_sess (ag_peers a' ! j) = None \<longleftrightarrow> ps_sess (ag_peers a ! j) = None))"

lemma same_but_counters_refl [simp]: "same_but_counters a a"
  by (simp add: same_but_counters_def)

lemma same_but_counters_trans: "same_but_counters a b \<Longrightarrow> same_but_counters b c \<Longrightarrow> same_but_counters a c"
  unfolding same_but_counters_def by metis

lemma Seal_peer: "Seal P pt s = (f, s') \<Longrightarrow> PeerName s' = PeerName s \<and> PeerIDKey s' = PeerIDKey s"
  by (auto simp: Seal_def Let_def)

lemma Open_peer: "Open P f s = (r, s') \<Longrightarrow> PeerName s' = PeerName s \<and> PeerIDKey s' = PeerIDKey s"
  by (auto simp: Open_def open_finish_def split: sum.splits option.splits)

lemma new_session_ok:
  assumes a: "agent_ok P a" and i: "i < length (ag_peers a)" and s: "ps_sess (ag_peers a ! i) = Some s"
    and s': "PeerName s' = PeerName s" "PeerIDKey s' = PeerIDKey s"
  shows "agent_ok P (set_peer i ((ag_peers a ! i)\<lparr>ps_sess := Some s'\<rparr>) a)"
    "same_but_counters a (set_peer i ((ag_peers a ! i)\<lparr>ps_sess := Some s'\<rparr>) a)"
proof -
  have "genuine P (id_Name (ag_id a)) s' = genuine P (id_Name (ag_id a)) s" using s' by (intro genuine_cong)
  then have p: "peer_ok P (id_Name (ag_id a)) ((ag_peers a ! i)\<lparr>ps_sess := Some s'\<rparr>)"
    using agent_okD(1) [OF a i] s by (simp add: peer_ok_def)
  show "agent_ok P (set_peer i ((ag_peers a ! i)\<lparr>ps_sess := Some s'\<rparr>) a)"
  proof (rule set_peer_ok [OF a i p])
    show "PeerName t = n" if "(n, i) \<in> set (ag_sessions a)" "ps_sess ((ag_peers a ! i)\<lparr>ps_sess := Some s'\<rparr>) = Some t" for n t
      using that agent_okD(2) [OF a] s s'(1) unfolding sessions_ok_def by auto
  qed simp
  show "same_but_counters a (set_peer i ((ag_peers a ! i)\<lparr>ps_sess := Some s'\<rparr>) a)"
    using i s by (simp add: same_but_counters_def set_peer_def nth_list_update)
qed

lemma seal_to_ok:
  assumes "agent_ok P a" "i < length (ag_peers a)" "ps_sess (ag_peers a ! i) \<noteq> None"
  shows "\<exists>x a'. seal_to P i addr pt a = Some (x, a') \<and> agent_ok P a' \<and> same_but_counters a a'"
proof -
  obtain s where s: "ps_sess (ag_peers a ! i) = Some s" using assms(3) by blast
  obtain f s' where f: "Seal P pt s = (f, s')" by fastforce
  show ?thesis using new_session_ok [OF assms(1,2) s] Seal_peer [OF f] s f by (simp add: seal_to_def)
qed

lemma seal_all_ok:
  "agent_ok P a \<Longrightarrow> i < length (ag_peers a) \<Longrightarrow> ps_sess (ag_peers a ! i) \<noteq> None \<Longrightarrow>
   \<exists>xs a'. seal_all P i addr pts a = Some (xs, a') \<and> agent_ok P a' \<and> same_but_counters a a'"
proof (induction pts arbitrary: a)
  case (Cons pt pts)
  obtain x a1 where 1: "seal_to P i addr pt a = Some (x, a1)" "agent_ok P a1" "same_but_counters a a1"
    using seal_to_ok [OF Cons.prems] by blast
  have "i < length (ag_peers a1)" "ps_sess (ag_peers a1 ! i) \<noteq> None" using 1(3) Cons.prems unfolding same_but_counters_def by metis+
  from Cons.IH [OF 1(2) this] show ?case using 1 same_but_counters_trans by fastforce
qed simp

lemma tunnel_send_ok:
  assumes "agent_ok P a" "k < length (tt_objs (ag_tunnels a))"
  shows "\<exists>xs a'. tunnel_send P k fs a = Some (xs, a') \<and> agent_ok P a' \<and> same_but_counters a a'"
proof -
  have "tt_objs (ag_tunnels a) ! k \<in> set (tt_objs (ag_tunnels a))" using assms(2) by simp
  then have "ts_sess (tt_objs (ag_tunnels a) ! k) < length (ag_peers a)" "ps_sess (ag_peers a ! ts_sess (tt_objs (ag_tunnels a) ! k)) \<noteq> None"
    using agent_okD(3) [OF assms(1)] unfolding tunnels_ok_def by blast+
  then show ?thesis unfolding tunnel_send_def Let_def by (rule seal_all_ok [OF assms(1)])
qed

lemma tunnels_ok_update:
  assumes "tunnels_ok tt peers" "k < length (tt_objs tt)" "ts_sess (f (tt_objs tt ! k)) = ts_sess (tt_objs tt ! k)" "snd_win (ts_stream (f (tt_objs tt ! k)))"
  shows "tunnels_ok (tt_update k f tt) peers"
proof -
  let ?ok = "\<lambda>t. ts_sess t < length peers \<and> ps_sess (peers ! ts_sess t) \<noteq> None \<and> snd_win (ts_stream t)"
  have all: "\<forall>t \<in> set (tt_objs tt). ?ok t" using assms(1) unfolding tunnels_ok_def by blast
  then have "?ok (tt_objs tt ! k)" using assms(2) by simp
  then have new: "?ok (f (tt_objs tt ! k))" using assms(3,4) by metis
  have "\<forall>t \<in> set ((tt_objs tt)[k := f (tt_objs tt ! k)]). ?ok t"
  proof
    fix t assume "t \<in> set ((tt_objs tt)[k := f (tt_objs tt ! k)])"
    then have "t = f (tt_objs tt ! k) \<or> t \<in> set (tt_objs tt)" using set_update_subset_insert by fastforce
    then show "?ok t" using all new by blast
  qed
  then show ?thesis using assms(1) unfolding tunnels_ok_def tt_update_def by simp
qed

lemma tunnels_ok_remove: "tunnels_ok tt peers \<Longrightarrow> tunnels_ok (tt_remove i tt) peers"
  by (auto simp: tunnels_ok_def tt_remove_def AList.delete_eq)

lemma tunnels_ok_stream:
  assumes "tunnels_ok tt peers" "k < length (tt_objs tt)"
  shows "snd_win (ts_stream (tt_objs tt ! k))"
  using assms unfolding tunnels_ok_def by simp

lemma tt_get_bound: "tunnels_ok tt peers \<Longrightarrow> tt_get i tt = Some k \<Longrightarrow> k < length (tt_objs tt)"
  unfolding tunnels_ok_def tt_get_def by (blast dest: map_of_SomeD)

lemma length_tt_update [simp]: "length (tt_objs (tt_update k f tt)) = length (tt_objs tt)"
  by (simp add: tt_update_def)

lemma ts_close_ok: "ts_close t = (fs, t') \<Longrightarrow> snd_win (ts_stream t) \<Longrightarrow> snd_win (ts_stream t') \<and> ts_sess t' = ts_sess t \<and> ts_id t' = ts_id t"
  by (auto simp: ts_close_def Let_def split: if_splits prod.splits intro: streams.close_good)

text \<open>A stream of a tunnel takes a step and its frames are sent.\<close>

lemma stream_step_ok:
  assumes a: "agent_ok P a" and k: "k < length (tt_objs (ag_tunnels a))"
    and f: "ts_sess (f (tt_objs (ag_tunnels a) ! k)) = ts_sess (tt_objs (ag_tunnels a) ! k)" "snd_win (ts_stream (f (tt_objs (ag_tunnels a) ! k)))"
  shows "\<exists>xs a'. tunnel_send P k fs (set_tunnels (tt_update k f (ag_tunnels a)) a) = Some (xs, a') \<and> agent_ok P a' \<and>
    same_but_counters (set_tunnels (tt_update k f (ag_tunnels a)) a) a'"
proof -
  have "agent_ok P (set_tunnels (tt_update k f (ag_tunnels a)) a)"
    by (rule agent_ok_set_tunnels [OF a], rule tunnels_ok_update [OF agent_okD(3) [OF a] k, where f = f, OF f])
  from tunnel_send_ok [OF this] k show ?thesis by fastforce
qed

lemma tt_add_ok:
  assumes "tunnels_ok tt peers" "ts_sess t < length peers" "ps_sess (peers ! ts_sess t) \<noteq> None" "snd_win (ts_stream t)"
  shows "tunnels_ok (snd (tt_add t tt)) peers"
  using assms unfolding tunnels_ok_def tt_add_def by (fastforce dest: set_alist_update_subset)

lemma seal_reply_ok:
  assumes "agent_ok P a" "i < length (ag_peers a)" "ps_sess (ag_peers a ! i) \<noteq> None"
  shows "\<exists>d' xs a'. (case seal_to P i addr pt a of None \<Rightarrow> None | Some (x, a1) \<Rightarrow> Some (d, [x], a1)) = Some (d', xs, a') \<and> agent_ok P a'"
proof -
  obtain x a' where "seal_to P i addr pt a = Some (x, a')" "agent_ok P a'" using seal_to_ok [OF assms] by blast
  then show ?thesis by simp
qed

lemma handleTunnelOpen_ok:
  assumes a: "agent_ok P a" and i: "i < length (ag_peers a)" "ps_sess (ag_peers a ! i) \<noteq> None"
  shows "\<exists>d xs a'. handleTunnelOpen P dial p i addr a = Some (d, xs, a') \<and> agent_ok P a'"
proof -
  let ?t = "\<lparr>ts_id = sp_SID p, ts_peer = sp_Name p, ts_stream = New, ts_sess = i, ts_addr = addr, ts_done = False, ts_connClosed = False\<rparr>"
  have add: "agent_ok P (set_tunnels (snd (tt_add ?t (ag_tunnels a))) a)"
    using tt_add_ok [OF agent_okD(3) [OF a], of ?t] i streams.good_fresh by (intro agent_ok_set_tunnels [OF a]) simp
  have later: "\<exists>d' xs a'. (case seal_to P i addr pt (set_tunnels (snd (tt_add ?t (ag_tunnels a))) a) of
      None \<Rightarrow> None | Some (x, a1) \<Rightarrow> Some (d, [x], a1)) = Some (d', xs, a') \<and> agent_ok P a'" for pt d
    using i by (intro seal_reply_ok [OF add]) simp_all
  note now = seal_reply_ok [OF a i]
  show ?thesis
  proof (cases "tunnelAllowed (sp_Port p) a")
    case (Some r)
    then show ?thesis by (simp add: handleTunnelOpen_def Let_def now)
  next
    case None
    show ?thesis
    proof (cases "dial (sp_Port p)")
      case (Inl e)
      then show ?thesis using None by (simp add: handleTunnelOpen_def Let_def now)
    next
      case (Inr u)
      then show ?thesis using None by (cases "sp_Probe p") (simp_all add: handleTunnelOpen_def Let_def now later case_prod_beta)
    qed
  qed
qed

lemma close_tunnel_ok:
  assumes a: "agent_ok P a"
  shows "\<exists>xs a'. close_tunnel P sid a = Some (xs, a') \<and> agent_ok P a'"
proof (cases "tt_get sid (ag_tunnels a)")
  case None
  then show ?thesis using a by (simp add: close_tunnel_def)
next
  case (Some k)
  note k = tt_get_bound [OF agent_okD(3) [OF a] Some]
  obtain fs t where c: "ts_close (tt_objs (ag_tunnels a) ! k) = (fs, t)" by fastforce
  note t = ts_close_ok [OF c tunnels_ok_stream [OF agent_okD(3) [OF a] k]]
  obtain xs a1 where s: "tunnel_send P k fs (set_tunnels (tt_update k (\<lambda>_. t) (ag_tunnels a)) a) = Some (xs, a1)" "agent_ok P a1"
    using stream_step_ok [OF a k, of "\<lambda>_. t" fs] t by blast
  have "agent_ok P (set_tunnels (tt_remove sid (ag_tunnels a1)) a1)"
    using tunnels_ok_remove [OF agent_okD(3) [OF s(2)]] by (rule agent_ok_set_tunnels [OF s(2)])
  then show ?thesis using Some c s(1) by (simp add: close_tunnel_def)
qed

lemma on_frame_ok:
  assumes a: "agent_ok P a" and k: "k < length (tt_objs (ag_tunnels a))"
  obtains s fs xs a' where "OnFrame now b (ts_stream (tt_objs (ag_tunnels a) ! k)) = Some (s, fs)"
    "tunnel_send P k fs (set_tunnels (tt_update k (\<lambda>t. t\<lparr>ts_stream := s\<rparr>) (ag_tunnels a)) a) = Some (xs, a')" "agent_ok P a'"
proof -
  obtain s fs where s: "OnFrame now b (ts_stream (tt_objs (ag_tunnels a) ! k)) = Some (s, fs)" "snd_win s"
    using streams.receive_good tunnels_ok_stream [OF agent_okD(3) [OF a] k] by blast
  then show ?thesis using that stream_step_ok [OF a k, of "\<lambda>t. t\<lparr>ts_stream := s\<rparr>" fs] by auto
qed

lemma handle_payload_ok:
  assumes a: "agent_ok P a" and i: "i < length (ag_peers a)" "ps_sess (ag_peers a ! i) \<noteq> None"
  shows "\<exists>d xs a'. handle_payload P now dial src i pt a = Some (d, xs, a') \<and> agent_ok P a'"
proof (cases "decodeStreamPayload pt")
  case (Some q)
  obtain sid sf where q: "q = (sid, sf)" by fastforce
  show ?thesis
  proof (cases "tt_get sid (ag_tunnels a)")
    case None
    then show ?thesis using Some q a by (simp add: handle_payload_def)
  next
    case k: (Some k)
    note kl = tt_get_bound [OF agent_okD(3) [OF a] k]
    obtain s fs xs a' where "OnFrame now sf (ts_stream (tt_objs (ag_tunnels a) ! k)) = Some (s, fs)"
      "tunnel_send P k fs (set_tunnels (tt_update k (\<lambda>t. t\<lparr>ts_stream := s\<rparr>) (ag_tunnels a)) a) = Some (xs, a')" "agent_ok P a'"
      using on_frame_ok [OF a kl] .
    then show ?thesis using Some q k by (simp add: handle_payload_def)
  qed
next
  case None
  show ?thesis
  proof (cases "payload_unmarshal pt")
    case n: None
    then show ?thesis using None a by (simp add: handle_payload_def)
  next
    case (Some p)
    have close: "\<exists>xs a'. close_tunnel P (sp_SID p) (deliver m a) = Some (xs, a') \<and> agent_ok P a'" for m
      using close_tunnel_ok [of P "deliver m a"] a by simp
    note pong = seal_reply_ok [OF a i] and opn = handleTunnelOpen_ok [OF a i, of dial p src]
    consider "sp_Kind p = ''PING''" | "sp_Kind p = ''OPEN''" | "sp_Kind p = ''OPENERR''"
      | "sp_Kind p \<noteq> ''PING''" "sp_Kind p \<noteq> ''OPEN''" "sp_Kind p \<noteq> ''OPENERR''" by blast
    then show ?thesis
    proof cases
      case 1
      then show ?thesis using None Some by (simp add: handle_payload_def pong)
    next
      case 2
      then show ?thesis using None Some opn by (simp add: handle_payload_def)
    next
      case 3
      obtain xs a' where "close_tunnel P (sp_SID p) (deliver (Message0\<lparr>m_Kind := KindError, m_Nonce := tunnelWaitKey (sp_SID p), m_Info := sp_Info p\<rparr>) a) =
        Some (xs, a')" "agent_ok P a'" using close by blast
      then show ?thesis using None Some 3 by (simp add: handle_payload_def)
    next
      case 4
      then show ?thesis using None Some a by (simp add: handle_payload_def)
    qed
  qed
qed

lemma find_session_Some:
  "find_session src peers ss = Some i \<Longrightarrow> \<exists>n. (n, i) \<in> set ss \<and> ps_sess (peers ! i) \<noteq> None \<and> ps_addr (peers ! i) = Some src"
  by (induction src peers ss rule: find_session.induct) (auto split: if_splits)

lemma handleSealed_ok:
  assumes a: "agent_ok P a"
  shows "\<exists>d xs a'. handleSealed P now dial src f a = Some (d, xs, a') \<and> agent_ok P a'"
proof (cases "find_session src (ag_peers a) (ag_sessions a)")
  case None
  then show ?thesis using a by (simp add: handleSealed_def)
next
  case (Some i)
  obtain n where n: "(n, i) \<in> set (ag_sessions a)" "ps_sess (ag_peers a ! i) \<noteq> None" using find_session_Some [OF Some] by blast
  have i: "i < length (ag_peers a)" using agent_okD(2) [OF a] n(1) unfolding sessions_ok_def by blast
  obtain s where s: "ps_sess (ag_peers a ! i) = Some s" using n(2) by blast
  obtain r s' where o: "Open P f s = (r, s')" by fastforce
  let ?a = "set_peer i ((ag_peers a ! i)\<lparr>ps_sess := Some s'\<rparr>) a"
  have a1: "agent_ok P ?a" using new_session_ok(1) [OF a i s] Open_peer [OF o] by blast
  show ?thesis
  proof (cases r)
    case (Inl e)
    then show ?thesis using Some s o a1 by (simp add: handleSealed_def)
  next
    case (Inr pt)
    have "i < length (ag_peers ?a)" "ps_sess (ag_peers ?a ! i) \<noteq> None" using i by simp_all
    from handle_payload_ok [OF a1 this] show ?thesis using Some s o Inr by (simp add: handleSealed_def)
  qed
qed

lemma agent_receive_ok:
  assumes a: "agent_ok P a"
  shows "\<exists>d xs a'. agent_receive P E src b a = Some (d, xs, a') \<and> agent_ok P a'"
proof (cases "IsSealed b")
  case True
  then show ?thesis using handleSealed_ok [OF a] by (simp add: agent_receive_def)
next
  case False
  show ?thesis
  proof (cases "Decode b")
    case None
    then show ?thesis using False a by (simp add: agent_receive_def)
  next
    case (Some m)
    obtain xs a1 where i: "handleHSInit P (ae_now E) (ae_rnd E) (ae_nonce E) src m a = (xs, a1)" by fastforce
    note i_ok = handleHSInit_ok [OF a i]
    obtain a2 where r: "handleHSResp P (ae_now E) src m a = Some a2" "agent_ok P a2" using handleHSResp_ok [OF a] by blast
    have "\<exists>d xs a'. handle_message P E src m a = Some (d, xs, a') \<and> agent_ok P a'"
      using i i_ok r a by (auto simp: handle_message_def split: option.splits)
    then show ?thesis using False Some by (simp add: agent_receive_def)
  qed
qed

section \<open>Operations keep the invariant\<close>

lemma wait_frame [simp]:
  "agent_ok P (snd (wait k a)) = agent_ok P a" "ag_peers (snd (wait k a)) = ag_peers a"
  by (simp_all add: wait_def agent_ok_def)

lemma send_in_session_ok:
  assumes "agent_ok P a" "i < length (ag_peers a)" "send_in_session P n i pt a = Some (xs, a')"
  shows "agent_ok P a'"
proof -
  obtain x addr where "seal_to P i addr pt a = Some (x, a')" using assms(3) by (auto simp: send_in_session_def split: option.splits)
  moreover from this have "ps_sess (ag_peers a ! i) \<noteq> None" by (auto simp: seal_to_def split: option.splits)
  ultimately show ?thesis using seal_to_ok [OF assms(1,2), of addr pt] by simp
qed

lemma ping_begin_ok:
  assumes "agent_ok P a" "i < length (ag_peers a)" "ping_begin P now nonce n i key a = Some (r, a')"
  shows "agent_ok P a'"
proof (cases "check_peer i key a")
  case (KeyOk s)
  define pt where "pt = payload_marshal (sealedPayload0\<lparr>sp_Kind := ''PING'', sp_Name := id_Name (ag_id a), sp_Nonce := nonce, sp_TS := to_millis now\<rparr>)"
  obtain ch b where w: "wait nonce a = (ch, b)" by fastforce
  have "ping_begin P now nonce n i key a = (case send_in_session P n i pt b of None \<Rightarrow> None | Some (xs, a2) \<Rightarrow> Some (PingWaiting ch xs, a2))"
    unfolding ping_begin_def KeyOk key_check.case Let_def w prod.case pt_def ..
  then obtain xs where "send_in_session P n i pt (snd (wait nonce a)) = Some (xs, a')"
    using assms(3) w by (cases "send_in_session P n i pt b") auto
  from send_in_session_ok [OF _ _ this] show ?thesis using assms(1,2) by simp
qed (use assms in \<open>simp_all add: ping_begin_def\<close>)

lemma allocID_ok: "tunnels_ok (snd (allocID tt)) peers = tunnels_ok tt peers"
  by (simp add: allocID_def tunnels_ok_def)

lemma probe_begin_ok:
  assumes "agent_ok P a" "i < length (ag_peers a)" "probe_begin P n i key port a = Some (r, a')"
  shows "agent_ok P a'"
proof (cases "check_peer i key a")
  case (KeyOk s)
  let ?b = "set_tunnels (snd (allocID (ag_tunnels a))) a"
  obtain sid tt where al: "allocID (ag_tunnels a) = (sid, tt)" by fastforce
  define pt where "pt = payload_marshal (sealedPayload0\<lparr>sp_Kind := ''OPEN'', sp_Name := id_Name (ag_id a), sp_SID := sid, sp_Port := port, sp_Probe := True\<rparr>)"
  obtain ch b where w: "wait (tunnelWaitKey sid) (set_tunnels tt a) = (ch, b)" by fastforce
  have "probe_begin P n i key port a = (case send_in_session P n i pt b of None \<Rightarrow> None | Some (xs, a2) \<Rightarrow> Some (TunnelWaiting sid ch xs, a2))"
    unfolding probe_begin_def KeyOk key_check.case Let_def al w prod.case pt_def ..
  then obtain xs where "send_in_session P n i pt (snd (wait (tunnelWaitKey sid) ?b)) = Some (xs, a')"
    using assms(3) w al by (cases "send_in_session P n i pt b") auto
  from send_in_session_ok [OF _ _ this]
  have "agent_ok P ?b \<Longrightarrow> agent_ok P a'" using assms(2) by simp
  moreover have "agent_ok P ?b" using agent_okD(3) [OF assms(1)] by (intro agent_ok_set_tunnels [OF assms(1)]) (simp add: allocID_ok)
  ultimately show ?thesis by blast
qed (use assms in \<open>simp_all add: probe_begin_def\<close>)

lemma open_tunnel_ok:
  assumes "agent_ok P a" "i < length (ag_peers a)" "open_tunnel P n i key port a = Some (r, xs, a')"
  shows "agent_ok P a'"
proof (cases "check_peer i key a")
  case (KeyOk s)
  have live: "ps_sess (ag_peers a ! i) \<noteq> None" using KeyOk by (auto simp: check_peer_def split: option.splits)
  obtain t tt pt x where t: "ts_sess t = i" "ts_stream t = New" "tt = snd (allocID (ag_tunnels a))"
    "seal_to P i (ts_addr t) pt (set_tunnels (snd (tt_add t tt)) a) = Some (x, a')"
  proof -
    obtain j where j: "map_of (ag_sessions a) n = Some j"
      using assms(3) KeyOk by (cases "map_of (ag_sessions a) n") (auto simp: open_tunnel_def Let_def split: prod.splits)
    let ?addr = "case ps_addr (ag_peers a ! j) of None \<Rightarrow> [] | Some x \<Rightarrow> x"
    let ?t = "\<lparr>ts_id = fst (allocID (ag_tunnels a)), ts_peer = n, ts_stream = New, ts_sess = i, ts_addr = ?addr, ts_done = False, ts_connClosed = False\<rparr>"
    show ?thesis
    proof (rule that [of ?t "snd (allocID (ag_tunnels a))"])
      show "seal_to P i (ts_addr ?t) (payload_marshal (sealedPayload0\<lparr>sp_Kind := ''OPEN'', sp_Name := id_Name (ag_id a),
          sp_SID := fst (allocID (ag_tunnels a)), sp_Port := port\<rparr>)) (set_tunnels (snd (tt_add ?t (snd (allocID (ag_tunnels a))))) a) = Some (hd xs, a')"
        using assms(3) KeyOk j by (auto simp: open_tunnel_def Let_def case_prod_beta split: option.splits)
    qed simp_all
  qed
  have "tunnels_ok (snd (tt_add t tt)) (ag_peers a)"
    using agent_okD(3) [OF assms(1)] t(1-3) assms(2) live streams.good_fresh by (intro tt_add_ok) (simp_all add: allocID_ok)
  then have "agent_ok P (set_tunnels (snd (tt_add t tt)) a)" by (rule agent_ok_set_tunnels [OF assms(1)])
  from seal_to_ok [OF this, of i "ts_addr t" pt] show ?thesis using assms(2) live t(4) by simp
qed (use assms in \<open>simp_all add: open_tunnel_def\<close>)

lemma on_stream_ok:
  assumes "agent_ok P a" "k < length (tt_objs (ag_tunnels a))" "snd_win s" "on_stream P k s fs a = Some (xs, a')"
  shows "agent_ok P a'"
  using stream_step_ok [OF assms(1,2), of "\<lambda>t. t\<lparr>ts_stream := s\<rparr>" fs] assms(3,4) by (simp add: on_stream_def)

lemma pipe_write_ok:
  assumes a: "agent_ok P a" and k: "k < length (tt_objs (ag_tunnels a))" and w: "pipe_write P clk k p a = (r, Some (xs, a'))"
  shows "agent_ok P a'"
proof -
  obtain o1 fs s where wr: "Write clk p 0 (ts_stream (tt_objs (ag_tunnels a) ! k)) = (o1, fs, s)" by (metis prod_cases3)
  have "snd_win s" using streams.put_good [OF tunnels_ok_stream [OF agent_okD(3) [OF a] k] wr] .
  moreover have "on_stream P k s fs a = Some (xs, a')" using w unfolding pipe_write_def wr by simp
  ultimately show ?thesis by (rule on_stream_ok [OF a k])
qed

lemma pipe_read_ok:
  assumes a: "agent_ok P a" and k: "k < length (tt_objs (ag_tunnels a))" and w: "pipe_read P k n a = (r, Some (xs, a'))"
  shows "agent_ok P a'"
proof -
  obtain o1 fs s where rd: "Read n (ts_stream (tt_objs (ag_tunnels a) ! k)) = (o1, fs, s)" by (metis prod_cases3)
  have "snd_win s" using streams.fetch_good [OF tunnels_ok_stream [OF agent_okD(3) [OF a] k] rd] .
  moreover have "on_stream P k s fs a = Some (xs, a')" using w unfolding pipe_read_def rd by simp
  ultimately show ?thesis by (rule on_stream_ok [OF a k])
qed

lemma pipe_tcp_done_ok:
  assumes a: "agent_ok P a" and k: "k < length (tt_objs (ag_tunnels a))" and w: "pipe_tcp_done P k a = Some (xs, a')"
  shows "agent_ok P a'"
proof -
  obtain fs s where c: "Close (ts_stream (tt_objs (ag_tunnels a) ! k)) = (fs, s)" by fastforce
  have "snd_win s" using streams.close_good [OF tunnels_ok_stream [OF agent_okD(3) [OF a] k] c] .
  moreover have "on_stream P k s fs a = Some (xs, a')" using w unfolding pipe_tcp_done_def c by simp
  ultimately show ?thesis by (rule on_stream_ok [OF a k])
qed

lemma pipe_exit_ok:
  assumes a: "agent_ok P a" and k: "k < length (tt_objs (ag_tunnels a))"
  shows "\<exists>xs a'. pipe_exit P k a = Some (xs, a') \<and> agent_ok P a'"
proof -
  obtain fs t where c: "ts_close (tt_objs (ag_tunnels a) ! k) = (fs, t)" by fastforce
  note t = ts_close_ok [OF c tunnels_ok_stream [OF agent_okD(3) [OF a] k]]
  obtain xs a1 where s: "tunnel_send P k fs (set_tunnels (tt_update k (\<lambda>_. t) (ag_tunnels a)) a) = Some (xs, a1)" "agent_ok P a1"
    using stream_step_ok [OF a k, of "\<lambda>_. t" fs] t by blast
  have "agent_ok P (set_tunnels (tt_remove (ts_id t) (ag_tunnels a1)) a1)"
    using tunnels_ok_remove [OF agent_okD(3) [OF s(2)]] by (rule agent_ok_set_tunnels [OF s(2)])
  then show ?thesis using c s(1) by (simp add: pipe_exit_def)
qed

lemma tick_one_ok:
  assumes "tunnels_ok tt peers" "k < length (tt_objs tt)" "tick_one now k tt = (fs, tt')"
  shows "tunnels_ok tt' peers \<and> length (tt_objs tt') = length (tt_objs tt) \<and> (\<forall>p \<in> set fs. fst p = k)"
proof -
  let ?t = "tt_objs tt ! k"
  obtain alive gs s where tk: "Tick now (ts_stream ?t) = (alive, gs, s)" by (metis prod_cases3)
  have s: "snd_win s" using streams.tick_good [OF tunnels_ok_stream [OF assms(1,2)] tk] .
  obtain hs t2 where c: "ts_close (?t\<lparr>ts_stream := s\<rparr>) = (hs, t2)" by fastforce
  have t2: "snd_win (ts_stream t2)" "ts_sess t2 = ts_sess ?t" using ts_close_ok [OF c] s by auto
  have u: "tunnels_ok (tt_update k (\<lambda>_. ?t\<lparr>ts_stream := s\<rparr>) tt) peers" "tunnels_ok (tt_update k (\<lambda>_. t2) tt) peers"
    using s t2 by (auto intro!: tunnels_ok_update [OF assms(1,2)])
  then have "tunnels_ok (tt_remove (ts_id ?t) (tt_update k (\<lambda>_. t2) tt)) peers" by (intro tunnels_ok_remove)
  then show ?thesis using assms(3) tk c u(1) by (auto simp: tick_one_def Let_def tt_remove_def split: if_splits)
qed

lemma tick_list_ok:
  "tunnels_ok tt peers \<Longrightarrow> \<forall>k \<in> set ks. k < length (tt_objs tt) \<Longrightarrow> tick_list now ks tt = (fs, tt') \<Longrightarrow>
   tunnels_ok tt' peers \<and> length (tt_objs tt') = length (tt_objs tt) \<and> (\<forall>p \<in> set fs. fst p < length (tt_objs tt))"
proof (induction ks arbitrary: tt fs)
  case (Cons k ks)
  obtain gs tt1 where o: "tick_one now k tt = (gs, tt1)" by fastforce
  obtain hs where l: "tick_list now ks tt1 = (hs, tt')" "fs = gs @ hs" using Cons.prems(3) o by (auto split: prod.splits)
  have k: "k < length (tt_objs tt)" using Cons.prems(2) by simp
  note 1 = tick_one_ok [OF Cons.prems(1) k o]
  have "tunnels_ok tt' peers \<and> length (tt_objs tt') = length (tt_objs tt1) \<and> (\<forall>p \<in> set hs. fst p < length (tt_objs tt1))"
    using 1 Cons.prems(2) by (intro Cons.IH [OF _ _ l(1)]) simp_all
  then show ?case using 1 k l(2) by auto
qed simp

lemma send_ticks_ok:
  "agent_ok P a \<Longrightarrow> \<forall>p \<in> set fs. fst p < length (tt_objs (ag_tunnels a)) \<Longrightarrow> \<exists>xs a'. send_ticks P fs a = Some (xs, a') \<and> agent_ok P a'"
proof (induction P fs a rule: send_ticks.induct)
  case (2 P k f fs a)
  obtain xs a1 where 1: "tunnel_send P k [f] a = Some (xs, a1)" "agent_ok P a1" "same_but_counters a a1"
    using tunnel_send_ok [of P a k "[f]"] "2.prems" by auto
  have "\<forall>p \<in> set fs. fst p < length (tt_objs (ag_tunnels a1))" using 1(3) "2.prems"(2) by (simp add: same_but_counters_def)
  from "2.IH" [OF 1(1) refl 1(2) this] show ?case using 1(1) by auto
qed simp

lemma tick_round_ok:
  assumes a: "agent_ok P a"
  shows "\<exists>xs a'. tick_round P now a = Some (xs, a') \<and> agent_ok P a'"
proof -
  obtain fs tt where t: "tickAll now (ag_tunnels a) = (fs, tt)" by fastforce
  have "\<forall>k \<in> set (map snd (tt_streams (ag_tunnels a))). k < length (tt_objs (ag_tunnels a))"
    using agent_okD(3) [OF a] by (auto simp: tunnels_ok_def)
  note l = tick_list_ok [OF agent_okD(3) [OF a] this t [unfolded tickAll_def]]
  have "agent_ok P (set_tunnels tt a)" using l by (intro agent_ok_set_tunnels [OF a]) simp
  from send_ticks_ok [OF this, of fs] show ?thesis using l t by (simp add: tick_round_def)
qed

section \<open>The state machine\<close>

text \<open>Every step of every goroutine of the agent; the objects a step refers to are those it was handed.\<close>

inductive agent_step :: "prims \<Rightarrow> agent \<Rightarrow> agent \<Rightarrow> bool" for P :: prims where
  receive: "agent_receive P E src b a = Some (d, xs, a') \<Longrightarrow> agent_step P a a'"
| get_session: "getSession_begin P now rnd na n addr a = (r, a') \<Longrightarrow> agent_step P a a'"
| deadline: "i < length (ag_peers a) \<Longrightarrow> hs_deadline i a = Some a' \<Longrightarrow> agent_step P a a'"
| rekey: "agent_step P a (rekey_round now a)"
| await: "agent_step P a (snd (wait k a))"
| take_answer: "agent_step P a (a\<lparr>ag_chans := (ag_chans a)[c := tl (ag_chans a ! c)]\<rparr>)"
| unawait: "agent_step P a (unwait k a)"
| ping: "i < length (ag_peers a) \<Longrightarrow> ping_begin P now nonce n i key a = Some (pr, a') \<Longrightarrow> agent_step P a a'"
| ping_again: "i < length (ag_peers a) \<Longrightarrow> ping_resend P ts nonce i addr a = Some (x, a') \<Longrightarrow> agent_step P a a'"
| probe: "i < length (ag_peers a) \<Longrightarrow> probe_begin P n i key port a = Some (tr, a') \<Longrightarrow> agent_step P a a'"
| new_tunnel: "i < length (ag_peers a) \<Longrightarrow> open_tunnel P n i key port a = Some (k', xs, a') \<Longrightarrow> agent_step P a a'"
| tcp_data: "k < length (tt_objs (ag_tunnels a)) \<Longrightarrow> pipe_write P clk k p a = (w, Some (xs, a')) \<Longrightarrow> agent_step P a a'"
| tcp_room: "k < length (tt_objs (ag_tunnels a)) \<Longrightarrow> pipe_read P k sz a = (rd, Some (xs, a')) \<Longrightarrow> agent_step P a a'"
| tcp_eof: "k < length (tt_objs (ag_tunnels a)) \<Longrightarrow> pipe_tcp_done P k a = Some (xs, a') \<Longrightarrow> agent_step P a a'"
| pipe_end: "k < length (tt_objs (ag_tunnels a)) \<Longrightarrow> pipe_exit P k a = Some (xs, a') \<Longrightarrow> agent_step P a a'"
| tick: "tick_round P now a = Some (xs, a') \<Longrightarrow> agent_step P a a'"

lemma agent_step_ok: "agent_step P a a' \<Longrightarrow> agent_ok P a \<Longrightarrow> agent_ok P a'"
proof (induction rule: agent_step.induct)
  case (receive E src b a d xs a')
  then show ?case using agent_receive_ok [of P a E src b] by simp
next
  case (deadline i a a')
  then show ?case using deadline_ok [of P a i] by simp
next
  case (ping_again i a ts nonce addr x a')
  then have "ps_sess (ag_peers a ! i) \<noteq> None" by (auto simp: ping_resend_def seal_to_def split: option.splits)
  note ok = seal_to_ok [OF ping_again.prems ping_again.hyps(1) this]
  obtain pt where "seal_to P i addr pt a = Some (x, a')" using ping_again.hyps(2) unfolding ping_resend_def by blast
  then show ?case using ok [of addr pt] by simp
next
  case (pipe_end k a xs a')
  then show ?case using pipe_exit_ok [of P a k] by simp
next
  case (tick now a xs a')
  then show ?case using tick_round_ok [of P a now] by simp
qed (auto simp: unwait_def intro: getSession_ok rekey_ok ping_begin_ok probe_begin_ok open_tunnel_ok pipe_write_ok pipe_read_ok pipe_tcp_done_ok)

interpretation agents: invariant_system "agent_step P" "agent_ok P" for P
  by unfold_locales (rule agent_step_ok)

definition agent_reachable :: "prims \<Rightarrow> agent \<Rightarrow> bool" where
  "agent_reachable P a \<longleftrightarrow> (\<exists>i priv reg ports key. (agent_step P)\<^sup>*\<^sup>* (newAgent i priv reg ports key) a)"

lemma reachable_ok: "agent_reachable P a \<Longrightarrow> agent_ok P a"
  unfolding agent_reachable_def using agents.run_inv newAgent_ok by blast

end
