(* ===== verification/Agent_Props.thy ===== *)
theory Agent_Props
  imports Agent_Inv Registry_Props
begin

text \<open>
  What the agent guarantees: no datagram makes it panic, sessions are authenticated, a handshake whose
  messages arrive gives both sides sessions that agree. And two behaviours of the code that its comments
  do not intend: handshakes that cross both fail, and a ping can crash on a session that is being rekeyed.
\<close>

section \<open>Totality\<close>

lemma getSession_end_safe: "agent_ok P a \<Longrightarrow> i < length (ag_peers a) \<Longrightarrow> getSession_end i a \<noteq> GsNilSession"
  using agent_okD(1) [of P a i] by (auto simp: getSession_end_def Let_def peer_ok_def split: option.splits)


definition ex_id :: identity where
  "ex_id = \<lparr>id_Name = ''a'', id_Registry = ''r'', id_PubB64 = ex_pub 1, id_PrivB64 = ''''\<rparr>"

definition ex_agent :: agent where
  "ex_agent = newAgent ex_id (ex_key 1) ''9.9.9.9:9'' [22] (ex_pub 9)"

definition ex_aenv :: agent_env where
  "ex_aenv = \<lparr>ae_now = 0, ae_rnd = [3], ae_nonce = ''m'', ae_udp = Some, ae_dial = (\<lambda>p. Inr ())\<rparr>"

lemma ex_agent_reachable: "agent_reachable P ex_agent"
  unfolding agent_reachable_def ex_agent_def by blast


section \<open>Authenticated sessions\<close>

lemma check_peer_genuine:
  assumes "agent_ok P a" "i < length (ag_peers a)" "check_peer i key a = KeyOk s"
  shows "genuine P (id_Name (ag_id a)) s \<and> PeerIDKey s = key"
proof -
  have "ps_sess (ag_peers a ! i) = Some s" "PeerIDKey s = key" using assms(3) by (auto simp: check_peer_def split: option.splits if_splits)
  then show ?thesis using agent_okD(1) [OF assms(1,2)] by (simp add: peer_ok_def)
qed

text \<open>C10. Session trust: whatever sequence of datagrams and operations led to a state, a session that
  passes the key check of the ping and of the tunnels is backed by a handshake string that verifies under
  exactly that key and names this node as the peer; and the session found under a name in the map
  belongs to a peer that signed with that name.\<close>

theorem sessions_authentic:
  assumes "agent_reachable P a" "i < length (ag_peers a)" "check_peer i key a = KeyOk s"
  shows "(\<exists>tag eph na nb ts sig. tag \<in> {''HS_INIT'', ''HS_RESP''} \<and>
      VerifyHandshake P key (HandshakeBytes tag (PeerName s) (id_Name (ag_id a)) eph na nb ts) sig = Inr ()) \<and>
    (\<forall>n. map_of (ag_sessions a) n = Some i \<longrightarrow> PeerName s = n)"
proof -
  have a: "agent_ok P a" using assms(1) by (rule reachable_ok)
  note g = check_peer_genuine [OF a assms(2,3)]
  have "ps_sess (ag_peers a ! i) = Some s" using assms(3) by (auto simp: check_peer_def split: option.splits if_splits)
  then have "map_of (ag_sessions a) n = Some i \<Longrightarrow> PeerName s = n" for n using sessions_okD(2) [OF agent_okD(2) [OF a]] by blast
  then show ?thesis using g by (auto simp: genuine_def)
qed

section \<open>The handshake\<close>

text \<open>What the documentation of X25519 and HKDF promises of the lengths.\<close>

definition kdf_ok :: "prims \<Rightarrow> bool" where
  "kdf_ok P \<longleftrightarrow> (\<forall>k p s. x25519 P k p = Some s \<longrightarrow> length s = 32) \<and> (\<forall>s n i. length (hkdf32 P s n i) = 32)"

lemma VerifyHandshake_Sign: "ed_pair P priv pub \<Longrightarrow> VerifyHandshake P (EncodeToString pub) m (SignHandshake P priv m) = Inr ()"
  by (simp add: VerifyHandshake_def SignHandshake_def ed_pair_def)

lemma NewEphemeral_Pub:
  assumes "kdf_ok P" "NewEphemeral P r = Inr e"
  shows "DecodeEphPub (EncodeEphPub (eph_Pub e)) = Inr (eph_Pub e)" "eph_priv e = r" "x25519 P r (x_base P) = Some (eph_Pub e)"
  using assms by (auto simp: NewEphemeral_def kdf_ok_def DecodeEphPub_def EncodeEphPub_def split: option.splits)

lemma Derive_total:
  assumes "kdf_ok P" "x25519 P (eph_priv e) pub = Some sh"
  obtains s where "Derive P t e pub n k na nb ini = Inr s" "PeerName s = n" "PeerIDKey s = k"
  using assms by (cases ini) (auto simp: Derive_def eph_shared_def NewSession_def Let_def kdf_ok_def deriveKey_def AEADKeySize_def)

lemma started_cases:
  assumes "getSession_begin P t r na n addr a = (GsStarted i msg, a1)"
  obtains e where "NewEphemeral P r = Inr e" "i = length (ag_peers a)" "msg = hs_init P t e na n a"
    "a1 = add_peer n \<lparr>ps_sess = None, ps_eph = e, ps_addr = Some addr, ps_nonceA = na, ps_done = True, ps_closed = False,
      ps_err = None, ps_initiator = True\<rparr> a"
proof -
  have "start_handshake P t r na n addr a = (GsStarted i msg, a1)"
    using assms by (auto simp: getSession_begin_def Let_def split: option.splits if_splits)
  then show ?thesis by (auto simp: start_handshake_def split: sum.splits intro: that)
qed

lemma started_frame:
  assumes "getSession_begin P t r na n addr a = (GsStarted i msg, a1)"
  shows "m_Name msg = id_Name (ag_id a)" "ag_id a1 = ag_id a" "length (ag_peers a1) = Suc i"
proof -
  obtain e where "i = length (ag_peers a)" "msg = hs_init P t e na n a"
    "a1 = add_peer n \<lparr>ps_sess = None, ps_eph = e, ps_addr = Some addr, ps_nonceA = na, ps_done = True, ps_closed = False,
      ps_err = None, ps_initiator = True\<rparr> a"
    using started_cases [OF assms] by blast
  then show "m_Name msg = id_Name (ag_id a)" "ag_id a1 = ag_id a" "length (ag_peers a1) = Suc i" by (simp_all add: hs_init_def Let_def)
qed

text \<open>The answer to a good \<^verbatim>\<open>HS_INIT\<close>, and the session it leaves.\<close>

definition hs_answer :: "prims \<Rightarrow> time \<Rightarrow> ephemeral \<Rightarrow> string \<Rightarrow> string \<Rightarrow> string \<Rightarrow> agent \<Rightarrow> message" where
  "hs_answer P t eph na nb peer b =
     Message0\<lparr>m_Kind := KindHSResp, m_Name := id_Name (ag_id b), m_Target := peer,
       m_PubKey := id_PubB64 (ag_id b), m_EphPub := EncodeEphPub (eph_Pub eph), m_Nonce := na, m_NonceB := nb, m_TS := to_millis t,
       m_Sig := SignHandshake P (ag_priv b) (HandshakeBytes ''HS_RESP'' (id_Name (ag_id b)) peer (eph_Pub eph) na nb (to_millis t))\<rparr>"

abbreviation responder :: "session \<Rightarrow> ephemeral \<Rightarrow> string \<Rightarrow> peerSession" where
  "responder s e src \<equiv> \<lparr>ps_sess = Some s, ps_eph = e, ps_addr = Some src, ps_nonceA = '''', ps_done = False, ps_closed = False,
     ps_err = None, ps_initiator = False\<rparr>"

lemma handleHSInit_good:
  assumes P: "kdf_ok P" and ka: "ed_pair P (ag_priv a) pa" "id_PubB64 (ag_id a) = EncodeToString pa"
    and e: "NewEphemeral P ra = Inr ea" "NewEphemeral P rb = Inr eb" "x25519 P rb (eph_Pub ea) = Some sh" and f: "FreshTS t2 (to_millis t1)"
  obtains sb where "Derive P t2 eb (eph_Pub ea) (id_Name (ag_id a)) (id_PubB64 (ag_id a)) na nb False = Inr sb"
    "handleHSInit P t2 rb nb src (hs_init P t1 ea na (id_Name (ag_id b)) a) b =
      ([Msg src (hs_answer P t2 eb na nb (id_Name (ag_id a)) b)], add_peer (id_Name (ag_id a)) (responder sb eb src) b)"
proof -
  obtain sb where sb: "Derive P t2 eb (eph_Pub ea) (id_Name (ag_id a)) (id_PubB64 (ag_id a)) na nb False = Inr sb"
    using Derive_total [OF P, of eb "eph_Pub ea" sh] NewEphemeral_Pub(2) [OF P e(2)] e(3) by metis
  show ?thesis
    using that [OF sb] sb NewEphemeral_Pub(1) [OF P e(1)] VerifyHandshake_Sign [OF ka(1)] ka(2) e(2) f
    by (simp add: handleHSInit_def hs_init_def Let_def hs_answer_def)
qed

lemma add_peer_get [simp]:
  "map_of (ag_sessions (add_peer n ps a)) m = (if m = n then Some (length (ag_peers a)) else map_of (ag_sessions a) m)"
  "ag_peers (add_peer n ps a) ! length (ag_peers a) = ps"
  by (simp_all add: add_peer_def)

lemma add_peer_old: "i < length (ag_peers a) \<Longrightarrow> ag_peers (add_peer n ps a) ! i = ag_peers a ! i"
  by (simp add: add_peer_def nth_append)

text \<open>A concrete instance of the primitives for which all that is assumed of them holds.\<close>

definition toy2 :: prims where
  "toy2 = toy\<lparr>x25519 := (\<lambda>k p. Some (replicate 32 (sum_list k + (case p of [] \<Rightarrow> 0 | x # _ \<Rightarrow> x)))),
     aead_seal := (\<lambda>k n pt ad. pt @ take 16 (k @ replicate 16 0)),
     aead_open := (\<lambda>k n ct ad. if length ct < 16 \<or> drop (length ct - 16) ct \<noteq> take 16 (k @ replicate 16 0) then None
       else Some (take (length ct - 16) ct))\<rparr>"

lemma case_replicate [simp]: "(case replicate 32 x of [] \<Rightarrow> c | y # _ \<Rightarrow> y) = x"
  by (simp add: numeral_eq_Suc)

lemma toy2_ok: "aead_ok toy2" "dh_ok toy2" "kdf_ok toy2" "length k = PublicKeySize \<Longrightarrow> ed_pair toy2 k k"
  by (auto simp: aead_ok_def dh_ok_def kdf_ok_def ed_pair_def toy2_def toy_def AEADOverhead_def add.commute)

definition ex_id2 :: identity where
  "ex_id2 = \<lparr>id_Name = ''b'', id_Registry = ''r'', id_PubB64 = ex_pub 2, id_PrivB64 = ''''\<rparr>"

definition ex_agent2 :: agent where
  "ex_agent2 = newAgent ex_id2 (ex_key 2) ''9.9.9.9:9'' [] (ex_pub 9)"

abbreviation toy2_eph :: "u8 \<Rightarrow> ephemeral" where
  "toy2_eph x \<equiv> \<lparr>eph_priv = [x], eph_Pub = replicate 32 x\<rparr>"

lemma toy2_NewEphemeral: "NewEphemeral toy2 [x] = Inr (toy2_eph x)"
  by (simp add: NewEphemeral_def toy2_def toy_def)

lemma toy2_x25519: "x25519 toy2 [x] (replicate 32 y) = Some (replicate 32 (x + y))"
  by (simp add: toy2_def)

lemma ex_starts:
  "getSession_begin toy2 0 [5] ''x'' ''b'' ''2.2.2.2:2'' ex_agent =
     (GsStarted 0 (hs_init toy2 0 (toy2_eph 5) ''x'' ''b'' ex_agent), snd (getSession_begin toy2 0 [5] ''x'' ''b'' ''2.2.2.2:2'' ex_agent))"
  "getSession_begin toy2 0 [6] ''y'' ''a'' ''1.1.1.1:1'' ex_agent2 =
     (GsStarted 0 (hs_init toy2 0 (toy2_eph 6) ''y'' ''a'' ex_agent2), snd (getSession_begin toy2 0 [6] ''y'' ''a'' ''1.1.1.1:1'' ex_agent2))"
  by (simp_all add: getSession_begin_def start_handshake_def toy2_NewEphemeral ex_agent_def ex_agent2_def newAgent_def)

lemma ex_agents [simp]:
  "id_Name (ag_id ex_agent) = ''a''" "id_Name (ag_id ex_agent2) = ''b''" "id_PubB64 (ag_id ex_agent) = ex_pub 1" "id_PubB64 (ag_id ex_agent2) = ex_pub 2"
  "ag_priv ex_agent = ex_key 1" "ag_priv ex_agent2 = ex_key 2" "ag_registryKey ex_agent = ex_pub 9" "ag_regAddr ex_agent = ''9.9.9.9:9''"
  by (simp_all add: ex_agent_def ex_agent2_def newAgent_def ex_id_def ex_id2_def)

lemma ex_ids: "ed_pair toy2 (ag_priv ex_agent) (ex_key 1)" "id_PubB64 (ag_id ex_agent) = EncodeToString (ex_key 1)"
  "ed_pair toy2 (ag_priv ex_agent2) (ex_key 2)" "id_PubB64 (ag_id ex_agent2) = EncodeToString (ex_key 2)"
  using toy2_ok(4) by (simp_all add: ex_pub_def ex_key_def PublicKeySize_def)

lemma ex_names: "valid_utf8 (id_Name (ag_id ex_agent))" "valid_utf8 (id_Name (ag_id ex_agent2))"
  by simp_all

lemma ex_FreshTS: "FreshTS 0 (to_millis 0)"
  by code_simp

lemma ex_answer:
  fixes a b :: agent
  assumes "agent_reachable toy2 b" "ed_pair toy2 (ag_priv a) pa" "id_PubB64 (ag_id a) = EncodeToString pa"
    "valid_utf8 (id_Name (ag_id a))" "valid_utf8 (id_Name (ag_id b))"
  obtains s e where "agent_reachable toy2 (add_peer (id_Name (ag_id a)) (responder s e src) b)" "PeerIDKey s = id_PubB64 (ag_id a)"
    "PeerName s = id_Name (ag_id a)" "Established s = 0" "seen s = []"
proof -
  let ?m = "hs_init toy2 0 (toy2_eph 5) ''x'' (id_Name (ag_id b)) a"
  let ?E = "ex_aenv\<lparr>ae_rnd := [7], ae_nonce := ''z''\<rparr>"
  have "x25519 toy2 [7] (eph_Pub (toy2_eph 5)) = Some (replicate 32 12)" by (simp add: toy2_x25519)
  then obtain s where s: "Derive toy2 0 (toy2_eph 7) (eph_Pub (toy2_eph 5)) (id_Name (ag_id a)) (id_PubB64 (ag_id a)) ''x'' ''z'' False = Inr s"
    "handleHSInit toy2 0 [7] ''z'' src ?m b =
      ([Msg src (hs_answer toy2 0 (toy2_eph 7) ''x'' ''z'' (id_Name (ag_id a)) b)], add_peer (id_Name (ag_id a)) (responder s (toy2_eph 7) src) b)"
    using handleHSInit_good [OF toy2_ok(3) assms(2,3) toy2_NewEphemeral toy2_NewEphemeral [of 7] _ ex_FreshTS, where b = b] by metis
  have w: "wire_message ?m" using assms(3-5) by (intro hs_init_wire) (simp_all add: to_millis_def fits_def)
  have "m_Kind ?m = KindHSInit" by (simp add: hs_init_def Let_def)
  then have "\<exists>d xs. agent_receive toy2 ?E src (Encode ?m) b = Some (d, xs, add_peer (id_Name (ag_id a)) (responder s (toy2_eph 7) src) b)"
    by (simp add: receive_Encode w handle_message_def ex_aenv_def s(2))
  then have "agent_step toy2 b (add_peer (id_Name (ag_id a)) (responder s (toy2_eph 7) src) b)" using agent_step.receive by blast
  then have "agent_reachable toy2 (add_peer (id_Name (ag_id a)) (responder s (toy2_eph 7) src) b)"
    using assms(1) unfolding agent_reachable_def by (meson rtranclp.rtrancl_into_rtrancl)
  moreover obtain sh where "NewSession toy2 0 (id_Name (ag_id a)) (id_PubB64 (ag_id a)) sh ''x'' ''z'' False = Inr s" using Derive_keys [OF s(1)] .
  ultimately show ?thesis using that [of s "toy2_eph 7"] NewSession_keys by blast
qed

lemma ex_agent2_reachable: "agent_reachable P ex_agent2"
  unfolding agent_reachable_def ex_agent2_def by blast

theorem sessions_authentic_witness:
  "\<exists>tag eph na nb ts sig. VerifyHandshake toy2 (ex_pub 1) (HandshakeBytes tag ''a'' ''b'' eph na nb ts) sig = Inr ()"
proof -
  obtain s e where s: "agent_reachable toy2 (add_peer ''a'' (responder s e ''1.1.1.1:1'') ex_agent2)" (is "agent_reachable toy2 ?b") "PeerIDKey s = ex_pub 1" "PeerName s = ''a''"
    using ex_answer [OF ex_agent2_reachable ex_ids(1,2) ex_names] unfolding ex_agents by blast
  have z: "length (ag_peers ex_agent2) = 0" by (simp add: ex_agent2_def newAgent_def)
  have "check_peer 0 (ex_pub 1) ?b = KeyOk s" using s(2) z by (simp add: check_peer_def add_peer_def)
  moreover have "0 < length (ag_peers ?b)" "id_Name (ag_id ?b) = ''b''" by simp_all
  ultimately show ?thesis using sessions_authentic [OF s(1), of 0 "ex_pub 1" s] s(3) by metis
qed

subsection \<open>Two handshakes that cross\<close>

lemma handleHSInit_sent:
  assumes "handleHSInit P t r nb src m a = ([Msg src resp], a')"
  obtains s e pub where "a' = add_peer (m_Name m) (responder s e src) a" "m_Name resp = id_Name (ag_id a)"
    "Derive P t e pub (m_Name m) (m_PubKey m) (m_Nonce m) nb False = Inr s"
  using assms by (auto simp: handleHSInit_def Let_def split: if_splits sum.splits)

text \<open>What the labels of the key derivation are for: a frame sealed under a key derived with the label of
  one direction does not open under a key derived with the label of the other.\<close>

definition labels_separate :: "prims \<Rightarrow> bool" where
  "labels_separate P \<longleftrightarrow> (\<forall>s n s' n' m pt ad. aead_open P (hkdf32 P s' n' (to_bytes dirInitiator)) m
     (aead_seal P (hkdf32 P s n (to_bytes dirResponder)) m pt ad) ad = None)"

lemma Open_other_key:
  assumes "\<forall>n pt ad. aead_open P (recvKey r) n (aead_seal P (sendKey s) n pt ad) ad = None"
  shows "\<exists>e. Open P (fst (Seal P pt s)) r = (Inl e, r)"
proof -
  let ?f = "fst (Seal P pt s)" and ?ct = "aead_seal P (sendKey s) (sealed_nonce (counter s)) pt (sealed_hdr (counter s))"
  have f: "?f = sealed_hdr (counter s) @ ?ct" by (simp add: Seal_def Let_def)
  have "Uint64 (drop 1 ?f) = counter s" unfolding f by (simp add: sealed_hdr_def)
  then have "open_begin ?f r = Inr c \<Longrightarrow> c = counter s" for c by (auto simp: open_begin_def Let_def split: if_splits)
  moreover have "aead_open P (recvKey r) (sealed_nonce (counter s)) (drop 9 ?f) (take 9 ?f) = None"
    using assms unfolding f by simp
  ultimately show ?thesis
    by (cases "open_begin ?f r") (auto simp: Open_def open_finish_def sealedHeaderLen_def simp del: fst_conv)
qed

lemma responder_keys:
  assumes "Derive P t e pub n k na nb False = Inr s"
  obtains sh where "sendKey s = deriveKey P sh na nb dirResponder" "recvKey s = deriveKey P sh na nb dirInitiator"
proof -
  obtain sh where "NewSession P t n k sh na nb False = Inr s" using Derive_keys [OF assms] by blast
  from NewSession_keys [OF this] show ?thesis by (intro that [of sh]) simp_all
qed

lemma sent_responder:
  assumes "handleHSInit P t r nb src m x = ([Msg src resp], x')" "ps_sess (ag_peers x' ! length (ag_peers x)) = Some s"
  shows "\<exists>sh na nb. sendKey s = deriveKey P sh na nb dirResponder \<and> recvKey s = deriveKey P sh na nb dirInitiator"
proof -
  obtain s' e pub where x': "x' = add_peer (m_Name m) (responder s' e src) x" "Derive P t e pub (m_Name m) (m_PubKey m) (m_Nonce m) nb False = Inr s'"
    using handleHSInit_sent [OF assms(1)] by metis
  have "s' = s" using assms(2) by (simp add: x'(1))
  then show ?thesis using responder_keys [OF x'(2)] by metis
qed

text \<open>An agent that has started a handshake and then answers the peer's: the entry of its own handshake is
  replaced, so the answer to it is ignored and its caller waits until the deadline.\<close>

lemma crossed_side:
  assumes start: "getSession_begin P t1 r na n addr a = (GsStarted i msg, a1)"
    and init: "handleHSInit P t2 r2 nb src m a1 = ([Msg src resp], a2)" "m_Name m = n" and other: "m_Name answer = n"
  shows "handleHSResp P t3 src3 answer a2 = Some a2 \<and> getSession_end i a2 = GsPending \<and>
    (\<exists>a3. hs_deadline i a2 = Some a3 \<and> getSession_end i a3 = GsError HsNoResp) \<and>
    map_of (ag_sessions a2) n = Some (Suc i) \<and> (\<exists>s. ps_sess (ag_peers a2 ! Suc i) = Some s)"
proof -
  obtain e where e: "i = length (ag_peers a)" "a1 = add_peer n \<lparr>ps_sess = None, ps_eph = e, ps_addr = Some addr, ps_nonceA = na,
      ps_done = True, ps_closed = False, ps_err = None, ps_initiator = True\<rparr> a"
    using started_cases [OF start] by metis
  obtain s eb where s: "a2 = add_peer n (responder s eb src) a1" using handleHSInit_sent [OF init(1)] init(2) by metis
  have len: "length (ag_peers a1) = Suc i" by (simp add: e)
  have peers: "ag_peers a2 ! Suc i = responder s eb src" "ag_peers a2 ! i = \<lparr>ps_sess = None, ps_eph = e, ps_addr = Some addr, ps_nonceA = na,
      ps_done = True, ps_closed = False, ps_err = None, ps_initiator = True\<rparr>" "length (ag_peers a2) = Suc (Suc i)"
    using add_peer_get(2) [of n "responder s eb src" a1] add_peer_old [of i a1] len by (simp_all add: s e)
  have m: "map_of (ag_sessions a2) n = Some (Suc i)" using len by (simp add: s)
  show ?thesis using m peers other by (simp add: handleHSResp_def getSession_end_def hs_deadline_def Let_def)
qed

text \<open>C22. Two agents that start a handshake with each other at the same time both fail: each answers the
  other's \<^verbatim>\<open>HS_INIT\<close> and thereby replaces its own pending entry, so both \<^verbatim>\<open>HS_RESP\<close> are ignored and both
  callers run into the deadline. What remains under the names are two responder sessions that do not
  match: nothing either side seals opens on the other, and both keep using them until they expire.\<close>

theorem crossed_handshakes_fail:
  assumes "labels_separate P"
    and "getSession_begin P t1 ra na (id_Name (ag_id b)) addrB a = (GsStarted i msgA, a1)"
    and "getSession_begin P t2 rb nb (id_Name (ag_id a)) addrA b = (GsStarted j msgB, b1)"
    and "handleHSInit P t3 rx nx addrA msgA b1 = ([Msg addrA respB], b2)"
    and "handleHSInit P t4 ry ny addrB msgB a1 = ([Msg addrB respA], a2)"
  shows "handleHSResp P t5 addrB respB a2 = Some a2 \<and> handleHSResp P t6 addrA respA b2 = Some b2 \<and>
    (\<exists>a3. hs_deadline i a2 = Some a3 \<and> getSession_end i a3 = GsError HsNoResp) \<and>
    (\<exists>b3. hs_deadline j b2 = Some b3 \<and> getSession_end j b3 = GsError HsNoResp) \<and>
    (\<exists>k l sa sb. map_of (ag_sessions a2) (id_Name (ag_id b)) = Some k \<and> ps_sess (ag_peers a2 ! k) = Some sa \<and>
       map_of (ag_sessions b2) (id_Name (ag_id a)) = Some l \<and> ps_sess (ag_peers b2 ! l) = Some sb \<and>
       (\<forall>pt. \<exists>e. Open P (fst (Seal P pt sa)) sb = (Inl e, sb)) \<and> (\<forall>pt. \<exists>e. Open P (fst (Seal P pt sb)) sa = (Inl e, sa)))"
proof -
  have n: "m_Name msgA = id_Name (ag_id a)" "m_Name msgB = id_Name (ag_id b)" "ag_id a1 = ag_id a" "ag_id b1 = ag_id b"
    using started_frame [OF assms(2)] started_frame [OF assms(3)] by auto
  have r: "m_Name respA = id_Name (ag_id a)" "m_Name respB = id_Name (ag_id b)"
    using handleHSInit_sent [OF assms(5)] handleHSInit_sent [OF assms(4)] n by metis+
  note A = crossed_side [OF assms(2,5) n(2) r(2), of t5 addrB] and B = crossed_side [OF assms(3,4) n(1) r(1), of t6 addrA]
  obtain sa sb where s: "ps_sess (ag_peers a2 ! Suc i) = Some sa" "ps_sess (ag_peers b2 ! Suc j) = Some sb" using A B by blast
  have len: "length (ag_peers a1) = Suc i" "length (ag_peers b1) = Suc j" using started_frame(3) [OF assms(2)] started_frame(3) [OF assms(3)] by auto
  have "\<forall>n pt ad. aead_open P (recvKey sb) n (aead_seal P (sendKey sa) n pt ad) ad = None"
    "\<forall>n pt ad. aead_open P (recvKey sa) n (aead_seal P (sendKey sb) n pt ad) ad = None"
    using sent_responder [OF assms(5), of sa] sent_responder [OF assms(4), of sb] s len assms(1) unfolding labels_separate_def deriveKey_def by metis+
  then show ?thesis using A B s Open_other_key by metis
qed

lemma toy2_labels: "labels_separate toy2"
  by (auto simp: labels_separate_def toy2_def toy_def to_bytes_def dirInitiator_def dirResponder_def)

theorem crossed_handshakes_fail_witness:
  "\<exists>respA a2. handleHSInit toy2 0 [8] ''v'' ''2.2.2.2:2'' (hs_init toy2 0 (toy2_eph 6) ''y'' ''a'' ex_agent2)
       (snd (getSession_begin toy2 0 [5] ''x'' ''b'' ''2.2.2.2:2'' ex_agent)) = ([Msg ''2.2.2.2:2'' respA], a2) \<and>
     (\<exists>a3. hs_deadline 0 a2 = Some a3 \<and> getSession_end 0 a3 = GsError HsNoResp)"
proof -
  let ?a1 = "snd (getSession_begin toy2 0 [5] ''x'' ''b'' ''2.2.2.2:2'' ex_agent)" and ?b1 = "snd (getSession_begin toy2 0 [6] ''y'' ''a'' ''1.1.1.1:1'' ex_agent2)"
  have i: "id_Name (ag_id ?a1) = ''a''" "id_Name (ag_id ?b1) = ''b''" using started_frame(2) [OF ex_starts(1)] started_frame(2) [OF ex_starts(2)] by simp_all
  have x: "x25519 toy2 [7] (eph_Pub (toy2_eph 5)) = Some (replicate 32 12)" "x25519 toy2 [8] (eph_Pub (toy2_eph 6)) = Some (replicate 32 14)"
    by (simp_all add: toy2_x25519)
  obtain respB b2 where B: "handleHSInit toy2 0 [7] ''z'' ''1.1.1.1:1'' (hs_init toy2 0 (toy2_eph 5) ''x'' ''b'' ex_agent) ?b1 = ([Msg ''1.1.1.1:1'' respB], b2)"
    using handleHSInit_good [OF toy2_ok(3) ex_ids(1,2) toy2_NewEphemeral toy2_NewEphemeral [of 7] x(1) ex_FreshTS, where b = ?b1] unfolding i by metis
  obtain respA a2 where A: "handleHSInit toy2 0 [8] ''v'' ''2.2.2.2:2'' (hs_init toy2 0 (toy2_eph 6) ''y'' ''a'' ex_agent2) ?a1 = ([Msg ''2.2.2.2:2'' respA], a2)"
    using handleHSInit_good [OF toy2_ok(3) ex_ids(3,4) toy2_NewEphemeral toy2_NewEphemeral [of 8] x(2) ex_FreshTS, where b = ?a1] unfolding i by metis
  note c = crossed_handshakes_fail [OF toy2_labels _ _ B A, where a = ex_agent and b = ex_agent2 and i = 0 and j = 0, unfolded ex_agents, OF ex_starts]
  then have "\<exists>a3. hs_deadline 0 a2 = Some a3 \<and> getSession_end 0 a3 = GsError HsNoResp" by blast
  with A show ?thesis by blast
qed

section \<open>Rekeying under a caller\<close>

lemma map_of_filter_None: "distinct (map fst ss) \<Longrightarrow> map_of ss n = Some i \<Longrightarrow> \<not> f (n, i) \<Longrightarrow> map_of (filter f ss) n = None"
  by (induction ss) (auto simp: map_of_eq_None_iff image_iff split: if_splits)

lemma ready_cases:
  assumes "getSession_begin P t rnd na n addr a = (GsReady i, a1)"
  shows "map_of (ag_sessions a1) n = Some i" "\<exists>s. ps_sess (ag_peers a ! i) = Some s \<and> \<not> Expired t s"
proof -
  have "GsReady i \<noteq> fst (start_handshake P t rnd na n addr a)" by (auto simp: start_handshake_def split: sum.splits)
  then show "map_of (ag_sessions a1) n = Some i" "\<exists>s. ps_sess (ag_peers a ! i) = Some s \<and> \<not> Expired t s"
    using assms by (auto simp: getSession_begin_def Let_def split: option.splits if_splits)
qed

text \<open>C24. The encrypted ping can crash the agent: \<^verbatim>\<open>getSession\<close> hands out a session that has not expired, and
  the address is read from the map again afterwards. When the session expires in between and the rekey
  round removes the entry, the lookup gives nil and the access to its address panics.\<close>

theorem ping_races_with_rekey:
  assumes "agent_reachable P a" "getSession_begin P t rnd na n addr a = (GsReady i, a1)"
    and "ps_sess (ag_peers a1 ! i) = Some s" "PeerIDKey s = key" "Expired t' s"
  shows "ping_begin P now nonce n i key (rekey_round t' a1) = None"
proof -
  have ok: "agent_ok P a1" using getSession_ok [OF reachable_ok [OF assms(1)] assms(2)] .
  have "map_of (ag_sessions (rekey_round t' a1)) n = None"
    using map_of_filter_None [OF _ ready_cases(1) [OF assms(2)]] agent_okD(2) [OF ok] assms(3,5) by (simp add: rekey_round_def sessions_ok_def)
  moreover have "check_peer i key (rekey_round t' a1) = KeyOk s" using assms(3,4) by (simp add: check_peer_def rekey_round_def)
  ultimately show ?thesis by (simp add: ping_begin_def send_in_session_def wait_def)
qed

theorem ping_races_with_rekey_witness:
  "\<exists>a1. ping_begin toy2 0 ''p'' ''a'' 0 (ex_pub 1) (rekey_round (301 * Second) a1) = None \<and>
     (\<exists>a. agent_reachable toy2 a \<and> getSession_begin toy2 0 [1] ''q'' ''a'' ''1.1.1.1:1'' a = (GsReady 0, a1))"
proof -
  obtain s e where s: "agent_reachable toy2 (add_peer ''a'' (responder s e ''1.1.1.1:1'') ex_agent2)" (is "agent_reachable toy2 ?b") "PeerIDKey s = ex_pub 1" "Established s = 0"
    using ex_answer [OF ex_agent2_reachable ex_ids(1,2) ex_names] unfolding ex_agents by blast
  have z: "ag_peers ex_agent2 = []" by (simp add: ex_agent2_def newAgent_def)
  have x: "\<not> Expired 0 s" "Expired (301 * Second) s"
    using s(3) by (simp_all add: Expired_def Time_Sub_def RekeyAfter_def Minute_def Second_def minDuration_def maxDuration_def)
  obtain a1 where a1: "getSession_begin toy2 0 [1] ''q'' ''a'' ''1.1.1.1:1'' ?b = (GsReady 0, a1)" "ps_sess (ag_peers a1 ! 0) = Some s"
    using z x(1) by (simp add: getSession_begin_def add_peer_def Let_def set_peer_def)
  from ping_races_with_rekey [OF s(1) a1 s(2) x(2)] show ?thesis using s(1) a1(1) by blast
qed

end
