(* ===== verification/Agent_Tunnels.thy ===== *)
theory Agent_Tunnels
  imports Agent_Props
begin

text \<open>
  Which local ports a peer can reach: the allowlist comes from the command line, no step of the agent
  changes it, and a port is dialled only when it is in it. And what stream identifiers do not protect.
\<close>

section \<open>The allowlist never changes\<close>

named_theorems ports

lemma ports_simple [simp]:
  "ag_tunnelPorts (set_peer i ps a) = ag_tunnelPorts a" "ag_tunnelPorts (add_peer n ps a) = ag_tunnelPorts a"
  "ag_tunnelPorts (set_tunnels tt a) = ag_tunnelPorts a" "ag_tunnelPorts (unwait k a) = ag_tunnelPorts a"
  "ag_tunnelPorts (rekey_round now a) = ag_tunnelPorts a" "ag_tunnelPorts (snd (wait k a)) = ag_tunnelPorts a"
  "ag_tunnelPorts (chan_push c m a) = ag_tunnelPorts a"
  by (simp_all add: set_peer_def add_peer_def set_tunnels_def unwait_def rekey_round_def wait_def chan_push_def)

lemma ports_deliver [simp]: "ag_tunnelPorts (deliver m a) = ag_tunnelPorts a"
proof -
  have "ag_tunnelPorts (deliver_keys ks m a) = ag_tunnelPorts a" for ks
    by (induction ks m a rule: deliver_keys.induct) (auto split: option.splits)
  then show ?thesis by (simp add: deliver_def del: deliver_keys.simps)
qed

lemma ports_seal_to [ports]: "seal_to P i addr pt a = Some (x, a') \<Longrightarrow> ag_tunnelPorts a' = ag_tunnelPorts a"
  by (auto simp: seal_to_def split: option.splits prod.splits)

lemma ports_seal_all [ports]: "seal_all P i addr pts a = Some (xs, a') \<Longrightarrow> ag_tunnelPorts a' = ag_tunnelPorts a"
  by (induction pts arbitrary: a xs) (fastforce split: option.splits dest: ports)+

lemma ports_tunnel_send [ports]: "tunnel_send P k fs a = Some (xs, a') \<Longrightarrow> ag_tunnelPorts a' = ag_tunnelPorts a"
  by (auto simp: tunnel_send_def Let_def dest: ports)

lemma ports_send_ticks [ports]: "send_ticks P fs a = Some (xs, a') \<Longrightarrow> ag_tunnelPorts a' = ag_tunnelPorts a"
  by (induction P fs a arbitrary: xs rule: send_ticks.induct) (fastforce split: option.splits dest: ports)+

lemma ports_tick_round [ports]: "tick_round P now a = Some (xs, a') \<Longrightarrow> ag_tunnelPorts a' = ag_tunnelPorts a"
  by (auto simp: tick_round_def split: prod.splits dest: ports)

lemma ports_close_tunnel [ports]: "close_tunnel P sid a = Some (xs, a') \<Longrightarrow> ag_tunnelPorts a' = ag_tunnelPorts a"
  by (auto simp: close_tunnel_def split: option.splits prod.splits dest!: ports)

lemma handleTunnelOpen_ports:
  assumes "handleTunnelOpen P dial p i addr a = Some (d, xs, a')"
  shows "ag_tunnelPorts a' = ag_tunnelPorts a \<and> set d \<subseteq> set (ag_tunnelPorts a)"
  using assms by (auto simp: handleTunnelOpen_def tunnelAllowed_def Let_def split: option.splits sum.splits if_splits prod.splits dest!: ports)

lemma handle_payload_ports:
  assumes "handle_payload P now dial src i pt a = Some (d, xs, a')"
  shows "ag_tunnelPorts a' = ag_tunnelPorts a \<and> set d \<subseteq> set (ag_tunnelPorts a)"
  using assms by (auto simp: handle_payload_def Let_def split: option.splits if_splits prod.splits
      dest!: ports handleTunnelOpen_ports)

lemma receive_ports:
  assumes "agent_receive P E src b a = Some (d, xs, a')"
  shows "ag_tunnelPorts a' = ag_tunnelPorts a \<and> set d \<subseteq> set (ag_tunnelPorts a)"
proof (cases "IsSealed b")
  case True
  then have "handleSealed P (ae_now E) (ae_dial E) src b a = Some (d, xs, a')" using assms by (simp add: agent_receive_def)
  then show ?thesis by (auto simp: handleSealed_def split: option.splits prod.splits sum.splits dest!: handle_payload_ports)
next
  case False
  have init: "handleHSInit P now rnd nb src m a = (xs, a') \<Longrightarrow> ag_tunnelPorts a' = ag_tunnelPorts a" for now rnd nb m xs a'
    by (auto simp: handleHSInit_def Let_def split: if_splits sum.splits)
  have resp: "handleHSResp P now src m a = Some a' \<Longrightarrow> ag_tunnelPorts a' = ag_tunnelPorts a" for now m a'
    by (auto simp: handleHSResp_def Let_def split: if_splits option.splits)
  show ?thesis using assms False
    by (auto simp: agent_receive_def handle_message_def split: option.splits if_splits prod.splits dest!: init resp)
qed

lemma ports_send_in_session [ports]: "send_in_session P n i pt a = Some (xs, a') \<Longrightarrow> ag_tunnelPorts a' = ag_tunnelPorts a"
  by (auto simp: send_in_session_def split: option.splits dest: ports)

lemma ports_on_stream [ports]: "on_stream P k s fs a = Some (xs, a') \<Longrightarrow> ag_tunnelPorts a' = ag_tunnelPorts a"
  by (auto simp: on_stream_def dest: ports)

lemma ports_step: "agent_step P a a' \<Longrightarrow> ag_tunnelPorts a' = ag_tunnelPorts a"
proof (induction rule: agent_step.induct)
  case (receive E src b a d xs a')
  then show ?case using receive_ports by blast
next
  case (get_session now rnd na n addr a r a')
  then show ?case by (auto simp: getSession_begin_def start_handshake_def Let_def split: option.splits if_splits sum.splits)
next
  case (deadline i a a')
  then show ?case by (auto simp: hs_deadline_def Let_def split: if_splits)
next
  case (ping i a now nonce n key pr a')
  then show ?case by (auto simp: ping_begin_def wait_def split: key_check.splits option.splits dest!: ports)
next
  case (ping_again i a ts nonce addr x a')
  then show ?case by (auto simp: ping_resend_def dest: ports)
next
  case (probe i a n key port tr a')
  then show ?case by (auto simp: probe_begin_def wait_def allocID_def split: key_check.splits option.splits dest!: ports)
next
  case (new_tunnel i a n key port k' xs a')
  then show ?case by (auto simp: open_tunnel_def allocID_def Let_def split: key_check.splits option.splits prod.splits dest!: ports)
next
  case (tcp_data k a clk p w xs a')
  then show ?case by (auto simp: pipe_write_def split: prod.splits dest!: ports)
next
  case (tcp_room k a sz rd xs a')
  then show ?case by (auto simp: pipe_read_def split: prod.splits dest!: ports)
next
  case (tcp_eof k a xs a')
  then show ?case by (auto simp: pipe_tcp_done_def split: prod.splits dest!: ports)
next
  case (pipe_end k a xs a')
  then show ?case by (auto simp: pipe_exit_def split: prod.splits option.splits dest!: ports)
next
  case (tick now a xs a')
  then show ?case by (rule ports_tick_round)
qed simp_all

interpretation port_list: invariant_system "agent_step P" "\<lambda>a. ag_tunnelPorts a = ports" for P ports
  by unfold_locales (simp add: ports_step)

lemma parse_ports_spec:
  "parse_ports fs acc = Inr ps \<Longrightarrow> p \<in> set ps \<Longrightarrow> p \<in> set acc \<or> (1 \<le> p \<and> p \<le> 65535 \<and> (\<exists>w \<in> set fs. Atoi (TrimSpace w) = Some p))"
  by (induction fs arbitrary: acc) (fastforce simp: Let_def split: if_splits option.splits)+

text \<open>C20. Only what the operator published is reachable: whatever peers send, over the whole life of the
  agent, it dials a local port only if that port is written in \<^verbatim>\<open>--tunnel-ports\<close>, and such a port lies
  between 1 and 65535; an empty list means that nothing is ever dialled.\<close>

theorem tunnel_only_allowed_ports:
  assumes "dnxd_start home gen io udp name reg spec key f = (Inr a0, f')" "(agent_step P)\<^sup>*\<^sup>* a0 a"
    and "agent_receive P E src b a = Some (d, xs, a')"
  shows "\<forall>p \<in> set d. 1 \<le> p \<and> p \<le> 65535 \<and> (\<exists>w \<in> set (Split CHR '','' spec). Atoi (TrimSpace w) = Some p)"
proof -
  obtain ports where p: "parseTunnelPorts spec = Inr ports" "ag_tunnelPorts a0 = ports"
    using assms(1) by (auto simp: dnxd_start_def newAgent_def split: sum.splits option.splits prod.splits if_splits)
  have "set d \<subseteq> set ports" using receive_ports [OF assms(3)] port_list.run_inv [OF assms(2) p(2)] by simp
  then show ?thesis using parse_ports_spec [OF p(1) [unfolded parseTunnelPorts_def]] by auto
qed

theorem tunnel_only_allowed_ports_witness:
  "\<exists>a0 f'. dnxd_start True (Some (replicate 32 1, replicate 64 2)) True Some ''a'' '''' ''22, 80'' '''' NoIdentity = (Inr a0, f') \<and>
     (\<forall>E b d xs a'. agent_receive toy E ''6.6.6.6:6'' b a0 = Some (d, xs, a') \<longrightarrow> 443 \<notin> set d)"
proof -
  let ?s = "dnxd_start True (Some (replicate 32 1, replicate 64 2)) True Some ''a'' '''' ''22, 80'' '''' NoIdentity"
  have "parseTunnelPorts ''22, 80'' = Inr [80, 22]" by code_simp
  moreover obtain i f where "LoadOrCreate True (Some (replicate 32 1, replicate 64 2)) True ''a'' '''' NoIdentity = (Inr i, f)" "id_Priv i = Some (replicate 64 2)"
    by (simp add: LoadOrCreate_def id_Priv_def Let_def)
  ultimately obtain a0 f' where s: "?s = (Inr a0, f')" by (simp add: dnxd_start_def)
  have w: "Split CHR '','' ''22, 80'' = [''22'', '' 80'']" "Atoi (TrimSpace ''22'') = Some 22" "Atoi (TrimSpace '' 80'') = Some 80" by code_simp+
  have "443 \<notin> set d" if "agent_receive toy E ''6.6.6.6:6'' b a0 = Some (d, xs, a')" for E b d xs a'
    using tunnel_only_allowed_ports [OF s rtranclp.rtrancl_refl that] w by auto
  with s show ?thesis by blast
qed

section \<open>Stream identifiers are global\<close>

text \<open>C23. The identifiers of tunnels are not scoped to the session that opened them: the table is keyed by
  the 32-bit identifier alone and the handlers do not compare the session of the tunnel with the session
  of the frame. In any state the agent can reach, a peer with a session \<open>i\<close> of its own, whatever session
  the tunnel belongs to, can close a tunnel with one refusal naming its identifier, and a stream frame
  it sends is processed by the tunnel exactly as if it came from the tunnel's own peer.\<close>

theorem stream_ids_not_scoped:
  assumes "agent_reachable P a" "i < length (ag_peers a)" "ps_sess (ag_peers a ! i) \<noteq> None" "tt_get sid (ag_tunnels a) = Some k"
    and "payload_unmarshal pt = Some p" "decodeStreamPayload pt = None" "sp_Kind p = ''OPENERR''" "sp_SID p = sid"
  shows "(\<exists>xs a'. handle_payload P now dial src i pt a = Some ([], xs, a') \<and> tt_get sid (ag_tunnels a') = None \<and>
      ts_done (tt_objs (ag_tunnels a') ! k)) \<and>
    handle_payload P now dial src i (encodeStreamPayload sid f) a =
      handle_payload P now dial (ts_addr (tt_objs (ag_tunnels a) ! k)) (ts_sess (tt_objs (ag_tunnels a) ! k)) (encodeStreamPayload sid f) a"
proof -
  have a: "agent_ok P a" using assms(1) by (rule reachable_ok)
  let ?m = "Message0\<lparr>m_Kind := KindError, m_Nonce := tunnelWaitKey sid, m_Info := sp_Info p\<rparr>"
  have k: "k < length (tt_objs (ag_tunnels a))" using tt_get_bound [OF agent_okD(3) [OF a] assms(4)] .
  obtain fs t where c: "ts_close (tt_objs (ag_tunnels a) ! k) = (fs, t)" by fastforce
  note t = ts_close_ok [OF c tunnels_ok_stream [OF agent_okD(3) [OF a] k]]
  have "ts_done t" using c by (auto simp: ts_close_def split: if_splits prod.splits)
  let ?b = "set_tunnels (tt_update k (\<lambda>_. t) (ag_tunnels a)) (deliver ?m a)"
  have d: "agent_ok P (deliver ?m a)" using a by simp
  obtain xs a1 where s: "tunnel_send P k fs ?b = Some (xs, a1)" "same_but_counters ?b a1"
    using stream_step_ok [OF d, of k "\<lambda>_. t" fs] k t by auto
  have "close_tunnel P sid (deliver ?m a) = Some (xs, set_tunnels (tt_remove sid (ag_tunnels a1)) a1)"
    using s(1) c assms(4) by (simp add: close_tunnel_def)
  then have "handle_payload P now dial src i pt a = Some ([], xs, set_tunnels (tt_remove sid (ag_tunnels a1)) a1)"
    using assms(5-8) by (simp add: handle_payload_def)
  moreover have "tt_objs (ag_tunnels a1) ! k = t" using s(2) k by (simp add: same_but_counters_def tt_update_def)
  ultimately show ?thesis
    using \<open>ts_done t\<close> by (auto simp: tt_get_remove handle_payload_def) (simp_all add: tt_remove_def)
qed

definition ex_peer :: agent where
  "ex_peer = newAgent \<lparr>id_Name = ''m'', id_Registry = ''r'', id_PubB64 = ex_pub 3, id_PrivB64 = ''''\<rparr> (ex_key 3) ''9.9.9.9:9'' [] ''''"

lemma ex_peer_sel [simp]: "id_Name (ag_id ex_peer) = ''m''" "id_PubB64 (ag_id ex_peer) = ex_pub 3" "ag_priv ex_peer = ex_key 3"
  by (simp_all add: ex_peer_def newAgent_def)

text \<open>A state with sessions of two peers, \<^verbatim>\<open>a\<close> at address 0 and \<^verbatim>\<open>m\<close> at address 1, and a tunnel to \<^verbatim>\<open>a\<close>.\<close>

lemma ex_two_peers:
  obtains b where "agent_reachable toy2 b" "length (ag_peers b) = 2" "ps_sess (ag_peers b ! 1) \<noteq> None" "tt_get 1 (ag_tunnels b) = Some 0"
    "ts_sess (tt_objs (ag_tunnels b) ! 0) = 0"
proof -
  have z: "ag_peers ex_agent2 = []" "ag_tunnels ex_agent2 = newTunnelTable" by (simp_all add: ex_agent2_def newAgent_def)
  obtain s e where s: "agent_reachable toy2 (add_peer ''a'' (responder s e ''1.1.1.1:1'') ex_agent2)" (is "agent_reachable toy2 ?b1") "PeerIDKey s = ex_pub 1"
    using ex_answer [OF ex_agent2_reachable ex_ids(1,2) ex_names] unfolding ex_agents by blast
  have "ed_pair toy2 (ag_priv ex_peer) (ex_key 3)" "id_PubB64 (ag_id ex_peer) = EncodeToString (ex_key 3)"
    using toy2_ok(4) by (simp_all add: ex_pub_def ex_key_def PublicKeySize_def)
  moreover have "valid_utf8 (id_Name (ag_id ex_peer))" "valid_utf8 (id_Name (ag_id ?b1))" by (simp_all add: add_peer_def)
  ultimately obtain s' e' where
    r: "agent_reachable toy2 (add_peer ''m'' (responder s' e' ''3.3.3.3:3'') ?b1)"
    using ex_answer [OF s(1), of ex_peer] unfolding ex_peer_sel by metis
  define b where "b = add_peer ''m'' (responder s' e' ''3.3.3.3:3'') ?b1"
  have p: "ag_peers b = [responder s e ''1.1.1.1:1'', responder s' e' ''3.3.3.3:3'']" "ag_tunnels b = newTunnelTable"
    "map_of (ag_sessions b) ''a'' = Some 0"
    using z by (simp_all add: b_def add_peer_def)
  obtain k xs c where o: "open_tunnel toy2 ''a'' 0 (ex_pub 1) 22 b = Some (k, xs, c)"
    "ag_tunnels c = snd (tt_add \<lparr>ts_id = 1, ts_peer = ''a'', ts_stream = New, ts_sess = 0, ts_addr = ''1.1.1.1:1'', ts_done = False,
       ts_connClosed = False\<rparr> (newTunnelTable\<lparr>tt_nextID := 1\<rparr>))"
    "length (ag_peers c) = 2" "ps_sess (ag_peers c ! 1) \<noteq> None"
    using p s(2) by (simp add: open_tunnel_def check_peer_def allocID_def seal_to_def newTunnelTable_def tt_add_def Let_def case_prod_beta)
  have "agent_step toy2 b c" by (rule agent_step.new_tunnel [OF _ o(1)]) (simp add: p)
  then have "agent_reachable toy2 c" using r unfolding b_def [symmetric] agent_reachable_def by (meson rtranclp.rtrancl_into_rtrancl)
  then show ?thesis by (rule that) (use o in \<open>simp_all add: tt_add_def tt_get_def newTunnelTable_def\<close>)
qed

theorem stream_ids_not_scoped_witness:
  "\<exists>b xs b'. agent_reachable toy2 b \<and> ts_sess (tt_objs (ag_tunnels b) ! 0) = 0 \<and> tt_get 1 (ag_tunnels b) = Some 0 \<and>
     handle_payload toy2 0 (\<lambda>p. Inr ()) ''3.3.3.3:3'' 1 (payload_marshal (sealedPayload0\<lparr>sp_Kind := ''OPENERR'', sp_SID := 1\<rparr>)) b =
       Some ([], xs, b') \<and> tt_get 1 (ag_tunnels b') = None"
proof -
  let ?p = "sealedPayload0\<lparr>sp_Kind := ''OPENERR'', sp_SID := 1\<rparr>"
  obtain b where b: "agent_reachable toy2 b" "length (ag_peers b) = 2" "ps_sess (ag_peers b ! 1) \<noteq> None" "tt_get 1 (ag_tunnels b) = Some 0"
    "ts_sess (tt_objs (ag_tunnels b) ! 0) = 0" by (rule ex_two_peers)
  have "payload_unmarshal (payload_marshal ?p) = Some ?p"
    by (rule payload_unmarshal_marshal) (simp add: wire_payload_def sealedPayload0_def fits_def)
  moreover have "1 < length (ag_peers b)" "sp_Kind ?p = ''OPENERR''" "sp_SID ?p = 1" using b(2) by simp_all
  ultimately obtain xs b' where
    "handle_payload toy2 0 (\<lambda>p. Inr ()) ''3.3.3.3:3'' 1 (payload_marshal ?p) b = Some ([], xs, b')" "tt_get 1 (ag_tunnels b') = None"
    using stream_ids_not_scoped [OF b(1) _ b(3,4)] payload_not_stream by metis
  then show ?thesis using b(1,4,5) by blast
qed

end
