(* ===== verification/Nonce.thy ===== *)
theory Nonce
  imports Proto_Json
begin

text \<open>
  \<^verbatim>\<open>NewNonce\<close> of \<^verbatim>\<open>internal/secure\<close> and \<^verbatim>\<open>newNonce\<close> of \<^verbatim>\<open>cmd/dnxd\<close>: twelve random bytes in the unpadded URL alphabet of
  base64. The bytes are an argument.
\<close>

definition url_char :: "nat \<Rightarrow> char" where
  "url_char n = (if n = 62 then CHR ''-'' else if n \<ge> 63 then CHR ''_'' else b64_char n)"

fun RawURLEncode :: "bytes \<Rightarrow> string" where
  "RawURLEncode [] = []"
| "RawURLEncode [x] = [url_char (unat x div 4), url_char (unat x mod 4 * 16)]"
| "RawURLEncode [x, y] =
     (let n = (unat x * 256 + unat y) * 4
      in [url_char (n div 4096), url_char (n div 64 mod 64), url_char (n mod 64)])"
| "RawURLEncode (x # y # z # bs) =
     (let n = unat x * 65536 + unat y * 256 + unat z
      in [url_char (n div 262144), url_char (n div 4096 mod 64), url_char (n div 64 mod 64), url_char (n mod 64)]
         @ RawURLEncode bs)"

definition NewNonce :: "bytes \<Rightarrow> string" where
  "NewNonce rnd = RawURLEncode rnd"

section \<open>Facts\<close>

definition to_url :: "char \<Rightarrow> char" where
  "to_url c = (if c = CHR ''+'' then CHR ''-'' else if c = CHR ''/'' then CHR ''_'' else c)"

lemma b64_char_letter: "n < 62 \<Longrightarrow> b64_char n \<noteq> CHR ''+'' \<and> b64_char n \<noteq> CHR ''/'' \<and> b64_char n \<noteq> CHR ''-'' \<and> b64_char n \<noteq> CHR ''_''"
proof -
  assume n: "n < 62"
  then have "byte (b64_char n) \<in> {65..90} \<union> {97..122} \<union> {48..57}" by (auto simp: b64_char_def byte_char_of)
  then show ?thesis by auto
qed

lemma url_char_to_url: "url_char n = to_url (b64_char n)"
proof (cases "n < 62")
  case True
  then show ?thesis using b64_char_letter by (simp add: url_char_def to_url_def)
qed (auto simp: url_char_def to_url_def b64_char_def)

lemma RawURL_b64: "3 dvd length b \<Longrightarrow> RawURLEncode b = map to_url (b64_encode b)"
proof (induction b rule: RawURLEncode.induct)
  case (4 x y z bs)
  then have "3 dvd length bs" by (simp add: numeral_3_eq_3) presburger
  then show ?case using 4 by (simp add: url_char_to_url Let_def)
qed (auto dest: dvd_imp_le)

lemma b64_encode_letters: "c \<in> set (b64_encode b) \<Longrightarrow> c \<noteq> CHR ''-'' \<and> c \<noteq> CHR ''_''"
proof -
  have b: "b64_char n \<noteq> CHR ''-''" "b64_char n \<noteq> CHR ''_''" for n
    using b64_char_letter [of n] by (cases "n < 62"; simp add: b64_char_def)+
  have "CHR ''-'' \<notin> set (b64_encode b) \<and> CHR ''_'' \<notin> set (b64_encode b)"
    by (induction b rule: b64_encode.induct) (simp_all add: Let_def b b [symmetric])
  then show "c \<in> set (b64_encode b) \<Longrightarrow> c \<noteq> CHR ''-'' \<and> c \<noteq> CHR ''_''" by blast
qed

lemma to_url_inj: "inj_on to_url (set (b64_encode a) \<union> set (b64_encode b))"
  using b64_encode_letters by (intro inj_onI) (fastforce simp: to_url_def split: if_splits)

text \<open>Different random bytes give different nonces, and a nonce is printable ASCII of 16 characters.\<close>

lemma NewNonce_inj: "length a = 12 \<Longrightarrow> length b = 12 \<Longrightarrow> NewNonce a = NewNonce b \<longleftrightarrow> a = b"
proof -
  assume l: "length a = 12" "length b = 12"
  then have "NewNonce a = map to_url (b64_encode a)" "NewNonce b = map to_url (b64_encode b)" by (simp_all add: NewNonce_def RawURL_b64)
  then have "NewNonce a = NewNonce b \<Longrightarrow> b64_encode a = b64_encode b" using to_url_inj by (auto simp: inj_on_map_eq_map)
  then show ?thesis using EncodeToString_inj [of a b] by (auto simp: EncodeToString_def)
qed

lemma byte_url_char: "byte (url_char n) < 128" "url_char n \<noteq> CHR ''|''"
  using byte_b64_char [of n] Go_Base64.b64_char_plain [of n] by (auto simp: url_char_def)

lemma ascii_RawURL: "ascii (RawURLEncode b)" "CHR ''|'' \<notin> set (RawURLEncode b)"
  by (induction b rule: RawURLEncode.induct) (auto simp: byte_url_char byte_url_char(2) [symmetric] Let_def)

lemma NewNonce_ok:
  assumes "length rnd = 12"
  shows "valid_utf8 (NewNonce rnd)" "NewNonce rnd \<noteq> ''''" "CHR ''|'' \<notin> set (NewNonce rnd)"
proof -
  show "valid_utf8 (NewNonce rnd)" "CHR ''|'' \<notin> set (NewNonce rnd)" using ascii_RawURL ascii_valid by (auto simp: NewNonce_def)
  obtain x y z bs where "rnd = x # y # z # bs" using assms by (cases rnd; cases "tl rnd"; cases "tl (tl rnd)") auto
  then show "NewNonce rnd \<noteq> ''''" by (simp add: NewNonce_def Let_def)
qed

end
