(* ===== verification/Link.thy ===== *)
theory Link
  imports Agent_Tunnels Nonce
begin

text \<open>
  Two agents that talk: what it means that they share a session, that the handshake sets one up, and what
  a sealed payload does on the other side. Everything here is about the datagrams as bytes: messages go
  through \<open>Encode\<close> and \<open>Decode\<close>, payloads through their JSON form and the sealed frame.
\<close>

section \<open>Shared sessions\<close>

text \<open>
  \<open>half a peer addr i s\<close>: agent \<open>a\<close> holds session \<open>s\<close>, in object \<open>i\<close>, under the name \<open>peer\<close>, and a sealed frame from
  \<open>addr\<close> is opened with it. The last part is not automatic: the code looks a session up by address only.
\<close>

definition half :: "agent \<Rightarrow> string \<Rightarrow> string \<Rightarrow> nat \<Rightarrow> session \<Rightarrow> bool" where
  "half a peer addr i s \<longleftrightarrow> i < length (ag_peers a) \<and> ps_sess (ag_peers a ! i) = Some s \<and> ps_addr (ag_peers a ! i) = Some addr \<and>
     map_of (ag_sessions a) peer = Some i \<and> find_session addr (ag_peers a) (ag_sessions a) = Some i"

text \<open>The two ends have each other's keys, and no counter still to be used has been seen.\<close>

definition mirrored :: "session \<Rightarrow> session \<Rightarrow> bool" where
  "mirrored s r \<longleftrightarrow> recvKey r = sendKey s \<and> recvKey s = sendKey r \<and> (\<forall>c \<in> set (seen r). c < counter s) \<and> (\<forall>c \<in> set (seen s). c < counter r)"

definition linked :: "agent \<Rightarrow> string \<Rightarrow> nat \<Rightarrow> agent \<Rightarrow> string \<Rightarrow> nat \<Rightarrow> bool" where
  "linked a addrA i b addrB j \<longleftrightarrow>
     (\<exists>sa sb. half a (id_Name (ag_id b)) addrB i sa \<and> half b (id_Name (ag_id a)) addrA j sb \<and> mirrored sa sb)"

lemma mirrored_sym: "mirrored s r \<Longrightarrow> mirrored r s"
  by (auto simp: mirrored_def)

lemma linked_sym: "linked a addrA i b addrB j \<Longrightarrow> linked b addrB j a addrA i"
  unfolding linked_def using mirrored_sym by blast

section \<open>Looking a session up by address\<close>

abbreviation at_addr :: "string \<Rightarrow> peerSession \<Rightarrow> bool" where
  "at_addr src ps \<equiv> ps_sess ps \<noteq> None \<and> ps_addr ps = Some src"

lemma find_session_find: "find_session src peers ss = map_option snd (List.find (\<lambda>x. at_addr src (peers ! snd x)) ss)"
  by (induction src peers ss rule: find_session.induct) simp_all

lemma find_session_cong:
  "(\<And>n k. (n, k) \<in> set ss \<Longrightarrow> at_addr src (peers ! k) = at_addr src (peers' ! k)) \<Longrightarrow>
   find_session src peers ss = find_session src peers' ss"
  unfolding find_session_find by (intro arg_cong [where f = "map_option snd"] find_cong refl) (metis prod.collapse)

lemma find_session_unique:
  assumes "(n, i) \<in> set ss" "at_addr src (peers ! i)" "\<And>m k. (m, k) \<in> set ss \<Longrightarrow> at_addr src (peers ! k) \<Longrightarrow> k = i"
  shows "find_session src peers ss = Some i"
proof (cases "List.find (\<lambda>x. at_addr src (peers ! snd x)) ss")
  case None
  then show ?thesis using assms(1,2) by (fastforce simp: find_None_iff)
next
  case (Some x)
  then have "x \<in> set ss" "at_addr src (peers ! snd x)" by (auto simp: find_Some_iff)
  then show ?thesis using assms(3) [of "fst x" "snd x"] Some by (simp add: find_session_find)
qed

text \<open>No session under another name is at the address.\<close>

definition addr_free :: "string \<Rightarrow> string \<Rightarrow> agent \<Rightarrow> bool" where
  "addr_free src name a \<longleftrightarrow> (\<forall>(m, k) \<in> set (ag_sessions a). m \<noteq> name \<longrightarrow> \<not> at_addr src (ag_peers a ! k))"

lemma half_add_peer:
  assumes "agent_ok P a" "addr_free src name a" "ps_sess ps = Some s" "ps_addr ps = Some src"
  shows "half (add_peer name ps a) name src (length (ag_peers a)) s"
proof -
  have ss: "distinct (map fst (ag_sessions a))" "\<And>m k. (m, k) \<in> set (ag_sessions a) \<Longrightarrow> k < length (ag_peers a)"
    using agent_okD(2) [OF assms(1)] by (auto simp: sessions_ok_def)
  let ?ss = "AList.update name (length (ag_peers a)) (ag_sessions a)" and ?ps = "ag_peers a @ [ps]"
  have d: "distinct (map fst ?ss)" using ss(1) by (rule distinct_fst_update)
  have m: "map_of ?ss name = Some (length (ag_peers a))" by simp
  have "find_session src ?ps ?ss = Some (length (ag_peers a))"
  proof (rule find_session_unique)
    show "(name, length (ag_peers a)) \<in> set ?ss" using map_of_SomeD [OF m] .
    show "at_addr src (?ps ! length (ag_peers a))" using assms(3,4) by simp
  next
    fix n k assume k: "(n, k) \<in> set ?ss" "at_addr src (?ps ! k)"
    have n: "map_of ?ss n = Some k" using map_of_is_SomeI [OF d k(1)] .
    show "k = length (ag_peers a)"
    proof (cases "n = name")
      case False
      then have "(n, k) \<in> set (ag_sessions a)" using n map_of_SomeD [of "ag_sessions a" n k] by simp
      then show ?thesis using assms(2) k(2) ss(2) False by (auto simp: addr_free_def nth_append)
    qed (use n m in simp)
  qed
  then show ?thesis using assms(3,4) by (simp add: half_def add_peer_def)
qed

lemma half_set:
  assumes "half a peer addr i s"
  shows "half (set_peer i ((ag_peers a ! i)\<lparr>ps_sess := Some s'\<rparr>) a) peer addr i s'"
proof -
  let ?ps = "(ag_peers a)[i := (ag_peers a ! i)\<lparr>ps_sess := Some s'\<rparr>]"
  have "find_session addr (ag_peers a) (ag_sessions a) = find_session addr ?ps (ag_sessions a)"
    using assms by (intro find_session_cong) (auto simp: half_def nth_list_update)
  then show ?thesis using assms by (auto simp: half_def set_peer_def)
qed

lemma half_cong:
  "half a peer addr i s \<Longrightarrow> ag_peers a' = ag_peers a \<Longrightarrow> ag_sessions a' = ag_sessions a \<Longrightarrow> half a' peer addr i s"
  by (simp add: half_def)

section \<open>A sealed payload crosses\<close>

lemma set_peer_chans: "ag_waiters (set_peer i ps a) = ag_waiters a" "ag_chans (set_peer i ps a) = ag_chans a"
  by (simp_all add: set_peer_def)

lemma Seal_state: "Seal P pt s = (f, s') \<Longrightarrow> s' = s\<lparr>counter := counter s + 1\<rparr> \<and> IsSealed f"
  by (auto simp: Seal_def Let_def IsSealed_def sealed_hdr_def)

lemma word_less_succ: "(c :: u64) \<noteq> - 1 \<Longrightarrow> c < c + 1"
proof -
  assume c: "c \<noteq> - 1"
  have "unat c \<noteq> 2 ^ 64 - 1"
  proof
    assume "unat c = 2 ^ 64 - 1"
    then have "unat c = unat (- 1 :: u64)" by (simp add: unsigned_minus_1_eq_mask mask_eq_exp_minus_1)
    then show False using c by (metis word_unat_eq_iff)
  qed
  then have "unat c + 1 < 2 ^ 64" using unsigned_less [of c, where ?'a = nat] by simp
  then have "unat (c + 1) = unat c + 1" by (simp add: unat_word_ariths)
  then show ?thesis by (simp add: word_less_nat_alt)
qed

lemma mirrored_step:
  assumes "mirrored s r" "counter s \<noteq> - 1"
  shows "mirrored (s\<lparr>counter := counter s + 1\<rparr>) (r\<lparr>seen := List.insert (counter s) (seen r)\<rparr>)"
proof -
  have "counter s < counter s + 1" using assms(2) by (rule word_less_succ)
  then show ?thesis using assms(1) by (auto simp: mirrored_def dest: less_trans)
qed

lemma seal_to_half:
  assumes "half a peer addr i s" "Seal P pt s = (f, s')"
  obtains a' where "seal_to P i to pt a = Some (Sealed to f, a')" "half a' peer addr i s'" "a' = set_peer i ((ag_peers a ! i)\<lparr>ps_sess := Some s'\<rparr>) a"
  using that half_set [OF assms(1)] assms by (simp add: seal_to_def half_def)

lemma receive_sealed:
  assumes "aead_ok P" "half b peer addr j r" "Seal P pt s = (f, s')" "mirrored s r"
  obtains b' where "agent_receive P E addr f b = handle_payload P (ae_now E) (ae_dial E) addr j pt b'"
    "half b' peer addr j (r\<lparr>seen := List.insert (counter s) (seen r)\<rparr>)"
    "b' = set_peer j ((ag_peers b ! j)\<lparr>ps_sess := Some (r\<lparr>seen := List.insert (counter s) (seen r)\<rparr>)\<rparr>) b"
proof -
  have "counter s \<notin> set (seen r)" "recvKey r = sendKey s" using assms(4) by (auto simp: mirrored_def)
  then have o: "Open P f r = (Inr pt, r\<lparr>seen := List.insert (counter s) (seen r)\<rparr>)" using Open_Seal [OF assms(1,3)] by blast
  show ?thesis
    using that [OF _ half_set [OF assms(2)] refl] Seal_state [OF assms(3)] o assms(2) by (simp add: agent_receive_def handleSealed_def half_def)
qed

text \<open>The answer to a ping, and its arrival.\<close>

lemma answer_ping:
  assumes "aead_ok P" "half b peer addr j r" "Seal P (payload_marshal p) s = (f, s')" "mirrored s r" "counter s \<noteq> - 1" "wire_payload p"
    "sp_Kind p = ''PING''"
  obtains f' b' r' where "agent_receive P E addr f b = Some ([], [Sealed addr f'], b')" "half b' peer addr j r'"
    "Seal P (payload_marshal (sealedPayload0\<lparr>sp_Kind := ''PONG'', sp_Name := id_Name (ag_id b), sp_Nonce := sp_Nonce p,
       sp_TS := to_millis (ae_now E)\<rparr>)) (r\<lparr>seen := List.insert (counter s) (seen r)\<rparr>) = (f', r')"
    "ag_id b' = ag_id b"
proof -
  let ?r = "r\<lparr>seen := List.insert (counter s) (seen r)\<rparr>"
  let ?q = "payload_marshal (sealedPayload0\<lparr>sp_Kind := ''PONG'', sp_Name := id_Name (ag_id b), sp_Nonce := sp_Nonce p, sp_TS := to_millis (ae_now E)\<rparr>)"
  obtain b1 where b1: "agent_receive P E addr f b = handle_payload P (ae_now E) (ae_dial E) addr j (payload_marshal p) b1" "half b1 peer addr j ?r"
      "ag_id b1 = ag_id b"
    using receive_sealed [OF assms(1-4)] by (metis set_peer_sel(1))
  obtain f' r' where f': "Seal P ?q ?r = (f', r')" by (metis prod.exhaust)
  obtain b' where b': "seal_to P j addr ?q b1 = Some (Sealed addr f', b')" "half b' peer addr j r'" "ag_id b' = ag_id b"
    using seal_to_half [OF b1(2) f'] b1(3) by (metis set_peer_sel(1))
  have "agent_receive P E addr f b = Some ([], [Sealed addr f'], b')"
    using b1(1,3) b'(1) payload_unmarshal_marshal [OF assms(6)] assms(7) by (simp add: handle_payload_def)
  then show ?thesis using that b'(2,3) f' by blast
qed

section \<open>The encrypted ping\<close>

lemma wait_get: "fst (wait n a) = length (ag_chans a)" "map_of (ag_waiters (snd (wait n a))) n = Some (length (ag_chans a))"
  "ag_chans (snd (wait n a)) = ag_chans a @ [[]]" "ag_peers (snd (wait n a)) = ag_peers a" "ag_sessions (snd (wait n a)) = ag_sessions a"
  "ag_id (snd (wait n a)) = ag_id a"
  by (simp_all add: wait_def)

lemma deliver_waiter:
  assumes "map_of (ag_waiters a) (m_Nonce m) = Some c" "m_Nonce m \<noteq> ''''" "m_Nonce m \<noteq> ''|''" "c < length (ag_chans a)" "ag_chans a ! c = []"
  shows "ag_chans (deliver m a) ! c = [m]" "ag_peers (deliver m a) = ag_peers a" "ag_sessions (deliver m a) = ag_sessions a" "ag_id (deliver m a) = ag_id a"
  using assms by (simp_all add: deliver_def chan_push_def chanCap_def)

lemma ping_begin_half:
  assumes "half a peer addr i s" "Seal P (payload_marshal (sealedPayload0\<lparr>sp_Kind := ''PING'', sp_Name := id_Name (ag_id a), sp_Nonce := nonce,
      sp_TS := to_millis now\<rparr>)) s = (f, s')"
  obtains a1 where "ping_begin P now nonce peer i (PeerIDKey s) a = Some (PingWaiting (length (ag_chans a)) [Sealed addr f], a1)"
    "half a1 peer addr i s'" "map_of (ag_waiters a1) nonce = Some (length (ag_chans a))" "ag_chans a1 = ag_chans a @ [[]]" "ag_id a1 = ag_id a"
proof -
  let ?w = "snd (wait nonce a)"
  have w: "half ?w peer addr i s" using assms(1) by (rule half_cong) (simp_all add: wait_get)
  obtain a1 where a1: "seal_to P i addr (payload_marshal (sealedPayload0\<lparr>sp_Kind := ''PING'', sp_Name := id_Name (ag_id a), sp_Nonce := nonce,
      sp_TS := to_millis now\<rparr>)) ?w = Some (Sealed addr f, a1)" "half a1 peer addr i s'"
      "a1 = set_peer i ((ag_peers ?w ! i)\<lparr>ps_sess := Some s'\<rparr>) ?w"
    using seal_to_half [OF w assms(2)] by metis
  have "map_of (ag_sessions ?w) peer = Some i" "ps_addr (ag_peers ?w ! i) = Some addr" "ps_sess (ag_peers a ! i) = Some s"
    using w assms(1) by (simp_all add: half_def)
  then have "ping_begin P now nonce peer i (PeerIDKey s) a = Some (PingWaiting (length (ag_chans a)) [Sealed addr f], a1)"
    using a1(1) by (simp add: ping_begin_def check_peer_def send_in_session_def case_prod_beta wait_get Let_def)
  then show ?thesis using that a1(2,3) by (simp add: wait_get set_peer_def)
qed

text \<open>C12. The encrypted ping works end to end: between two agents that share a session, the frame that \<^verbatim>\<open>pingEncrypted\<close>
  sends is answered by the peer with one frame, and that frame wakes the waiting ping with a PONG that
  carries the peer's name and the ping's nonce. The session is still shared afterwards, so the next ping
  works as well.\<close>

theorem encrypted_ping_answered:
  assumes P: "aead_ok P" and link: "half a (id_Name (ag_id b)) addrB i sa" "half b (id_Name (ag_id a)) addrA j sb" "mirrored sa sb"
    and ctr: "counter sa \<noteq> - 1" "counter sb \<noteq> - 1"
    and utf: "valid_utf8 (id_Name (ag_id a))" "valid_utf8 (id_Name (ag_id b))" and n: "length rnd = 12"
    and t: "fits 64 (to_millis now)" "fits 64 (to_millis (ae_now Eb))"
  shows "\<exists>ch f a1 f' b1 a2. ping_begin P now (NewNonce rnd) (id_Name (ag_id b)) i (PeerIDKey sa) a = Some (PingWaiting ch [Sealed addrB f], a1) \<and>
    agent_receive P Eb addrA f b = Some ([], [Sealed addrA f'], b1) \<and> agent_receive P Ea addrB f' a1 = Some ([], [], a2) \<and>
    ag_chans a2 ! ch = [Message0\<lparr>m_Kind := KindPong, m_Name := id_Name (ag_id b), m_Nonce := NewNonce rnd\<rparr>] \<and>
    linked a2 addrA i b1 addrB j"
proof -
  define nonce where "nonce = NewNonce rnd"
  have nn: "valid_utf8 nonce" "nonce \<noteq> ''''" "nonce \<noteq> ''|''" using NewNonce_ok [OF n] by (auto simp: nonce_def)
  let ?p = "sealedPayload0\<lparr>sp_Kind := ''PING'', sp_Name := id_Name (ag_id a), sp_Nonce := nonce, sp_TS := to_millis now\<rparr>"
  let ?q = "sealedPayload0\<lparr>sp_Kind := ''PONG'', sp_Name := id_Name (ag_id b), sp_Nonce := nonce, sp_TS := to_millis (ae_now Eb)\<rparr>"
  let ?m = "Message0\<lparr>m_Kind := KindPong, m_Name := id_Name (ag_id b), m_Nonce := nonce\<rparr>"
  let ?sb = "sb\<lparr>seen := List.insert (counter sa) (seen sb)\<rparr>"
  have w: "wire_payload ?p" "wire_payload ?q" using utf nn(1) t by (simp_all add: wire_payload_def sealedPayload0_def fits_def)
  have k: "sp_Kind ?p = ''PING''" "sp_Nonce ?p = nonce" by simp_all
  obtain f sa1 where f: "Seal P (payload_marshal ?p) sa = (f, sa1)" by (metis prod.exhaust)
  have sa1: "sa1 = sa\<lparr>counter := counter sa + 1\<rparr>" using Seal_state [OF f] by simp
  obtain a1 where a1: "ping_begin P now nonce (id_Name (ag_id b)) i (PeerIDKey sa) a = Some (PingWaiting (length (ag_chans a)) [Sealed addrB f], a1)"
      "half a1 (id_Name (ag_id b)) addrB i sa1" "map_of (ag_waiters a1) nonce = Some (length (ag_chans a))" "ag_chans a1 = ag_chans a @ [[]]" "ag_id a1 = ag_id a"
    using ping_begin_half [OF link(1) f] by metis
  obtain f' b1 sb1 where b1: "agent_receive P Eb addrA f b = Some ([], [Sealed addrA f'], b1)" "half b1 (id_Name (ag_id a)) addrA j sb1"
      "Seal P (payload_marshal ?q) ?sb = (f', sb1)" "ag_id b1 = ag_id b"
    using answer_ping [OF P link(2) f link(3) ctr(1) w(1) k(1), of Eb] unfolding k(2) by metis
  have cs: "counter ?sb = counter sb" by simp
  have m1: "mirrored sa1 ?sb" using mirrored_step [OF link(3) ctr(1)] sa1 by simp
  then have m2: "mirrored sb1 (sa1\<lparr>seen := List.insert (counter sb) (seen sa1)\<rparr>)"
    using mirrored_step [OF mirrored_sym [OF m1]] ctr(2) Seal_state [OF b1(3)] by simp
  obtain a2 where a2: "agent_receive P Ea addrB f' a1 = handle_payload P (ae_now Ea) (ae_dial Ea) addrB i (payload_marshal ?q) a2"
      "half a2 (id_Name (ag_id b)) addrB i (sa1\<lparr>seen := List.insert (counter sb) (seen sa1)\<rparr>)"
      "ag_waiters a2 = ag_waiters a1" "ag_chans a2 = ag_chans a1" "ag_id a2 = ag_id a1"
    using receive_sealed [OF P a1(2) b1(3) mirrored_sym [OF m1], of Ea] set_peer_chans set_peer_sel(1) unfolding cs by metis
  have d: "agent_receive P Ea addrB f' a1 = Some ([], [], deliver ?m a2)"
    using a2(1) payload_unmarshal_marshal [OF w(2)] by (simp add: handle_payload_def sealedPayload0_def)
  have c: "ag_chans (deliver ?m a2) ! length (ag_chans a) = [?m]" "ag_peers (deliver ?m a2) = ag_peers a2"
      "ag_sessions (deliver ?m a2) = ag_sessions a2" "ag_id (deliver ?m a2) = ag_id a2"
    using nn(2,3) a1(3,4) a2(3,4) by (auto intro!: deliver_waiter simp: Message0_def)
  have "half (deliver ?m a2) (id_Name (ag_id b1)) addrB i (sa1\<lparr>seen := List.insert (counter sb) (seen sa1)\<rparr>)"
    using half_cong [OF a2(2) c(2,3)] b1(4) by simp
  then have "linked (deliver ?m a2) addrA i b1 addrB j"
    unfolding linked_def using b1(2) c(4) a1(5) a2(5) mirrored_sym [OF m2] by metis
  then show ?thesis unfolding nonce_def [symmetric] using a1(1) b1(1) d c(1) by blast
qed

lemma free_new: "addr_free src n (newAgent i priv reg ports key)"
  by (simp add: addr_free_def newAgent_def)

abbreviation ex_a :: agent where
  "ex_a \<equiv> add_peer ''b'' (responder toy_A (toy2_eph 1) ''2.2.2.2:2'') ex_agent"

abbreviation ex_b :: agent where
  "ex_b \<equiv> add_peer ''a'' (responder toy_B (toy2_eph 2) ''1.1.1.1:1'') ex_agent2"

theorem encrypted_ping_answered_witness:
  "\<exists>ch f a1 f' b1 a2. ping_begin toy 0 (NewNonce (replicate 12 7)) ''b'' 0 ''K'' ex_a = Some (PingWaiting ch [Sealed ''2.2.2.2:2'' f], a1) \<and>
     agent_receive toy ex_aenv ''1.1.1.1:1'' f ex_b = Some ([], [Sealed ''1.1.1.1:1'' f'], b1) \<and>
     agent_receive toy ex_aenv ''2.2.2.2:2'' f' a1 = Some ([], [], a2) \<and> ag_chans a2 ! ch \<noteq> []"
proof -
  have p: "ag_peers ex_agent = []" "ag_peers ex_agent2 = []" "ag_id ex_a = ag_id ex_agent" "ag_id ex_b = ag_id ex_agent2"
    by (simp_all add: ex_agent_def ex_agent2_def newAgent_def add_peer_def)
  have "half ex_a ''b'' ''2.2.2.2:2'' (length (ag_peers ex_agent)) toy_A" "half ex_b ''a'' ''1.1.1.1:1'' (length (ag_peers ex_agent2)) toy_B"
    by (rule half_add_peer [of toy]; simp add: ex_agent_def ex_agent2_def newAgent_ok free_new)+
  then have h: "half ex_a (id_Name (ag_id ex_b)) ''2.2.2.2:2'' 0 toy_A" "half ex_b (id_Name (ag_id ex_a)) ''1.1.1.1:1'' 0 toy_B"
    by (simp_all only: p ex_agents list.size)
  have m: "mirrored toy_A toy_B" "counter toy_A \<noteq> - 1" "counter toy_B \<noteq> - 1" "PeerIDKey toy_A = ''K''"
    by (simp_all add: mirrored_def toy_A_def toy_B_def)
  have v: "valid_utf8 (id_Name (ag_id ex_a))" "valid_utf8 (id_Name (ag_id ex_b))" "length (replicate 12 (7 :: u8)) = 12"
    "fits 64 (to_millis 0)" "fits 64 (to_millis (ae_now ex_aenv))"
    by (simp_all add: p fits_def to_millis_def ex_aenv_def)
  show ?thesis using encrypted_ping_answered [OF toy_ok(1) h m(1-3) v, of ex_aenv] unfolding m(4) p(4) ex_agents by force
qed

section \<open>The handshake links two agents\<close>

lemma set_peer_added: "set_peer (length (ag_peers a)) q (add_peer n p a) = add_peer n q a"
  by (simp add: set_peer_def add_peer_def)

lemma Derive_mirrored:
  assumes "dh_ok P" "NewEphemeral P ra = Inr ea" "NewEphemeral P rb = Inr eb"
    "Derive P t1 ea (eph_Pub eb) nb kb na no True = Inr sa" "Derive P t2 eb (eph_Pub ea) nm km na no False = Inr sb"
  shows "mirrored sa sb"
proof -
  have "seen sa = []" using Derive_keys [OF assms(4)] NewSession_keys by metis
  then show ?thesis using Derive_mirror [OF assms] by (simp add: mirrored_def)
qed

lemma hs_answer_wire:
  assumes "valid_utf8 (id_Name (ag_id b))" "valid_utf8 peer" "valid_utf8 (id_PubB64 (ag_id b))" "valid_utf8 na" "valid_utf8 nb" "fits 64 (to_millis t)"
  shows "wire_message (hs_answer P t eph na nb peer b)"
  using assms by (simp add: wire_message_def hs_answer_def Message0_def EncodeEphPub_def SignHandshake_def kind_defs)

text \<open>C11. The handshake, over the bytes on the wire: when an agent starts one, the peer receives its \<^verbatim>\<open>HS_INIT\<close>
  and the \<^verbatim>\<open>HS_RESP\<close> comes back, both within the accepted clock skew, then the waiting caller is woken with a
  session that passes the check against the peer's identity key, the peer holds one that passes the check
  against the caller's key, and the two agents are linked: frames sealed by either are found, opened and
  read by the other. Assumed is the documented behaviour of the primitives, that the identity keys are
  pairs, that the key agreement does not fail, and that neither agent has a session with a third name at the
  other's address.\<close>

theorem handshake_links:
  assumes P: "dh_ok P" "kdf_ok P"
    and ids: "ed_pair P (ag_priv a) pa" "id_PubB64 (ag_id a) = EncodeToString pa" "ed_pair P (ag_priv b) pb" "id_PubB64 (ag_id b) = EncodeToString pb"
    and reach: "agent_reachable P a" "agent_reachable P b"
    and free: "addr_free addrB (id_Name (ag_id b)) a" "addr_free addrA (id_Name (ag_id a)) b"
    and utf: "valid_utf8 (id_Name (ag_id a))" "valid_utf8 (id_Name (ag_id b))" "valid_utf8 na" "valid_utf8 (ae_nonce Eb)"
    and t: "fits 64 (to_millis t1)" "fits 64 (to_millis (ae_now Eb))"
    and start: "getSession_begin P t1 ra na (id_Name (ag_id b)) addrB a = (GsStarted i msg, a1)"
    and eph: "NewEphemeral P ra = Inr ea" "NewEphemeral P (ae_rnd Eb) = Inr eb" "x25519 P (ae_rnd Eb) (eph_Pub ea) = Some sh"
    and fresh: "FreshTS (ae_now Eb) (to_millis t1)" "FreshTS (ae_now Ea) (to_millis (ae_now Eb))"
  shows "\<exists>resp b1 a2 sa sb j. agent_receive P Eb addrA (Encode msg) b = Some ([], [Msg addrA resp], b1) \<and>
    agent_receive P Ea addrB (Encode resp) a1 = Some ([], [], a2) \<and> getSession_end i a2 = GsSession i \<and>
    check_peer i (id_PubB64 (ag_id b)) a2 = KeyOk sa \<and> check_peer j (id_PubB64 (ag_id a)) b1 = KeyOk sb \<and>
    linked a2 addrA i b1 addrB j"
proof -
  let ?t2 = "ae_now Eb" and ?nb = "ae_nonce Eb"
  let ?resp = "hs_answer P ?t2 eb na ?nb (id_Name (ag_id a)) b"
  have st: "i = length (ag_peers a)" "msg = hs_init P t1 ea na (id_Name (ag_id b)) a"
    "a1 = add_peer (id_Name (ag_id b)) \<lparr>ps_sess = None, ps_eph = ea, ps_addr = Some addrB, ps_nonceA = na, ps_done = True, ps_closed = False,
      ps_err = None, ps_initiator = True\<rparr> a"
    using started_cases [OF start] eph(1) by auto
  obtain sb where sb: "Derive P ?t2 eb (eph_Pub ea) (id_Name (ag_id a)) (id_PubB64 (ag_id a)) na ?nb False = Inr sb"
    "handleHSInit P ?t2 (ae_rnd Eb) ?nb addrA msg b = ([Msg addrA ?resp], add_peer (id_Name (ag_id a)) (responder sb eb addrA) b)"
    using handleHSInit_good [OF P(2) ids(1,2) eph fresh(1)] unfolding st(2) by metis
  have "x25519 P (eph_priv ea) (eph_Pub eb) = Some sh"
    using P(1) NewEphemeral_Pub(2,3) [OF P(2) eph(1)] NewEphemeral_Pub(3) [OF P(2) eph(2)] eph(3) unfolding dh_ok_def by metis
  then obtain sa where sa: "Derive P (ae_now Ea) ea (eph_Pub eb) (id_Name (ag_id b)) (id_PubB64 (ag_id b)) na ?nb True = Inr sa"
    using Derive_total [OF P(2)] by metis
  define ps where "ps = \<lparr>ps_sess = Some sa, ps_eph = ea, ps_addr = Some addrB, ps_nonceA = na, ps_done = False,
    ps_closed = True, ps_err = None, ps_initiator = True\<rparr>"
  define a2 where "a2 = add_peer (id_Name (ag_id b)) ps a"
  define b1 where "b1 = add_peer (id_Name (ag_id a)) (responder sb eb addrA) b"
  have "handleHSResp P (ae_now Ea) addrB ?resp a1 = Some a2"
    using sa NewEphemeral_Pub(1) [OF P(2) eph(2)] VerifyHandshake_Sign [OF ids(3)] ids(4) fresh(2)
    by (simp add: st a2_def ps_def handleHSResp_def hs_resp_check_def hs_answer_def Let_def set_peer_added)
  then have ra: "agent_receive P Ea addrB (Encode ?resp) a1 = Some ([], [], a2)"
    using hs_answer_wire [OF utf(2,1) _ utf(3,4) t(2)] ids(4) by (simp add: receive_Encode handle_message_def hs_answer_def kind_defs)
  have rb: "agent_receive P Eb addrA (Encode msg) b = Some ([], [Msg addrA ?resp], b1)"
    using hs_init_wire [OF utf(1,2) _ utf(3) t(1)] ids(2) sb(2) unfolding st(2)
    by (simp add: receive_Encode handle_message_def hs_init_def b1_def Let_def kind_defs)
  have ha: "half a2 (id_Name (ag_id b)) addrB i sa" unfolding a2_def st(1) ps_def
    using half_add_peer [OF reachable_ok [OF reach(1)] free(1)] by simp
  have hb: "half b1 (id_Name (ag_id a)) addrA (length (ag_peers b)) sb" unfolding b1_def
    using half_add_peer [OF reachable_ok [OF reach(2)] free(2)] by simp
  have k: "PeerIDKey sa = id_PubB64 (ag_id b)" "PeerIDKey sb = id_PubB64 (ag_id a)" using Derive_peer [OF sa] Derive_peer [OF sb(1)] by auto
  have "linked a2 addrA i b1 addrB (length (ag_peers b))"
    unfolding linked_def using ha hb Derive_mirrored [OF P(1) eph(1,2) sa sb(1)] by (auto simp: a2_def b1_def add_peer_def)
  moreover have "getSession_end i a2 = GsSession i" by (simp add: a2_def ps_def st(1) getSession_end_def)
  ultimately show ?thesis using ra rb ha hb k
    by (intro exI [of _ ?resp] exI [of _ b1] exI [of _ a2] exI [of _ sa] exI [of _ sb] exI [of _ "length (ag_peers b)"]) (simp add: check_peer_def half_def)
qed

theorem handshake_links_witness:
  "\<exists>resp b1 a2. agent_receive toy2 (ex_aenv\<lparr>ae_rnd := [7], ae_nonce := ''z''\<rparr>) ''1.1.1.1:1'' (Encode (hs_init toy2 0 (toy2_eph 5) ''x'' ''b'' ex_agent)) ex_agent2 =
       Some ([], [Msg ''1.1.1.1:1'' resp], b1) \<and>
     agent_receive toy2 ex_aenv ''2.2.2.2:2'' (Encode resp) (snd (getSession_begin toy2 0 [5] ''x'' ''b'' ''2.2.2.2:2'' ex_agent)) = Some ([], [], a2)"
proof -
  let ?E = "ex_aenv\<lparr>ae_rnd := [7], ae_nonce := ''z''\<rparr>"
  have st: "getSession_begin toy2 0 [5] ''x'' (id_Name (ag_id ex_agent2)) ''2.2.2.2:2'' ex_agent =
     (GsStarted 0 (hs_init toy2 0 (toy2_eph 5) ''x'' ''b'' ex_agent), snd (getSession_begin toy2 0 [5] ''x'' ''b'' ''2.2.2.2:2'' ex_agent))"
    using ex_starts(1) by simp
  have f: "addr_free ''2.2.2.2:2'' (id_Name (ag_id ex_agent2)) ex_agent" "addr_free ''1.1.1.1:1'' (id_Name (ag_id ex_agent)) ex_agent2"
    unfolding ex_agent_def ex_agent2_def by (rule free_new)+
  have u: "valid_utf8 ''x''" "valid_utf8 (ae_nonce ?E)" by simp_all
  have t: "fits 64 (to_millis 0)" "fits 64 (to_millis (ae_now ?E))" by (simp_all add: fits_def to_millis_def ex_aenv_def)
  have e: "NewEphemeral toy2 (ae_rnd ?E) = Inr (toy2_eph 7)" "x25519 toy2 (ae_rnd ?E) (eph_Pub (toy2_eph 5)) = Some (replicate 32 12)"
    by (simp_all add: toy2_NewEphemeral toy2_x25519)
  have n: "FreshTS (ae_now ?E) (to_millis 0)" "FreshTS (ae_now ex_aenv) (to_millis (ae_now ?E))" using ex_FreshTS by (simp_all add: ex_aenv_def)
  show ?thesis
    using handshake_links [OF toy2_ok(2,3) ex_ids ex_agent_reachable ex_agent2_reachable f ex_names u t st toy2_NewEphemeral e n] by blast
qed

section \<open>Tunnels\<close>

lemma seal_all_tunnels: "seal_all P i addr pts a = Some (xs, a') \<Longrightarrow> ag_tunnels a' = ag_tunnels a \<and> length xs = length pts"
proof (induction pts arbitrary: a xs)
  case (Cons pt pts)
  then show ?case by (force simp: seal_to_def Let_def case_prod_beta split: option.splits)
qed simp

lemma tunnel_send_one:
  assumes "half a peer addr i s" "tt_objs (ag_tunnels a) ! k = t" "ts_sess t = i" "Seal P (encodeStreamPayload (ts_id t) f) s = (g, s')"
  shows "tunnel_send P k [f] a = Some ([Sealed (ts_addr t) g], set_peer i ((ag_peers a ! i)\<lparr>ps_sess := Some s'\<rparr>) a)"
  using assms by (simp add: tunnel_send_def seal_to_def half_def)

text \<open>C13. Tunnels refine streams: a frame that the stream of a tunnel hands out travels sealed to the other agent,
  and what that agent does to its end of the tunnel is \<^verbatim>\<open>OnFrame\<close> of exactly this frame; the frames with which
  its stream answers are sealed and sent in turn, and no other tunnel is touched.\<close>

theorem tunnel_frame_crosses:
  assumes P: "aead_ok P" "agent_reachable P b"
    and link: "half a (id_Name (ag_id b)) addrB i sa" "half b (id_Name (ag_id a)) addrA j sb" "mirrored sa sb"
    and ta: "tt_objs (ag_tunnels a) ! k = ta" "ts_sess ta = i" "ts_addr ta = addrB" and tb: "tt_get (ts_id ta) (ag_tunnels b) = Some k2"
  shows "\<exists>g a1 s fs xs b1. tunnel_send P k [f] a = Some ([Sealed addrB g], a1) \<and>
    agent_receive P E addrA g b = Some ([], xs, b1) \<and>
    OnFrame (ae_now E) f (ts_stream (tt_objs (ag_tunnels b) ! k2)) = Some (s, fs) \<and> length xs = length fs \<and>
    ag_tunnels b1 = tt_update k2 (\<lambda>t. t\<lparr>ts_stream := s\<rparr>) (ag_tunnels b)"
proof -
  obtain g sa' where g: "Seal P (encodeStreamPayload (ts_id ta) f) sa = (g, sa')" by (metis prod.exhaust)
  define b0 where "b0 = set_peer j ((ag_peers b ! j)\<lparr>ps_sess := Some (sb\<lparr>seen := List.insert (counter sa) (seen sb)\<rparr>)\<rparr>) b"
  have r: "agent_receive P E addrA g b = handle_payload P (ae_now E) (ae_dial E) addrA j (encodeStreamPayload (ts_id ta) f) b0"
    using receive_sealed [OF P(1) link(2) g link(3)] unfolding b0_def by metis
  have b: "agent_ok P b" using P(2) by (rule reachable_ok)
  have b0: "agent_ok P b0" unfolding b0_def using link(2) by (intro new_session_ok(1) [OF b]) (simp_all add: half_def)
  have t0: "ag_tunnels b0 = ag_tunnels b" by (simp add: b0_def)
  have "k2 < length (tt_objs (ag_tunnels b0))"
    using tb agent_okD(3) [OF b] by (auto simp: t0 tt_get_def tunnels_ok_def dest: map_of_SomeD)
  then obtain s fs xs b1 where s: "OnFrame (ae_now E) f (ts_stream (tt_objs (ag_tunnels b0) ! k2)) = Some (s, fs)"
      "tunnel_send P k2 fs (set_tunnels (tt_update k2 (\<lambda>t. t\<lparr>ts_stream := s\<rparr>) (ag_tunnels b0)) b0) = Some (xs, b1)"
    using on_frame_ok [OF b0, of k2 "ae_now E" f] by metis
  have "ag_tunnels b1 = tt_update k2 (\<lambda>t. t\<lparr>ts_stream := s\<rparr>) (ag_tunnels b)" "length xs = length fs"
    using s(2) seal_all_tunnels by (fastforce simp: tunnel_send_def Let_def set_tunnels_def t0)+
  moreover have "agent_receive P E addrA g b = Some ([], xs, b1)" using r s tb by (simp add: handle_payload_def t0)
  ultimately show ?thesis using tunnel_send_one [OF link(1) ta(1,2) g] ta(3) s(1) t0 by auto
qed

abbreviation ex_tun :: tunnelStream where
  "ex_tun \<equiv> \<lparr>ts_id = 1, ts_peer = ''a'', ts_stream = New, ts_sess = 0, ts_addr = ''1.1.1.1:1'', ts_done = False, ts_connClosed = False\<rparr>"

text \<open>A reachable state of the agent \<^verbatim>\<open>b\<close> with a session of \<^verbatim>\<open>a\<close> and a tunnel in it.\<close>

lemma ex_tunnel_state:
  obtains c s where "agent_reachable toy2 c" "half c ''a'' ''1.1.1.1:1'' 0 s" "seen s = []" "tt_get 1 (ag_tunnels c) = Some 0" "ag_id c = ag_id ex_agent2"
proof -
  have z: "ag_peers ex_agent2 = []" "ag_tunnels ex_agent2 = newTunnelTable" by (simp_all add: ex_agent2_def newAgent_def)
  obtain s e where s: "agent_reachable toy2 (add_peer ''a'' (responder s e ''1.1.1.1:1'') ex_agent2)" (is "agent_reachable toy2 ?b1") "PeerIDKey s = ex_pub 1" "seen s = []"
    using ex_answer [OF ex_agent2_reachable ex_ids(1,2) ex_names] unfolding ex_agents by metis
  have h: "half ?b1 ''a'' ''1.1.1.1:1'' 0 s"
    using half_add_peer [of toy2 ex_agent2 "''1.1.1.1:1''" "''a''" "responder s e ''1.1.1.1:1''" s] z(1) by (simp add: ex_agent2_def newAgent_ok free_new)
  let ?tt = "snd (tt_add ex_tun (newTunnelTable\<lparr>tt_nextID := 1\<rparr>))"
  let ?pt = "payload_marshal (sealedPayload0\<lparr>sp_Kind := ''OPEN'', sp_Name := ''b'', sp_SID := 1, sp_Port := 22\<rparr>)"
  obtain f s' where f: "Seal toy2 ?pt s = (f, s')" by (metis prod.exhaust)
  have ht: "half (set_tunnels ?tt ?b1) ''a'' ''1.1.1.1:1'' 0 s" using h by (rule half_cong) (simp_all add: set_tunnels_def)
  have tun: "ag_tunnels (set_tunnels ?tt ?b1) = ?tt" "ag_id (set_tunnels ?tt ?b1) = ag_id ex_agent2" by (simp_all add: set_tunnels_def add_peer_def)
  obtain c where c: "seal_to toy2 0 ''1.1.1.1:1'' ?pt (set_tunnels ?tt ?b1) = Some (Sealed ''1.1.1.1:1'' f, c)" "half c ''a'' ''1.1.1.1:1'' 0 s'"
      "ag_tunnels c = ?tt" "ag_id c = ag_id ex_agent2"
    using seal_to_half [OF ht f] set_peer_sel(1,3) tun by metis
  have "open_tunnel toy2 ''a'' 0 (ex_pub 1) 22 ?b1 = Some (Some 0, [Sealed ''1.1.1.1:1'' f], c)"
    using c(1) h s(2) z by (simp add: open_tunnel_def check_peer_def half_def allocID_def newTunnelTable_def tt_add_def Let_def add_peer_def)
  then have "agent_step toy2 ?b1 c" by (intro agent_step.new_tunnel) (use h in \<open>simp_all add: half_def\<close>)
  then have "agent_reachable toy2 c" using s(1) unfolding agent_reachable_def by (meson rtranclp.rtrancl_into_rtrancl)
  moreover have "seen s' = []" using Seal_state [OF f] s(3) by simp
  moreover have "tt_get 1 (ag_tunnels c) = Some 0" by (simp add: c(3) tt_get_def tt_add_def newTunnelTable_def)
  ultimately show ?thesis using that c(2,4) by blast
qed

theorem tunnel_frame_crosses_witness:
  "\<exists>a c g a1 xs c1. tunnel_send toy2 0 [[9]] a = Some ([Sealed ''2.2.2.2:2'' g], a1) \<and> agent_receive toy2 ex_aenv ''1.1.1.1:1'' g c = Some ([], xs, c1)"
proof -
  obtain c s where c: "agent_reachable toy2 c" "half c ''a'' ''1.1.1.1:1'' 0 s" "seen s = []" "tt_get 1 (ag_tunnels c) = Some 0" "ag_id c = ag_id ex_agent2"
    by (rule ex_tunnel_state)
  define r where "r = s\<lparr>sendKey := recvKey s, recvKey := sendKey s, counter := 0\<rparr>"
  let ?t = "ex_tun\<lparr>ts_peer := ''b'', ts_addr := ''2.2.2.2:2''\<rparr>"
  define a where "a = set_tunnels (snd (tt_add ?t newTunnelTable)) (add_peer ''b'' (responder r (toy2_eph 1) ''2.2.2.2:2'') ex_agent)"
  have id: "ag_id a = ag_id ex_agent" by (simp add: a_def set_tunnels_def add_peer_def)
  have "half (add_peer ''b'' (responder r (toy2_eph 1) ''2.2.2.2:2'') ex_agent) ''b'' ''2.2.2.2:2'' (length (ag_peers ex_agent)) r"
    by (rule half_add_peer [of toy2]; simp add: ex_agent_def newAgent_ok free_new)
  then have "half a ''b'' ''2.2.2.2:2'' (length (ag_peers ex_agent)) r" by (rule half_cong) (simp_all add: a_def set_tunnels_def)
  then have h: "half a (id_Name (ag_id c)) ''2.2.2.2:2'' 0 r" by (simp add: c(5) ex_agent_def newAgent_def)
  have h2: "half c (id_Name (ag_id a)) ''1.1.1.1:1'' 0 s" using c(2) by (simp add: id)
  have m: "mirrored r s" using c(3) by (simp add: r_def mirrored_def)
  have t: "tt_objs (ag_tunnels a) ! 0 = ?t" "ts_sess ?t = 0" "ts_addr ?t = ''2.2.2.2:2''" "tt_get (ts_id ?t) (ag_tunnels c) = Some 0"
    using c(4) by (simp_all add: a_def set_tunnels_def tt_add_def newTunnelTable_def)
  show ?thesis using tunnel_frame_crosses [OF toy2_ok(1) c(1) h h2 m t, of "[9]" ex_aenv] by blast
qed

end
