(* ===== verification/Resolve_Props.thy ===== *)
theory Resolve_Props
  imports Agent_Ops Registry_Props
begin

text \<open>
  Resolution, the agent and the registries together: what an accepted answer rests on, that honest
  registries and their delegations lead to the owner's key, and two behaviours the code does not intend:
  an answer about another name is accepted, and the errors of a registry never reach the caller.
\<close>

section \<open>The chain of trust\<close>

fun trust_chain :: "prims \<Rightarrow> string \<Rightarrow> string \<Rightarrow> string \<Rightarrow> message list \<Rightarrow> message \<Rightarrow> bool" where
  "trust_chain P target key zone [] ans =
     verified (VerifyDetached P key (ResolveRespBytes (m_Target ans) (m_PubKey ans) (m_Endpoint ans) (m_TS ans) (m_Nonce ans)) (m_Sig ans))"
| "trust_chain P target key zone (m # ms) ans =
     (verified (VerifyDetached P key (ReferralBytes target (m_Zone m) (m_Endpoint m) (m_PubKey m) (m_TS m) (m_Nonce m)) (m_Sig m)) \<and>
      Contains (m_Zone m) target \<and> (zone = '''' \<or> IsNarrower (m_Zone m) zone) \<and> trust_chain P target (m_PubKey m) (m_Zone m) ms ans)"

lemma Contains_zone: "Contains z n \<Longrightarrow> z \<noteq> []"
proof -
  have "Normalise [] = []" by code_simp
  then show "Contains z n \<Longrightarrow> z \<noteq> []" by (auto simp: Contains_labels)
qed

lemma trust_chain_narrowing: "trust_chain P target key z ms ans \<Longrightarrow> z \<noteq> '''' \<Longrightarrow> narrowing IsNarrower (z # map m_Zone ms)"
proof (induction ms arbitrary: key z)
  case (Cons m ms)
  have "m_Zone m \<noteq> ''''" using Cons.prems Contains_zone by auto
  then have "narrowing IsNarrower (m_Zone m # map m_Zone ms)" using Cons.prems(1) by (intro Cons.IH [of "m_PubKey m"]) simp_all
  then show ?case using Cons.prems by simp
qed simp

lemma trust_chain_last: "trust_chain P target key z ms ans \<Longrightarrow> ms \<noteq> [] \<Longrightarrow> Contains (m_Zone (last ms)) target"
  by (induction P target key z ms ans rule: trust_chain.induct) (auto split: if_splits)

text \<open>Referrals only go deeper, so a chain is no longer than the name has labels.\<close>

lemma trust_chain_depth:
  assumes "trust_chain P target key z ms ans"
  shows "length ms \<le> zone_Depth target"
proof (cases ms)
  case (Cons m rest)
  have c: "Contains (m_Zone m) target" using assms Cons by simp
  then have z: "Normalise (m_Zone m) \<noteq> ''''" by (simp add: Contains_labels)
  have "m_Zone m \<noteq> ''''" using Contains_zone [OF c] by simp
  then have "narrowing IsNarrower (m_Zone m # map m_Zone rest)" using assms Cons by (intro trust_chain_narrowing [of P target "m_PubKey m" _ _ ans]) simp_all
  moreover have "Contains (last (m_Zone m # map m_Zone rest)) target" using trust_chain_last [OF assms] Cons by (simp add: last_map split: if_splits)
  ultimately have "zone_Depth (m_Zone m) + length rest \<le> zone_Depth target" using zones.chain_bound by fastforce
  moreover have "0 < zone_Depth (m_Zone m)" using z by (simp add: zone_Depth_def)
  ultimately show ?thesis using Cons by simp
qed simp

lemma ValidPubKey_nonempty: "ValidPubKey k \<Longrightarrow> k \<noteq> ''''"
proof -
  have "DecodeString [] = Some []" by code_simp
  then show "ValidPubKey k \<Longrightarrow> k \<noteq> []" by (auto simp: ValidPubKey_def PublicKeySize_def)
qed

lemma verified_nonempty: "verified (VerifyDetached P key b sig) \<Longrightarrow> key \<noteq> []"
  using ValidPubKey_nonempty [of key] by (auto simp: VerifyDetached_iff ValidPubKey_def)

lemma check_sig_verified: "check_sig P key b sig = None \<Longrightarrow> key \<noteq> '''' \<Longrightarrow> verified (VerifyDetached P key b sig)"
  by (auto simp: check_sig_def split: sum.splits)

lemma referral_step:
  assumes "resolve_reply P udp target nonce curAddr curKey curZone m = RsNext nxt key zone" "curKey \<noteq> ''''"
  shows "m_Nonce m = nonce" "verified (VerifyDetached P curKey (ReferralBytes target (m_Zone m) (m_Endpoint m) (m_PubKey m) (m_TS m) (m_Nonce m)) (m_Sig m))"
    "Contains (m_Zone m) target" "curZone = '''' \<or> IsNarrower (m_Zone m) curZone" "key = m_PubKey m" "zone = m_Zone m" "key \<noteq> ''''"
  using assms check_sig_verified ValidPubKey_nonempty
  by (auto simp: resolve_reply_def on_referral_def split: if_splits option.splits)

text \<open>What an accepted answer satisfies.\<close>

definition backed :: "prims \<Rightarrow> (string \<Rightarrow> string option) \<Rightarrow> string \<Rightarrow> string \<Rightarrow> message \<Rightarrow> resolution \<Rightarrow> bool" where
  "backed P udp key nonce ans res \<longleftrightarrow> m_Nonce ans = nonce \<and> rs_PeerKey res = m_PubKey ans \<and> udp (m_Endpoint ans) = Some (rs_PeerAddr res) \<and>
     rs_NsPath res = m_NsPath ans \<and>
     (m_NsPath ans \<noteq> '''' \<longrightarrow> verified (VerifyDetached P key (NsPathBytes (m_Target ans) (m_NsPath ans) (m_TS ans) (m_Nonce ans)) (m_PathSig ans)))"

lemma answer_step:
  assumes "resolve_reply P udp target nonce curAddr curKey curZone m = RsDone (Inr res)" "curKey \<noteq> ''''"
  shows "trust_chain P target curKey curZone [] m \<and> backed P udp curKey nonce m res"
  using assms check_sig_verified
  by (auto simp: resolve_reply_def on_referral_def on_answer_def backed_def Let_def split: if_splits option.splits sum.splits)

fun last_key :: "string \<Rightarrow> message list \<Rightarrow> string" where
  "last_key key [] = key"
| "last_key key (m # ms) = last_key (m_PubKey m) ms"

lemma resolve_loop_trust:
  assumes "resolve_loop P R a target n hop curAddr curKey curZone = Inr res" "curKey \<noteq> ''''"
  shows "\<exists>ms ans. trust_chain P target curKey curZone ms ans \<and> length ms < n \<and> (\<forall>i < length ms. m_Nonce (ms ! i) = re_nonce R (hop + i)) \<and>
    backed P (re_udp R) (last_key curKey ms) (re_nonce R (hop + length ms)) ans res"
  using assms
proof (induction P R a target n hop curAddr curKey curZone rule: resolve_loop.induct)
  case (2 P R a target n hop curAddr curKey curZone)
  obtain m where m: "\<not> re_expired R hop" "re_ask R hop curAddr (resolve_request P (re_now R hop) (re_nonce R hop) target a) = Some m"
    using "2.prems"(1) by (auto split: if_splits option.splits)
  show ?case
  proof (cases "resolve_reply P (re_udp R) target (re_nonce R hop) curAddr curKey curZone m")
    case (RsDone r)
    then have "r = Inr res" using "2.prems"(1) m by simp
    then show ?thesis using answer_step [of P "re_udp R"] RsDone "2.prems"(2) by (intro exI [of _ "[]"] exI [of _ m]) simp
  next
    case (RsNext nxt key zone)
    note s = referral_step [OF RsNext "2.prems"(2)]
    have "resolve_loop P R a target n (hop + 1) nxt key zone = Inr res" using "2.prems"(1) m RsNext by simp
    from "2.IH" [OF m(1,2) RsNext this s(7)] obtain ms ans where ih: "trust_chain P target key zone ms ans" "length ms < n"
      "\<forall>i < length ms. m_Nonce (ms ! i) = re_nonce R (hop + 1 + i)" "backed P (re_udp R) (last_key key ms) (re_nonce R (hop + 1 + length ms)) ans res"
      by blast
    have "\<forall>i < length (m # ms). m_Nonce ((m # ms) ! i) = re_nonce R (hop + i)" using ih(3) s(1) by (auto simp: nth_Cons split: nat.splits)
    then show ?thesis using s ih by (intro exI [of _ "m # ms"] exI [of _ ans]) simp
  qed
qed simp

text \<open>C7. An accepted resolution is backed by a chain of signatures: with a registry key configured, a
  result of \<^verbatim>\<open>resolve\<close> comes from an answer signed under a key to which a chain of referrals leads, each
  signed under the key before it, for this target, for a zone that contains the target and is strictly
  narrower than the one before; every message of the chain echoes the fresh nonce of its hop; fewer
  referrals than the limit are followed, and never more than the target has labels; the peer's key,
  address and path are those of the answer, and the path is signed too. Nothing depends on who sent
  the messages or on what else was received.\<close>

theorem resolve_trust_chain:
  assumes "resolve P R a target = Inr res" "ag_registryKey a \<noteq> ''''"
  shows "\<exists>ms ans. trust_chain P target (ag_registryKey a) '''' ms ans \<and> length ms < maxReferrals \<and> length ms \<le> zone_Depth target \<and>
    (\<forall>i < length ms. m_Nonce (ms ! i) = re_nonce R i) \<and> backed P (re_udp R) (last_key (ag_registryKey a) ms) (re_nonce R (length ms)) ans res"
proof -
  obtain ms ans where "trust_chain P target (ag_registryKey a) [] ms ans" "length ms < maxReferrals"
    "\<forall>i < length ms. m_Nonce (ms ! i) = re_nonce R i" "backed P (re_udp R) (last_key (ag_registryKey a) ms) (re_nonce R (length ms)) ans res"
    using resolve_loop_trust [OF assms(1) [unfolded resolve_def] assms(2)] by auto
  moreover from this(1) have "length ms \<le> zone_Depth target" by (rule trust_chain_depth)
  ultimately show ?thesis by blast
qed

section \<open>Asking a registry\<close>

text \<open>
  One question, the agent and the registry composed: the agent registers a waiter under the nonce of the
  request, the registry at the address handles the request, its replies to this agent are delivered, and
  the waiter takes the first message of its channel, if there is one.
\<close>

definition ask_registry :: "prims \<Rightarrow> env \<Rightarrow> (addr \<Rightarrow> registry option) \<Rightarrow> addr \<Rightarrow> agent \<Rightarrow> addr \<Rightarrow> message \<Rightarrow> message option" where
  "ask_registry P E net me a to rq =
     (case net to of
        None \<Rightarrow> None
      | Some r \<Rightarrow>
          let (ch, a1) = wait (m_Nonce rq) a;
              a2 = fold (\<lambda>(dst, m) b. if dst = me then deliver m b else b) (fst (reg_handle P E me rq r)) a1
          in case ag_chans a2 ! ch of [] \<Rightarrow> None | m # _ \<Rightarrow> Some m)"

definition good_nonce :: "string \<Rightarrow> bool" where
  "good_nonce n \<longleftrightarrow> n \<noteq> '''' \<and> n \<noteq> ''|'' \<and> n \<noteq> ''ERROR|''"

lemma ask_delivers:
  assumes "net to = Some r" "fst (reg_handle P E me rq r) = [(me, m)]" "m_Nonce m = m_Nonce rq" "good_nonce (m_Nonce rq)"
  shows "ask_registry P E net me a to rq = Some m"
  using assms by (simp add: ask_registry_def wait_def deliver_def chan_push_def chanCap_def good_nonce_def)

lemma ask_error:
  assumes "net to = Some r" "fst (reg_handle P E me rq r) = [(me, errMsg info)]" "good_nonce (m_Nonce rq)" "map_of (ag_waiters a) ''ERROR|'' = None"
  shows "ask_registry P E net me a to rq = None"
  using assms by (auto simp: ask_registry_def wait_def deliver_def errMsg_def Message0_def KindError_def good_nonce_def split: option.splits)

lemma resolve_request_sel [simp]:
  "m_Kind (resolve_request P t n target a) = KindResolve" "m_Target (resolve_request P t n target a) = target"
  "m_Nonce (resolve_request P t n target a) = n"
  by (simp_all add: resolve_request_def Sign_def)

lemma delegationFor_contains: "delegationFor r n = Some d \<Longrightarrow> Contains (dg_Zone d) n"
  using best_delegation_spec [of n "rg_delegations r" None d] by (simp add: delegationFor_def)

section \<open>Through honest registries\<close>

text \<open>
  The registries on the way to a name: at each address of the chain sits a registry that signs with the
  private half of the key it is trusted by, and either has the name, fresh, or delegates it to a narrower
  zone under a valid key to an address that resolves. The last arguments are the number of questions and
  the registry that answers, with its address.
\<close>

inductive honest_chain :: "prims \<Rightarrow> time \<Rightarrow> (addr \<Rightarrow> registry option) \<Rightarrow> (string \<Rightarrow> string option) \<Rightarrow> string \<Rightarrow>
    addr \<Rightarrow> string \<Rightarrow> string \<Rightarrow> nat \<Rightarrow> addr \<Rightarrow> registry \<Rightarrow> reg_rec \<Rightarrow> bool"
  for P now net udp target where
  answers: "net addr = Some r \<Longrightarrow> ed_pair P (rg_signPriv r) pub \<Longrightarrow> key = EncodeToString pub \<Longrightarrow>
    rg_zoneName r = '''' \<or> Contains (rg_zoneName r) target \<Longrightarrow> delegationFor r target = None \<Longrightarrow>
    map_of (rg_names r) target = Some rec \<Longrightarrow> is_fresh now rec \<Longrightarrow>
    honest_chain P now net udp target addr key zone 1 addr r rec"
| refers: "net addr = Some r \<Longrightarrow> ed_pair P (rg_signPriv r) pub \<Longrightarrow> key = EncodeToString pub \<Longrightarrow>
    rg_zoneName r = '''' \<or> Contains (rg_zoneName r) target \<Longrightarrow> delegationFor r target = Some d \<Longrightarrow>
    zone = '''' \<or> IsNarrower (dg_Zone d) zone \<Longrightarrow> udp (dg_Endpoint d) = Some addr' \<Longrightarrow> ValidPubKey (dg_KeyB64 d) \<Longrightarrow>
    honest_chain P now net udp target addr' (dg_KeyB64 d) (dg_Zone d) n fin r' rec \<Longrightarrow>
    honest_chain P now net udp target addr key zone (Suc n) fin r' rec"

lemma honest_referral:
  assumes "ed_pair P (rg_signPriv r) pub" "rg_zoneName r = '''' \<or> Contains (rg_zoneName r) target" "delegationFor r target = Some d"
    "zone = '''' \<or> IsNarrower (dg_Zone d) zone" "udp (dg_Endpoint d) = Some nxt" "ValidPubKey (dg_KeyB64 d)" "m_Kind rq = KindResolve" "m_Target rq = target"
  shows "\<exists>m. fst (reg_handle P E me rq r) = [(me, m)] \<and> m_Nonce m = m_Nonce rq \<and>
    resolve_reply P udp target (m_Nonce rq) curAddr (EncodeToString pub) zone m = RsNext nxt (dg_KeyB64 d) (dg_Zone d)"
proof -
  let ?m = "referral P (ev_now E) rq d r"
  have "fst (reg_handle P E me rq r) = [(me, ?m)]" using assms by (auto simp: reg_handle_def handle_resolve_def kind_defs)
  moreover have "check_sig P (EncodeToString pub) (ReferralBytes target (m_Zone ?m) (m_Endpoint ?m) (m_PubKey ?m) (m_TS ?m) (m_Nonce ?m)) (m_Sig ?m) = None"
    using Verify_SignDetached [OF assms(1)] assms(8) by (simp add: check_sig_def referral_def Let_def)
  then have "resolve_reply P udp target (m_Nonce rq) curAddr (EncodeToString pub) zone ?m = RsNext nxt (dg_KeyB64 d) (dg_Zone d)"
    using assms delegationFor_contains [OF assms(3)] by (simp add: resolve_reply_def on_referral_def) (simp add: referral_def Let_def kind_defs)
  ultimately show ?thesis by (simp add: referral_def Let_def)
qed

lemma honest_answer:
  assumes "ed_pair P (rg_signPriv r) pub" "rg_zoneName r = '''' \<or> Contains (rg_zoneName r) (m_Target rq)" "delegationFor r (m_Target rq) = None"
    "map_of (rg_names r) (m_Target rq) = Some rec" "is_fresh (ev_now E) rec" "udp (the (rr_Endpoint rec)) = Some peer" "m_Kind rq = KindResolve"
  shows "\<exists>m. fst (reg_handle P E me rq r) = [(me, m)] \<and> m_Nonce m = m_Nonce rq \<and>
    resolve_reply P udp target (m_Nonce rq) curAddr (EncodeToString pub) zone m =
      RsDone (Inr \<lparr>rs_PeerKey = rr_PubB64 rec, rs_PeerAddr = peer, rs_Registry = curAddr, rs_NsPath = pathFor r (m_Target rq)\<rparr>)"
proof -
  let ?m = "resolve_resp P (ev_now E) rq rec r"
  have sel: "m_Kind ?m = KindResolveResp" "m_Nonce ?m = m_Nonce rq" "m_Target ?m = m_Target rq" "m_PubKey ?m = rr_PubB64 rec"
    "m_Endpoint ?m = the (rr_Endpoint rec)" "m_NsPath ?m = pathFor r (m_Target rq)"
    by (simp_all add: resolve_resp_def Let_def Message0_def)
  have h: "fst (reg_handle P E me rq r) = [(me, ?m)]" using assms by (auto simp: reg_handle_def handle_resolve_def kind_defs)
  have sig: "verified (VerifyDetached P (EncodeToString pub) (ResolveRespBytes (m_Target rq) (rr_PubB64 rec) (the (rr_Endpoint rec)) (m_TS ?m) (m_Nonce rq)) (m_Sig ?m))"
    using Verify_SignDetached [OF assms(1)] by (simp add: resolve_resp_def Let_def)
  have path: "pathFor r (m_Target rq) \<noteq> [] \<Longrightarrow>
      verified (VerifyDetached P (EncodeToString pub) (NsPathBytes (m_Target rq) (pathFor r (m_Target rq)) (m_TS ?m) (m_Nonce rq)) (m_PathSig ?m))"
    using Verify_SignDetached [OF assms(1)] by (simp add: resolve_resp_def Let_def)
  have "on_answer P udp (m_Nonce rq) curAddr (EncodeToString pub) ?m =
      Inr \<lparr>rs_PeerKey = rr_PubB64 rec, rs_PeerAddr = peer, rs_Registry = curAddr, rs_NsPath = pathFor r (m_Target rq)\<rparr>"
    using sig path assms(6) verified_nonempty [OF sig] by (simp add: on_answer_def sel check_sig_def Let_def)
  then show ?thesis using h sel(1,2) by (simp add: resolve_reply_def kind_defs)
qed

text \<open>The environment of a resolution whose questions reach honest registries in time.\<close>

definition honest_env :: "prims \<Rightarrow> env \<Rightarrow> (addr \<Rightarrow> registry option) \<Rightarrow> addr \<Rightarrow> agent \<Rightarrow> resolver_env \<Rightarrow> bool" where
  "honest_env P E net me a R \<longleftrightarrow> (\<forall>hop. \<not> re_expired R hop \<and> good_nonce (re_nonce R hop)) \<and>
     re_ask R = (\<lambda>hop to rq. ask_registry P E net me a to rq)"

lemma honest_loop:
  assumes "honest_chain P (ev_now E) net (re_udp R) target addr key zone n fin r rec" "honest_env P E net me a R"
    "re_udp R (the (rr_Endpoint rec)) = Some peer" "n \<le> fuel"
  shows "resolve_loop P R a target fuel hop addr key zone =
    Inr \<lparr>rs_PeerKey = rr_PubB64 rec, rs_PeerAddr = peer, rs_Registry = fin, rs_NsPath = pathFor r target\<rparr>"
  using assms
proof (induction arbitrary: fuel hop rule: honest_chain.induct)
  case (answers addr r pub key rec zone)
  let ?rq = "resolve_request P (re_now R hop) (re_nonce R hop) target a"
  obtain m where m: "fst (reg_handle P E me ?rq r) = [(me, m)]" "m_Nonce m = m_Nonce ?rq"
    "resolve_reply P (re_udp R) target (m_Nonce ?rq) addr key zone m =
      RsDone (Inr \<lparr>rs_PeerKey = rr_PubB64 rec, rs_PeerAddr = peer, rs_Registry = addr, rs_NsPath = pathFor r target\<rparr>)"
    using honest_answer [of P r pub ?rq rec E "re_udp R" peer me target addr zone] answers by auto
  have "re_ask R hop addr ?rq = Some m" using ask_delivers [where net = net, OF answers.hyps(1) m(1,2)] answers.prems(1) by (simp add: honest_env_def)
  then show ?case using m(3) answers.prems by (cases fuel) (simp_all add: honest_env_def)
next
  case (refers addr r pub key d zone addr' n fin r' rec)
  let ?rq = "resolve_request P (re_now R hop) (re_nonce R hop) target a"
  obtain m where m: "fst (reg_handle P E me ?rq r) = [(me, m)]" "m_Nonce m = m_Nonce ?rq"
    "resolve_reply P (re_udp R) target (m_Nonce ?rq) addr key zone m = RsNext addr' (dg_KeyB64 d) (dg_Zone d)"
    using honest_referral [of P r pub target d zone "re_udp R" addr' ?rq E me addr] refers by auto
  have "re_ask R hop addr ?rq = Some m" using ask_delivers [where net = net, OF refers.hyps(1) m(1,2)] refers.prems(1) by (simp add: honest_env_def)
  then show ?case using m(3) refers.prems refers.IH by (cases fuel) (simp_all add: honest_env_def)
qed

text \<open>C8. Honest registries lead to the owner: when the registries on the way to a name sign with the keys
  they are trusted by, delegate narrowing zones and the last one has the name, fresh, then a resolution
  whose messages arrive in time returns the key that registry has bound to the name, the endpoint it
  observed, its own address for the introduction, and the path it allocated; up to eight registries are
  asked.\<close>

theorem resolve_through_honest_registries:
  assumes "honest_chain P (ev_now E) net (re_udp R) target (ag_regAddr a) (ag_registryKey a) '''' n fin r rec" "n \<le> 8"
    and "honest_env P E net me a R" "re_udp R (the (rr_Endpoint rec)) = Some peer"
  shows "resolve P R a target = Inr \<lparr>rs_PeerKey = rr_PubB64 rec, rs_PeerAddr = peer, rs_Registry = fin, rs_NsPath = pathFor r target\<rparr> \<and>
    owner r target = Some (rr_PubB64 rec)"
proof -
  have "map_of (rg_names r) target = Some rec" using assms(1) by induction simp_all
  then show ?thesis using honest_loop [OF assms(1,3,4), of maxReferrals 0] assms(2) by (simp add: resolve_def maxReferrals_def owner_def)
qed

definition ex_node :: agent where
  "ex_node = newAgent \<lparr>id_Name = ''a.z'', id_Registry = ''r'', id_PubB64 = ex_pub 5, id_PrivB64 = ''''\<rparr> (ex_key 5) ''9.9.9.9:9'' [] (ex_pub 9)"

definition ex_child :: registry where
  "ex_child = ex_reg\<lparr>rg_names := [(''n.d.z'', \<lparr>rr_PubB64 = ex_pub 4, rr_Endpoint = Some ''10.0.0.2:9'', rr_LastSeen = 0\<rparr>),
     (''evil.d.z'', \<lparr>rr_PubB64 = ex_pub 3, rr_Endpoint = Some ''10.0.0.3:9'', rr_LastSeen = 0\<rparr>)],
     rg_signPriv := ex_key 7, rg_zoneName := ''d.z'', rg_delegations := [], rg_nids := None\<rparr>"

definition ex_net :: "addr \<Rightarrow> registry option" where
  "ex_net to = (if to = ''9.9.9.9:9'' then Some ex_reg else if to = ''10.0.0.9:1'' then Some ex_child else None)"

definition ex_renv :: resolver_env where
  "ex_renv = \<lparr>re_expired = (\<lambda>_. False), re_now = (\<lambda>_. 0), re_nonce = (\<lambda>_. ''q''), re_udp = Some,
     re_ask = (\<lambda>hop to rq. ask_registry toy ex_env ex_net ''5.5.5.5:5'' ex_node to rq)\<rparr>"

lemma ex_fresh_rec: "is_fresh 0 \<lparr>rr_PubB64 = k, rr_Endpoint = Some e, rr_LastSeen = 0\<rparr>"
  by (simp add: is_fresh_def Time_Sub_def staleAfter_def Second_def minDuration_def maxDuration_def)

lemma ex_node_sel [simp]: "ag_regAddr ex_node = ''9.9.9.9:9''" "ag_registryKey ex_node = ex_pub 9" "ag_waiters ex_node = []"
  by (simp_all add: ex_node_def newAgent_def)

lemma ex_child_names:
  "map_of (rg_names ex_child) ''n.d.z'' = Some \<lparr>rr_PubB64 = ex_pub 4, rr_Endpoint = Some ''10.0.0.2:9'', rr_LastSeen = 0\<rparr>"
  "map_of (rg_names ex_child) ''evil.d.z'' = Some \<lparr>rr_PubB64 = ex_pub 3, rr_Endpoint = Some ''10.0.0.3:9'', rr_LastSeen = 0\<rparr>"
  "rg_zoneName ex_child = ''d.z''" "rg_signPriv ex_child = ex_key 7" "delegationFor ex_child n = None"
  by (simp_all add: ex_child_def delegationFor_def)

lemma ex_honest_env: "honest_env toy ex_env ex_net ''5.5.5.5:5'' ex_node ex_renv"
  by (simp add: honest_env_def ex_renv_def good_nonce_def)

lemma ex_chain:
  "honest_chain toy (ev_now ex_env) ex_net (re_udp ex_renv) ''n.d.z'' (ag_regAddr ex_node) (ag_registryKey ex_node) [] 2 ''10.0.0.9:1'' ex_child
     \<lparr>rr_PubB64 = ex_pub 4, rr_Endpoint = Some ''10.0.0.2:9'', rr_LastSeen = 0\<rparr>" (is "honest_chain _ _ _ _ _ _ _ _ _ _ _ ?rec")
proof -
  have c: "Contains ''z'' ''n.d.z''" "Contains ''d.z'' ''n.d.z''" by code_simp+
  have net: "ex_net ''10.0.0.9:1'' = Some ex_child" "ex_net ''9.9.9.9:9'' = Some ex_reg" by (simp_all add: ex_net_def)
  have "honest_chain toy 0 ex_net Some ''n.d.z'' ''10.0.0.9:1'' (ex_pub 7) ''d.z'' 1 ''10.0.0.9:1'' ex_child ?rec"
    by (rule honest_chain.answers [where pub = "ex_key 7"]) (use net c ex_key_pair ex_child_names ex_fresh_rec in \<open>simp_all add: ex_pub_def\<close>)
  moreover have "delegationFor ex_reg ''n.d.z'' = Some ex_del" using c by (simp add: delegationFor_def ex_reg_def ex_del_def)
  ultimately have "honest_chain toy 0 ex_net Some ''n.d.z'' ''9.9.9.9:9'' (ex_pub 9) [] (Suc 1) ''10.0.0.9:1'' ex_child ?rec"
    by (intro honest_chain.refers [where pub = "ex_key 9" and r = ex_reg and d = ex_del and addr' = "''10.0.0.9:1''"])
       (use net c ex_key_pair [of 9] ex_pub_valid in \<open>simp_all add: ex_pub_def ex_del_def ex_reg_def\<close>)
  then show ?thesis by (simp add: ex_env_def ex_renv_def numeral_2_eq_2)
qed

theorem resolve_through_honest_registries_witness:
  "resolve toy ex_renv ex_node ''n.d.z'' =
     Inr \<lparr>rs_PeerKey = ex_pub 4, rs_PeerAddr = ''10.0.0.2:9'', rs_Registry = ''10.0.0.9:1'', rs_NsPath = pathFor ex_child ''n.d.z''\<rparr>"
  using resolve_through_honest_registries [OF ex_chain _ ex_honest_env] by (simp add: ex_renv_def)

theorem resolve_trust_chain_witness:
  "\<exists>ms ans. trust_chain toy ''n.d.z'' (ex_pub 9) [] ms ans \<and> length ms \<le> 3 \<and> m_PubKey ans = ex_pub 4"
proof -
  have d: "zone_Depth ''n.d.z'' = 3" by code_simp
  have k: "ag_registryKey ex_node \<noteq> []" using ValidPubKey_nonempty [OF ex_pub_valid] by simp
  have "resolve toy ex_renv ex_node ''n.d.z'' =
      Inr \<lparr>rs_PeerKey = ex_pub 4, rs_PeerAddr = ''10.0.0.2:9'', rs_Registry = ''10.0.0.9:1'', rs_NsPath = pathFor ex_child ''n.d.z''\<rparr>"
    using honest_loop [OF ex_chain ex_honest_env, of "''10.0.0.2:9''" maxReferrals 0] by (simp add: resolve_def maxReferrals_def ex_renv_def)
  from resolve_trust_chain [OF this k] show ?thesis unfolding d backed_def ex_node_sel by (metis resolution.select_convs(1))
qed


section \<open>What the resolver does not check\<close>

text \<open>C21. An answer about another name is accepted: the resolver checks the signature over the name in the
  answer but never compares that name with the one it asked for, and requests carry nothing that a
  registry verifies. Someone who can change a request in flight replaces the name in it by one of his
  own; the honest registry signs its answer, and the resolver takes his key and address for the target,
  whatever the target is, with the registry key configured.\<close>

theorem resolve_key_substitution:
  assumes "net (ag_regAddr a) = Some r" "ed_pair P (rg_signPriv r) pub" "ag_registryKey a = EncodeToString pub"
    and evil: "rg_zoneName r = '''' \<or> Contains (rg_zoneName r) evil" "delegationFor r evil = None" "map_of (rg_names r) evil = Some rec"
      "is_fresh (ev_now E) rec" "re_udp R (the (rr_Endpoint rec)) = Some peer"
    and "\<not> re_expired R 0" "good_nonce (re_nonce R 0)"
    and attack: "re_ask R 0 = (\<lambda>to rq. ask_registry P E net me a to (rq\<lparr>m_Target := evil\<rparr>))"
  shows "\<exists>res. resolve P R a target = Inr res \<and> rs_PeerKey res = rr_PubB64 rec \<and> rs_PeerAddr res = peer"
proof -
  let ?q = "resolve_request P (re_now R 0) (re_nonce R 0) target a"
  let ?rq = "?q\<lparr>m_Target := evil\<rparr>"
  have sel: "m_Kind ?rq = KindResolve" "m_Nonce ?rq = re_nonce R 0" "m_Target ?rq = evil" by simp_all
  obtain m where m: "fst (reg_handle P E me ?rq r) = [(me, m)]" "m_Nonce m = m_Nonce ?rq"
    "resolve_reply P (re_udp R) target (m_Nonce ?rq) (ag_regAddr a) (ag_registryKey a) [] m =
      RsDone (Inr \<lparr>rs_PeerKey = rr_PubB64 rec, rs_PeerAddr = peer, rs_Registry = ag_regAddr a, rs_NsPath = pathFor r evil\<rparr>)"
    using honest_answer [OF assms(2), of ?rq rec E "re_udp R" peer me target "ag_regAddr a" "[]"] evil assms(3) sel by metis
  have "re_ask R 0 (ag_regAddr a) ?q = Some m"
    using ask_delivers [where net = net, OF assms(1) m(1,2)] assms(10) sel(2) unfolding attack by simp
  then show ?thesis using m(3) assms(9) sel(2) by (simp add: resolve_def maxReferrals_def numeral_eq_Suc)
qed

definition ex_attack :: resolver_env where
  "ex_attack = ex_renv\<lparr>re_ask := (\<lambda>hop to rq. ask_registry toy ex_env ex_net ''5.5.5.5:5'' (ex_node\<lparr>ag_regAddr := ''10.0.0.9:1'', ag_registryKey := ex_pub 7\<rparr>) to
     (rq\<lparr>m_Target := ''evil.d.z''\<rparr>))\<rparr>"

theorem resolve_key_substitution_witness:
  "\<exists>res. resolve toy ex_attack (ex_node\<lparr>ag_regAddr := ''10.0.0.9:1'', ag_registryKey := ex_pub 7\<rparr>) ''n.d.z'' = Inr res \<and>
     owner ex_child ''n.d.z'' = Some (ex_pub 4) \<and> rs_PeerKey res = ex_pub 3"
proof -
  let ?a = "ex_node\<lparr>ag_regAddr := ''10.0.0.9:1'', ag_registryKey := ex_pub 7\<rparr>"
  have "Contains ''d.z'' ''evil.d.z''" by code_simp
  then have "\<exists>res. resolve toy ex_attack ?a ''n.d.z'' = Inr res \<and> rs_PeerKey res = ex_pub 3 \<and> rs_PeerAddr res = ''10.0.0.3:9''"
    using resolve_key_substitution [of ex_net ?a ex_child toy "ex_key 7" "''evil.d.z''" "\<lparr>rr_PubB64 = ex_pub 3, rr_Endpoint = Some ''10.0.0.3:9'', rr_LastSeen = 0\<rparr>"
        ex_env ex_attack "''10.0.0.3:9''" "''5.5.5.5:5''" "''n.d.z''"] ex_child_names ex_key_pair [of 7] ex_fresh_rec
    by (simp add: ex_net_def ex_pub_def ex_env_def ex_attack_def ex_renv_def good_nonce_def)
  then show ?thesis by (auto simp: owner_def ex_child_names)
qed

text \<open>The errors of a registry never reach the caller: an error carries neither the nonce nor the target
  of the request, so the agent finds no waiter for it. A name the registry does not know is answered at
  once with an explanation, yet the resolution waits for its whole timeout and reports that the registry
  could not be reached.\<close>

theorem registry_errors_not_delivered:
  assumes "net (ag_regAddr a) = Some r" "rg_zoneName r = '''' \<or> Contains (rg_zoneName r) target" "delegationFor r target = None"
    and "map_of (rg_names r) target = None" "honest_env P E net me a R" "map_of (ag_waiters a) ''ERROR|'' = None"
  shows "fst (reg_handle P E me (resolve_request P (re_now R 0) (re_nonce R 0) target a) r) = [(me, errMsg (''unknown or offline: '' @ target))] \<and>
    resolve P R a target = Inl RsUnreachable"
proof -
  let ?q = "resolve_request P (re_now R 0) (re_nonce R 0) target a"
  have e: "fst (reg_handle P E me ?q r) = [(me, errMsg (''unknown or offline: '' @ target))]"
    using assms(2-4) by (auto simp: reg_handle_def handle_resolve_def kind_defs)
  have "re_ask R 0 (ag_regAddr a) ?q = None"
    using ask_error [where net = net, OF assms(1) e _ assms(6)] assms(5) by (simp add: honest_env_def)
  then show ?thesis using e assms(5) by (simp add: resolve_def maxReferrals_def numeral_eq_Suc honest_env_def)
qed

theorem registry_errors_not_delivered_witness: "resolve toy ex_renv ex_node ''gone.z'' = Inl RsUnreachable"
proof -
  have "Contains ''z'' ''gone.z''" "\<not> Contains ''d.z'' ''gone.z''" by code_simp+
  then have "delegationFor ex_reg ''gone.z'' = None" "rg_zoneName ex_reg = [] \<or> Contains (rg_zoneName ex_reg) ''gone.z''" "map_of (rg_names ex_reg) ''gone.z'' = None"
    by (simp_all add: delegationFor_def ex_reg_def)
  then show ?thesis
    using registry_errors_not_delivered [of ex_net ex_node ex_reg "''gone.z''" toy ex_env "''5.5.5.5:5''" ex_renv] ex_honest_env by (simp add: ex_net_def)
qed

end
