(* ===== verification/Go_Url.thy ===== *)
theory Go_Url
  imports Json_Struct
begin

text \<open>
  The parts of Go's \<^verbatim>\<open>net/url\<close> and \<^verbatim>\<open>fmt\<close> packages between the command line client and the control API of the agent:
  \<^verbatim>\<open>QueryEscape\<close>, the parsing of a query string, and \<^verbatim>\<open>Sscanf\<close> with the verb \<^verbatim>\<open>%d\<close> into an \<^verbatim>\<open>int\<close>.
\<close>

section \<open>Query strings\<close>

definition is_alnum :: "char \<Rightarrow> bool" where
  "is_alnum c \<longleftrightarrow> (let n = byte c in 48 \<le> n \<and> n \<le> 57 \<or> 65 \<le> n \<and> n \<le> 90 \<or> 97 \<le> n \<and> n \<le> 122)"

definition unreserved :: "char \<Rightarrow> bool" where
  "unreserved c \<longleftrightarrow> is_alnum c \<or> c \<in> {CHR ''-'', CHR ''_'', CHR ''.'', CHR ''~''}"

definition upper_hex :: "nat \<Rightarrow> char" where
  "upper_hex n = (if n < 10 then char_of (48 + n) else char_of (55 + n))"

definition QueryEscape :: "string \<Rightarrow> string" where
  "QueryEscape s = concat (map (\<lambda>c. if unreserved c then [c] else if c = CHR '' '' then ''+''
     else [CHR ''%'', upper_hex (byte c div 16), upper_hex (byte c mod 16)]) s)"

fun QueryUnescape :: "string \<Rightarrow> string option" where
  "QueryUnescape [] = Some []"
| "QueryUnescape (c # s) =
     (if c = CHR ''%'' then
        (case s of
           a # b # r \<Rightarrow>
             (case (hex_val a, hex_val b) of
                (Some x, Some y) \<Rightarrow> map_option (Cons (char_of (x * 16 + y))) (QueryUnescape r)
              | _ \<Rightarrow> None)
         | _ \<Rightarrow> None)
      else if c = CHR ''+'' then map_option (Cons (CHR '' '')) (QueryUnescape s)
      else map_option (Cons c) (QueryUnescape s))"

text \<open>\<^verbatim>\<open>strings.Cut\<close> at the first occurrence of a byte.\<close>

definition Cut :: "char \<Rightarrow> string \<Rightarrow> string \<times> string" where
  "Cut d s = (takeWhile (\<lambda>c. c \<noteq> d) s, drop 1 (dropWhile (\<lambda>c. c \<noteq> d) s))"

text \<open>One part of a query: parts with a semicolon or a bad escape are dropped, as \<^verbatim>\<open>URL.Query\<close> drops them.\<close>

definition parse_pair :: "string \<Rightarrow> (string \<times> string) list" where
  "parse_pair w =
     (if CHR '';'' \<in> set w \<or> w = [] then []
      else case Cut (CHR ''='') w of
             (k, v) \<Rightarrow> (case (QueryUnescape k, QueryUnescape v) of (Some k', Some v') \<Rightarrow> [(k', v')] | _ \<Rightarrow> []))"

definition ParseQuery :: "string \<Rightarrow> (string \<times> string) list" where
  "ParseQuery q = concat (map parse_pair (Split (CHR ''&'') q))"

definition query_get :: "string \<Rightarrow> (string \<times> string) list \<Rightarrow> string" where
  "query_get k vs = (case map_of vs k of Some v \<Rightarrow> v | None \<Rightarrow> '''')"

section \<open>Scanning integers\<close>

text \<open>The verb \<^verbatim>\<open>%d\<close>: blanks, an optional sign, digits; the value must fit 64 bits. What follows is left.\<close>

definition scan_d :: "string \<Rightarrow> (int \<times> string) option" where
  "scan_d s =
     (let t = dropWhile (\<lambda>c. is_space c \<and> c \<noteq> CHR 0x0A) s;
          (sg, u) = (case t of c # r \<Rightarrow> if c \<in> {CHR ''+'', CHR ''-''} then ([c], r) else ([], t) | [] \<Rightarrow> ([], t));
          ds = takeWhile is_digit u
      in if ds = [] then None
         else map_option (\<lambda>i. (i, dropWhile is_digit u)) (ParseInt 64 (sg @ ds)))"

section \<open>Facts\<close>

lemma hex_val_upper: "n < 16 \<Longrightarrow> hex_val (upper_hex n) = Some n"
  by (auto simp: hex_val_def upper_hex_def byte_char_of Let_def)

lemma byte_less: "byte c < 256"
  using of_char_less_256 by (simp add: byte_def)

lemma unescape_char:
  "QueryUnescape ((if unreserved c then [c] else if c = CHR '' '' then ''+'' else [CHR ''%'', upper_hex (byte c div 16), upper_hex (byte c mod 16)]) @ s) =
     map_option (Cons c) (QueryUnescape s)"
proof -
  have h: "hex_val (upper_hex (byte c div 16)) = Some (byte c div 16)" "hex_val (upper_hex (byte c mod 16)) = Some (byte c mod 16)"
    using byte_less [of c] by (auto intro!: hex_val_upper)
  have "c \<noteq> CHR ''%''" "c \<noteq> CHR ''+''" if "unreserved c" using that by (auto simp: unreserved_def is_alnum_def)
  then show ?thesis using h by simp
qed

lemma unescape_escape: "QueryUnescape (QueryEscape s) = Some s"
proof (induction s)
  case (Cons c s)
  then show ?case using unescape_char [of c "QueryEscape s"] by (simp add: QueryEscape_def)
qed (simp add: QueryEscape_def)

lemma upper_hex_alnum: "n < 16 \<Longrightarrow> is_alnum (upper_hex n)"
  by (auto simp: is_alnum_def upper_hex_def byte_char_of Let_def)

lemma escape_chars: "c \<in> set (QueryEscape s) \<Longrightarrow> unreserved c \<or> c = CHR ''+'' \<or> c = CHR ''%''"
proof -
  have "is_alnum (upper_hex (byte d div 16))" "is_alnum (upper_hex (byte d mod 16))" for d
    using byte_less [of d] by (auto intro!: upper_hex_alnum)
  then show "c \<in> set (QueryEscape s) \<Longrightarrow> ?thesis"
    by (auto simp: QueryEscape_def unreserved_def split: if_splits)
qed

lemma escape_no_sep:
  "CHR ''&'' \<notin> set (QueryEscape s)" "CHR ''='' \<notin> set (QueryEscape s)" "CHR '';'' \<notin> set (QueryEscape s)" "CHR ''?'' \<notin> set (QueryEscape s)"
  by (auto dest!: escape_chars simp: unreserved_def is_alnum_def)

lemma Cut_append: "d \<notin> set k \<Longrightarrow> Cut d (k @ d # v) = (k, v)"
  by (induction k) (auto simp: Cut_def)

lemma QueryUnescape_plain: "\<forall>c \<in> set s. c \<noteq> CHR ''%'' \<and> c \<noteq> CHR ''+'' \<Longrightarrow> QueryUnescape s = Some s"
  by (induction s rule: QueryUnescape.induct) auto

lemma parse_pair_escape:
  assumes "\<forall>c \<in> set k. is_alnum c"
  shows "parse_pair (k @ ''='' @ QueryEscape v) = [(k, v)]"
proof -
  have "CHR ''='' \<notin> set k" "CHR '';'' \<notin> set k" "\<forall>c \<in> set k. c \<noteq> CHR ''%'' \<and> c \<noteq> CHR ''+''"
    using assms by (auto simp: is_alnum_def)
  then show ?thesis using escape_no_sep [of v] by (simp add: parse_pair_def Cut_append QueryUnescape_plain unescape_escape)
qed

lemma escape_plain: "\<forall>c \<in> set s. unreserved c \<Longrightarrow> QueryEscape s = s"
  by (induction s) (auto simp: QueryEscape_def)

lemma unreserved_digit: "is_digit c \<Longrightarrow> unreserved c"
  by (simp add: unreserved_def is_alnum_def is_digit_def byte_def Let_def)

lemma escape_show_int: "QueryEscape (show_int i) = show_int i"
  using show_nat_digits unreserved_digit by (intro escape_plain) (auto simp: show_int_def unreserved_def)

lemma scan_d_show:
  assumes "fits 64 i" "r = [] \<or> \<not> is_digit (hd r)"
  shows "scan_d (show_int i @ r) = Some (i, r)"
proof -
  have tw: "takeWhile is_digit (show_nat n @ r) = show_nat n" "dropWhile is_digit (show_nat n @ r) = r" for n
    using show_nat_digits [of n] assms(2) by (cases r; simp add: takeWhile_append2 dropWhile_append2)+
  have p: "ParseInt 64 (show_int i) = Some i" using ParseInt_show [OF assms(1)] by simp
  show ?thesis
  proof (cases "i < 0")
    case True
    then show ?thesis using p tw by (simp add: scan_d_def show_int_def is_space_def Let_def)
  next
    case False
    obtain c t where c: "show_nat (nat i) = c # t" using show_nat_ne_Nil by (meson neq_Nil_conv)
    have d: "is_digit c" using show_nat_digits [of "nat i"] c by simp
    then have "\<not> is_space c" "c \<noteq> CHR ''+''" "c \<noteq> CHR ''-''" using is_digit_distinct [of c] by (auto simp: is_digit_def)
    then show ?thesis using p tw [of "nat i"] False c by (simp add: scan_d_def show_int_def Let_def)
  qed
qed

end
