(* ===== verification/Go_Rfc3339.thy ===== *)
theory Go_Rfc3339
  imports Go_Time Go_Text
begin

text \<open>
  Times in JSON: \<^verbatim>\<open>MarshalJSON\<close> and \<^verbatim>\<open>UnmarshalJSON\<close> of \<^verbatim>\<open>time.Time\<close>, which write and read RFC 3339 with nanoseconds. The
  offset of the local zone from UTC, in minutes, is an argument; it changes what is written but not the
  instant. Reading follows the parser for well-formed texts; the few other forms that Go accepts after it
  (an hour of one digit, a comma before the fraction) are refused here.
\<close>

section \<open>The calendar\<close>

definition leap :: "nat \<Rightarrow> bool" where
  "leap y \<longleftrightarrow> y mod 4 = 0 \<and> (y mod 100 \<noteq> 0 \<or> y mod 400 = 0)"

definition ceil_div :: "nat \<Rightarrow> nat \<Rightarrow> nat" where
  "ceil_div y k = (y + (k - 1)) div k"

text \<open>The number of days from the first of January of the year 0 to that of year \<open>y\<close>.\<close>

definition days_before :: "nat \<Rightarrow> nat" where
  "days_before y = 365 * y + ceil_div y 4 + ceil_div y 400 - ceil_div y 100"

definition month_lengths :: "nat \<Rightarrow> nat list" where
  "month_lengths y = [31, if leap y then 29 else 28, 31, 30, 31, 30, 31, 31, 30, 31, 30, 31]"

lemma ceil_div_step: "0 < k \<Longrightarrow> ceil_div (y + 1) k = ceil_div y k + (if y mod k = 0 then 1 else 0)"
proof -
  assume k: "0 < k"
  have c: "ceil_div x k = x div k + (if x mod k = 0 then 0 else 1)" for x
  proof -
    define r where "r = x mod k"
    have "x + (k - 1) = (r + (k - 1)) + x div k * k" using div_mult_mod_eq [of x k] unfolding r_def by linarith
    then have "(x + (k - 1)) div k = x div k + (r + (k - 1)) div k" using k div_mult_self1 [of k "r + (k - 1)" "x div k"] by (simp only:)
    moreover have "(r + (k - 1)) div k = (if r = 0 then 0 else 1)"
    proof (cases r)
      case (Suc q)
      then have "r + (k - 1) = q + k" "q < k" using k mod_less_divisor [OF k, of x] by (simp_all add: r_def)
      then show ?thesis using k Suc by (simp add: div_add_self2)
    qed (use k in simp)
    ultimately show ?thesis by (simp add: ceil_div_def r_def)
  qed
  have "(y + 1) div k = y div k + (if (y + 1) mod k = 0 then 1 else 0)" by (simp add: div_Suc)
  then show ?thesis unfolding c by simp
qed

lemma ceil_div_le: "0 < k \<Longrightarrow> ceil_div y k \<le> y"
  by (induction y) (auto simp: ceil_div_step [of k, simplified] simp: ceil_div_def [of 0])

lemma days_before_Suc: "days_before (y + 1) = days_before y + (if leap y then 366 else 365)"
proof -
  have b: "ceil_div y 100 \<le> y" "ceil_div (y + 1) 100 \<le> y + 1" by (rule ceil_div_le, simp)+
  have m: "y mod 100 = 0 \<Longrightarrow> y mod 4 = 0" "y mod 400 = 0 \<Longrightarrow> y mod 100 = 0"
    using dvd_trans [of 4 100 y] dvd_trans [of 100 400 y] by (simp_all add: dvd_eq_mod_eq_0)
  show ?thesis using b m ceil_div_step [of 4 y] ceil_div_step [of 100 y] ceil_div_step [of 400 y]
    by (auto simp: days_before_def leap_def split: if_splits)
qed

lemma days_before_0 [simp]: "days_before 0 = 0"
  by (simp add: days_before_def ceil_div_def)

lemma days_before_bounds: "y \<le> days_before y" "days_before y \<le> 366 * y"
  by (induction y) (auto simp: days_before_Suc [simplified])

lemma sum_month_lengths: "sum_list (month_lengths y) = days_before (y + 1) - days_before y"
  by (simp add: days_before_Suc [simplified] month_lengths_def)

function year_from :: "nat \<Rightarrow> nat \<Rightarrow> nat" where
  "year_from y d = (if days_before (y + 1) \<le> d then year_from (y + 1) d else y)"
  by pat_completeness auto
termination
proof (relation "measure (\<lambda>(y, d). d - y)", goal_cases)
  case (2 y d)
  then show ?case using days_before_bounds(1) [of "y + 1"] by simp
qed simp

declare year_from.simps [simp del]

fun month_day :: "nat list \<Rightarrow> nat \<Rightarrow> nat \<Rightarrow> nat \<times> nat" where
  "month_day [] m d = (m, d)"
| "month_day (l # ls) m d = (if d < l then (m, d) else month_day ls (m + 1) (d - l))"

text \<open>A day counted from the first of January of the year 0, as year, month and day of the month, and back.\<close>

definition civil :: "nat \<Rightarrow> nat \<times> nat \<times> nat" where
  "civil n =
     (let y = year_from (n div 366) n;
          (m, d) = month_day (month_lengths y) 1 (n - days_before y)
      in (y, m, d + 1))"

definition of_civil :: "nat \<Rightarrow> nat \<Rightarrow> nat \<Rightarrow> nat" where
  "of_civil y m d = days_before y + sum_list (take (m - 1) (month_lengths y)) + (d - 1)"

lemma year_from_ok: "days_before y \<le> d \<Longrightarrow> days_before (year_from y d) \<le> d \<and> d < days_before (year_from y d + 1)"
proof (induction y d rule: year_from.induct)
  case (1 y d)
  then show ?case by (cases "days_before (y + 1) \<le> d") (simp_all add: year_from.simps [of y d])
qed

lemma month_day_ok:
  "d < sum_list ls \<Longrightarrow> month_day ls m d = (m', d') \<Longrightarrow>
     m \<le> m' \<and> m' < m + length ls \<and> d' < ls ! (m' - m) \<and> sum_list (take (m' - m) ls) + d' = d"
proof (induction ls m d rule: month_day.induct)
  case (2 l ls m d)
  show ?case
  proof (cases "d < l")
    case False
    then have h: "m + 1 \<le> m'" "m' < m + 1 + length ls" "d' < ls ! (m' - (m + 1))" "sum_list (take (m' - (m + 1)) ls) + d' = d - l"
      using 2 by auto
    then have "m' - m = Suc (m' - (m + 1))" by simp
    then show ?thesis using h False by simp
  qed (use 2 in auto)
qed simp

lemma civil_ok:
  assumes "civil n = (y, m, d)"
  shows "of_civil y m d = n" "1 \<le> m" "m \<le> 12" "1 \<le> d" "d \<le> month_lengths y ! (m - 1)" "days_before y \<le> n"
proof -
  define z where "z = year_from (n div 366) n"
  have z: "days_before z \<le> n" "n < days_before (z + 1)"
    using year_from_ok [of "n div 366" n] days_before_bounds(2) [of "n div 366"] by (simp_all add: z_def)
  obtain m' d' where md: "month_day (month_lengths z) 1 (n - days_before z) = (m', d')" by fastforce
  have "n - days_before z < sum_list (month_lengths z)" using z by (simp add: sum_month_lengths)
  from month_day_ok [OF this md] have ok: "1 \<le> m'" "m' < 13" "d' < month_lengths z ! (m' - 1)"
    "sum_list (take (m' - 1) (month_lengths z)) + d' = n - days_before z" by (auto simp: month_lengths_def)
  have "y = z" "m = m'" "d = d' + 1" using assms md by (simp_all add: civil_def z_def [symmetric])
  then show "of_civil y m d = n" "1 \<le> m" "m \<le> 12" "1 \<le> d" "d \<le> month_lengths y ! (m - 1)" "days_before y \<le> n"
    using ok z(1) by (simp_all add: of_civil_def)
qed

section \<open>Digits\<close>

text \<open>Numbers of fixed width, and a fraction without its trailing zeros.\<close>

fun pad :: "nat \<Rightarrow> nat \<Rightarrow> string" where
  "pad 0 n = []"
| "pad (Suc w) n = pad w (n div 10) @ [digit_char (n mod 10)]"

definition trim_zeros :: "string \<Rightarrow> string" where
  "trim_zeros s = rev (dropWhile (\<lambda>c. c = CHR ''0'') (rev s))"

text \<open>\<^verbatim>\<open>parseUint\<close>: digits only, within the bounds.\<close>

definition num :: "nat \<Rightarrow> nat \<Rightarrow> string \<Rightarrow> nat option" where
  "num lo hi s = (if list_all is_digit s \<and> lo \<le> digits_val s \<and> digits_val s \<le> hi then Some (digits_val s) else None)"

lemma length_pad [simp]: "length (pad w n) = w"
  by (induction w n rule: pad.induct) simp_all

lemma pad_digits [simp]: "list_all is_digit (pad w n)"
  by (induction w n rule: pad.induct) simp_all

lemma digits_val_pad: "n < 10 ^ w \<Longrightarrow> digits_val (pad w n) = n"
proof (induction w n rule: pad.induct)
  case (2 w n)
  have "(of_char (digit_char (n mod 10)) :: nat) = 48 + n mod 10" by (simp add: digit_char_def)
  then show ?case using 2 by (simp add: digits_val_snoc less_mult_imp_div_less)
qed (simp add: digits_val_def)

lemma num_pad: "n < 10 ^ w \<Longrightarrow> lo \<le> n \<Longrightarrow> n \<le> hi \<Longrightarrow> num lo hi (pad w n) = Some n"
  by (simp add: num_def digits_val_pad)

lemma digits_val_zeros: "digits_val (s @ replicate k (CHR ''0'')) = digits_val s * 10 ^ k"
proof (induction k)
  case (Suc k)
  have "s @ replicate (Suc k) (CHR ''0'') = (s @ replicate k (CHR ''0'')) @ [CHR ''0'']" by (simp add: replicate_append_same)
  then show ?case using Suc by (simp only: digits_val_snoc) simp
qed simp

lemma trim_zeros_split: "s = trim_zeros s @ replicate (length s - length (trim_zeros s)) (CHR ''0'')"
proof -
  let ?t = "takeWhile (\<lambda>c. c = CHR ''0'') (rev s)"
  have "s = rev (?t @ dropWhile (\<lambda>c. c = CHR ''0'') (rev s))" by (simp only: takeWhile_dropWhile_id rev_rev_ident)
  then have s: "s = trim_zeros s @ rev ?t" by (simp only: rev_append trim_zeros_def)
  have "length s = length (trim_zeros s) + length ?t" using arg_cong [OF s, of length] by simp
  moreover have "rev ?t = replicate (length ?t) (CHR ''0'')" by (rule replicate_eqI [symmetric, THEN sym]) (auto dest: set_takeWhileD)
  ultimately show ?thesis using s by simp
qed

section \<open>Writing\<close>

definition fraction :: "nat \<Rightarrow> string" where
  "fraction ns = (let f = trim_zeros (pad 9 ns) in if f = [] then [] else ''.'' @ f)"

definition zone_text :: "int \<Rightarrow> string" where
  "zone_text off =
     (if off = 0 then ''Z''
      else (if off < 0 then ''-'' else ''+'') @ pad 2 (nat \<bar>off\<bar> div 60) @ '':'' @ pad 2 (nat \<bar>off\<bar> mod 60))"

text \<open>The days between the first of January of the year 0 and the Unix epoch, and those of the years 0 to 9999.\<close>

definition epoch_day :: int where "epoch_day = 719528"
definition last_day :: int where "last_day = 3652425"

definition rfc3339 :: "int \<Rightarrow> time \<Rightarrow> string option" where
  "rfc3339 off t =
     (let l = t + off * 60 * Second;
          secs = l div Second;
          ns = nat (l mod Second);
          day = secs div 86400 + epoch_day;
          s = nat (secs mod 86400);
          (y, m, d) = civil (nat day)
      in if day < 0 \<or> last_day \<le> day then None
         else Some (pad 4 y @ ''-'' @ pad 2 m @ ''-'' @ pad 2 d @ ''T'' @
                pad 2 (s div 3600) @ '':'' @ pad 2 (s div 60 mod 60) @ '':'' @ pad 2 (s mod 60) @ fraction ns @ zone_text off))"

section \<open>Reading\<close>

text \<open>The digits of a fraction after its point: at most nine count.\<close>

definition nanos :: "string \<Rightarrow> nat" where
  "nanos ds = (let u = take 9 ds in digits_val u * 10 ^ (9 - length u))"

definition parse_fraction :: "string \<Rightarrow> nat \<times> string" where
  "parse_fraction s =
     (case s of
        c # r \<Rightarrow>
          if c = CHR ''.'' \<and> takeWhile is_digit r \<noteq> [] then (nanos (takeWhile is_digit r), dropWhile is_digit r) else (0, s)
      | [] \<Rightarrow> (0, s))"

definition parse_zone :: "string \<Rightarrow> int option" where
  "parse_zone s =
     (if s = ''Z'' then Some 0
      else if length s \<noteq> 6 \<or> s ! 3 \<noteq> CHR '':'' \<or> s ! 0 \<notin> {CHR ''+'', CHR ''-''} then None
      else case (num 0 23 (take 2 (drop 1 s)), num 0 59 (drop 4 s)) of
             (Some h, Some m) \<Rightarrow> Some ((if s ! 0 = CHR ''-'' then -1 else 1) * int (h * 60 + m))
           | _ \<Rightarrow> None)"

definition rfc3339_parse :: "string \<Rightarrow> time option" where
  "rfc3339_parse s =
     (if length s < 19 \<or> s ! 4 \<noteq> CHR ''-'' \<or> s ! 7 \<noteq> CHR ''-'' \<or> s ! 10 \<noteq> CHR ''T'' \<or> s ! 13 \<noteq> CHR '':'' \<or> s ! 16 \<noteq> CHR '':'' then None
      else case (num 0 9999 (take 4 s), num 1 12 (take 2 (drop 5 s)), num 0 23 (take 2 (drop 11 s)), num 0 59 (take 2 (drop 14 s)),
                 num 0 59 (take 2 (drop 17 s))) of
             (Some y, Some m, Some hh, Some mm, Some ss) \<Rightarrow>
               (case (num 1 (month_lengths y ! (m - 1)) (take 2 (drop 8 s)), parse_fraction (drop 19 s)) of
                  (Some d, ns, z) \<Rightarrow>
                    (case parse_zone z of
                       None \<Rightarrow> None
                     | Some off \<Rightarrow>
                         Some (((int (of_civil y m d) - epoch_day) * 86400 + int (hh * 3600 + mm * 60 + ss)) * Second + int ns - off * 60 * Second))
                | _ \<Rightarrow> None)
           | _ \<Rightarrow> None)"

section \<open>What is written is read back\<close>

lemma days_before_mono: "y \<le> z \<Longrightarrow> days_before y \<le> days_before z"
  by (rule lift_Suc_mono_le) (simp add: days_before_Suc [simplified])

lemma year_bound: "days_before y \<le> n \<Longrightarrow> int n < last_day \<Longrightarrow> y \<le> 9999"
proof (rule ccontr)
  assume h: "days_before y \<le> n" "int n < last_day" "\<not> y \<le> 9999"
  have "days_before 10000 \<le> days_before y" using h(3) by (intro days_before_mono) simp
  moreover have "days_before 10000 = 3652425" by (simp add: days_before_def ceil_div_def)
  ultimately show False using h(1,2) by (simp add: last_day_def)
qed

lemma parse_zone_text:
  assumes "-1440 < off" "off < 1440"
  shows "parse_zone (zone_text off) = Some off"
proof (cases "off = 0")
  case False
  define a where "a = nat \<bar>off\<bar>"
  have a: "a < 1440" using assms by (auto simp: a_def)
  have n: "num 0 23 (pad 2 (a div 60)) = Some (a div 60)" "num 0 59 (pad 2 (a mod 60)) = Some (a mod 60)" using a by (auto intro!: num_pad)
  have two: "\<exists>c0 c1. pad 2 n = [c0, c1]" for n by (simp add: numeral_2_eq_2)
  obtain h0 h1 m0 m1 where p: "pad 2 (a div 60) = [h0, h1]" "pad 2 (a mod 60) = [m0, m1]" using two by metis
  have v: "int (a div 60 * 60 + a mod 60) = \<bar>off\<bar>" by (simp add: a_def)
  have z: "zone_text off = [if off < 0 then CHR ''-'' else CHR ''+'', h0, h1, CHR '':'', m0, m1]"
    using False by (simp add: zone_text_def a_def [symmetric] p)
  have "parse_zone (zone_text off) = Some ((if off < 0 then -1 else 1) * int (a div 60 * 60 + a mod 60))"
    using n unfolding z p by (simp add: parse_zone_def)
  then show ?thesis unfolding v using False by simp
qed (simp add: zone_text_def parse_zone_def)

lemma zone_text_start: "\<exists>c r. zone_text off = c # r \<and> \<not> is_digit c \<and> c \<noteq> CHR ''.''"
  by (simp add: zone_text_def is_digit_def)

lemma parse_fraction_text:
  assumes "ns < 10 ^ 9" "c \<noteq> CHR ''.''" "\<not> is_digit c"
  shows "parse_fraction (fraction ns @ c # r) = (ns, c # r)"
proof -
  let ?f = "trim_zeros (pad 9 ns)"
  have s: "pad 9 ns = ?f @ replicate (9 - length ?f) (CHR ''0'')" using trim_zeros_split [of "pad 9 ns"] by simp
  have "length ?f \<le> 9" using arg_cong [OF s, of length] by simp
  moreover have v: "digits_val ?f * 10 ^ (9 - length ?f) = ns" using digits_val_zeros [of ?f "9 - length ?f"] digits_val_pad [OF assms(1)] s by simp
  ultimately have n: "nanos ?f = ns" by (simp add: nanos_def)
  have "list_all is_digit ?f" using pad_digits [of 9 ns] s by (metis list_all_append)
  then have t: "takeWhile is_digit (?f @ c # r) = ?f" "dropWhile is_digit (?f @ c # r) = c # r"
    using assms(3) by (simp_all add: list_all_iff takeWhile_append2 dropWhile_append2)
  show ?thesis
  proof (cases "?f = []")
    case True
    then have "ns = 0" using v by (simp add: digits_val_def)
    then show ?thesis using True assms(2) by (simp add: fraction_def parse_fraction_def)
  qed (use n t in \<open>simp add: fraction_def parse_fraction_def\<close>)
qed

lemma parse_shape:
  assumes "length a = 4" "length b = 2" "length c = 2" "length h = 2" "length i = 2" "length j = 2"
    "num 0 9999 a = Some y" "num 1 12 b = Some m" "num 1 (month_lengths y ! (m - 1)) c = Some d" "num 0 23 h = Some hh" "num 0 59 i = Some mm"
    "num 0 59 j = Some ss" "parse_fraction r = (ns, z)" "parse_zone z = Some off"
  shows "rfc3339_parse (a @ ''-'' @ b @ ''-'' @ c @ ''T'' @ h @ '':'' @ i @ '':'' @ j @ r) =
    Some (((int (of_civil y m d) - epoch_day) * 86400 + int (hh * 3600 + mm * 60 + ss)) * Second + int ns - off * 60 * Second)"
proof -
  obtain a0 a1 a2 a3 where a: "a = [a0, a1, a2, a3]" using assms(1) by (auto simp: length_Suc_conv eval_nat_numeral)
  obtain b0 b1 c0 c1 where bc: "b = [b0, b1]" "c = [c0, c1]" using assms(2,3) by (auto simp: length_Suc_conv eval_nat_numeral)
  obtain h0 h1 i0 i1 j0 j1 where hij: "h = [h0, h1]" "i = [i0, i1]" "j = [j0, j1]" using assms(4-6) by (auto simp: length_Suc_conv eval_nat_numeral)
  show ?thesis using assms(7-) unfolding a bc hij by (simp add: rfc3339_parse_def)
qed

theorem rfc3339_roundtrip:
  assumes "rfc3339 off t = Some s" "-1440 < off" "off < 1440"
  shows "rfc3339_parse s = Some t"
proof -
  define l where "l = t + off * 60 * Second"
  define secs where "secs = l div Second"
  define ns where "ns = nat (l mod Second)"
  define day where "day = secs div 86400 + epoch_day"
  define k where "k = nat (secs mod 86400)"
  obtain y m d where civ: "civil (nat day) = (y, m, d)" by (metis prod_cases3)
  have day: "0 \<le> day" "day < last_day" and
    s: "s = pad 4 y @ ''-'' @ pad 2 m @ ''-'' @ pad 2 d @ ''T'' @ pad 2 (k div 3600) @ '':'' @ pad 2 (k div 60 mod 60) @ '':'' @ pad 2 (k mod 60) @
      fraction ns @ zone_text off"
    using assms(1) civ unfolding rfc3339_def Let_def l_def [symmetric] secs_def [symmetric] ns_def [symmetric] day_def [symmetric] k_def [symmetric]
    by (simp_all split: if_splits)
  note c = civil_ok [OF civ]
  have y: "y \<le> 9999" using year_bound [OF c(6)] day by simp
  have "\<forall>x \<in> set (month_lengths y). x \<le> 31" "m - 1 < length (month_lengths y)" using c(2,3) by (simp_all add: month_lengths_def)
  then have "month_lengths y ! (m - 1) \<le> 31" using nth_mem by blast
  then have d: "d < 10 ^ 2" using c(5) by simp
  have k: "k < 86400" "int k = secs mod 86400" by (simp_all add: k_def)
  have ns: "ns < 10 ^ 9" "int ns = l mod Second" by (simp_all add: ns_def Second_def)
  obtain z r where z: "zone_text off = z # r" "\<not> is_digit z" "z \<noteq> CHR ''.''" using zone_text_start by blast
  have "rfc3339_parse s =
      Some (((int (of_civil y m d) - epoch_day) * 86400 + int (k div 3600 * 3600 + k div 60 mod 60 * 60 + k mod 60)) * Second + int ns - off * 60 * Second)"
    unfolding s
  proof (rule parse_shape)
    show "parse_fraction (fraction ns @ zone_text off) = (ns, zone_text off)" using parse_fraction_text [OF ns(1) z(3,2)] z(1) by simp
    show "parse_zone (zone_text off) = Some off" using parse_zone_text assms(2,3) .
  qed (use y c(2-5) d k in \<open>auto intro!: num_pad\<close>)
  moreover have "k div 3600 * 3600 + k div 60 mod 60 * 60 + k mod 60 = k"
  proof -
    have "k div 3600 = k div 60 div 60" using div_mult2_eq [of k 60 60] by simp
    moreover have "k div 60 div 60 * 60 + k div 60 mod 60 = k div 60" "k div 60 * 60 + k mod 60 = k" by (rule div_mult_mod_eq)+
    ultimately show ?thesis by linarith
  qed
  moreover have "int (of_civil y m d) - epoch_day = secs div 86400" using c(1) day by (simp add: day_def)
  ultimately have "rfc3339_parse s = Some ((secs div 86400 * 86400 + secs mod 86400) * Second + l mod Second - off * 60 * Second)"
    using k(2) ns(2) by simp
  moreover have "(secs div 86400 * 86400 + secs mod 86400) * Second + l mod Second = l" by (simp add: secs_def)
  ultimately show ?thesis by (simp add: l_def)
qed

end
