(* ===== verification/Json_Indent.thy ===== *)
theory Json_Indent
  imports Json_Struct
begin

text \<open>
  JSON with line breaks and an indent of two blanks, as \<^verbatim>\<open>json.MarshalIndent\<close> and an \<^verbatim>\<open>Encoder\<close> after \<^verbatim>\<open>SetIndent\<close>
  write it. The program stores its files in this form and answers requests on its control API with it. What is
  written is read back by the same parser as the compact form.
\<close>

abbreviation nl :: char where "nl \<equiv> CHR 0x0A"

definition line :: "nat \<Rightarrow> string" where
  "line n = nl # replicate (2 * n) (CHR '' '')"

fun json_indent :: "nat \<Rightarrow> json \<Rightarrow> string" where
  "json_indent n (JArr vs) =
     (if vs = [] then ''[]'' else ''['' @ Join '','' (map (\<lambda>v. line (n + 1) @ json_indent (n + 1) v) vs) @ line n @ '']'')"
| "json_indent n (JObj ms) =
     (if ms = [] then ''{}''
      else ''{'' @ Join '','' (map (\<lambda>(k, v). line (n + 1) @ json_string k @ '': '' @ json_indent (n + 1) v) ms) @ line n @ ''}'')"
| "json_indent n v = json_print v"

section \<open>White space\<close>

lemma ws_line [simp]: "ws (line n @ s) = ws s"
  by (induction n) (simp_all add: line_def ws_def is_ws_def)

lemma ws_blank [simp]: "ws (CHR '' '' # s) = ws s" "ws (nl # s) = ws s"
  by (simp_all add: ws_def is_ws_def)

lemma ws_ws [simp]: "ws (ws s) = ws s"
  by (simp add: ws_def)

lemma ends_line [simp]: "ends (line n @ s)" "ends (nl # s)"
  by (simp_all add: ends_def line_def is_digit_def)

lemma starts_indent: "json_ok d v \<Longrightarrow> starts (json_indent n v @ r)"
  by (cases v) (auto simp: starts_number, auto simp: starts_def is_ws_def json_string_def)

section \<open>Reading it back\<close>

definition reads :: "nat \<Rightarrow> nat \<Rightarrow> json \<Rightarrow> bool" where
  "reads d n v \<longleftrightarrow> json_ok d v \<and> (\<forall>r. ends r \<longrightarrow> json_value d (json_indent n v @ r) = Some (v, r))"

lemma reads_ws: "reads d n v \<Longrightarrow> ends r \<Longrightarrow> json_value d (ws (json_indent n v @ r)) = Some (v, r)"
  using starts_ws [OF starts_indent, of d v n r] by (simp add: reads_def)

lemma reads_print: "json_ok d v \<Longrightarrow> json_indent n v = json_print v \<Longrightarrow> reads d n v"
  using json_value_print by (simp add: reads_def)

lemma json_elems_indent:
  assumes "vs \<noteq> []" "\<forall>v \<in> set vs. reads d m v"
    "ws s = ws (Join '','' (map (\<lambda>v. line m @ json_indent m v) vs) @ line n @ '']'' @ r)"
  shows "json_elems d s = Some (vs, r)"
  using assms
proof (induction vs arbitrary: s)
  case (Cons v vs)
  have v: "reads d m v" using Cons.prems(2) by simp
  show ?case
  proof (cases "vs = []")
    case True
    have "json_value d (ws s) = Some (v, line n @ '']'' @ r)" using reads_ws [OF v, of "line n @ '']'' @ r"] Cons.prems(3) True by simp
    then show ?thesis using True by (simp add: json_elems_eq)
  next
    case False
    let ?t = "Join '','' (map (\<lambda>v. line m @ json_indent m v) vs) @ line n @ '']'' @ r"
    have "json_elems d ?t = Some (vs, r)" using Cons.IH [OF False, of ?t] Cons.prems(2) by simp
    moreover have "json_value d (ws s) = Some (v, '','' @ ?t)"
      using reads_ws [OF v, of "'','' @ ?t"] Cons.prems(3) False by (cases vs) simp_all
    ultimately show ?thesis by (simp add: json_elems_eq)
  qed
qed simp

lemma json_members_indent:
  assumes "ms \<noteq> []" "\<forall>(k, v) \<in> set ms. valid_utf8 k \<and> reads d m v"
    "ws s = ws (Join '','' (map (\<lambda>(k, v). line m @ json_string k @ '': '' @ json_indent m v) ms) @ line n @ ''}'' @ r)"
  shows "json_members d s = Some (ms, r)"
  using assms
proof (induction ms arbitrary: s)
  case (Cons kv ms)
  obtain k v where kv: "kv = (k, v)" by fastforce
  have v: "valid_utf8 k" "reads d m v" using Cons.prems(2) kv by simp_all
  have step: "json_members d s = (case ws q of
      [] \<Rightarrow> None
    | g # x \<Rightarrow> if g = CHR ''}'' then Some ([(k, v)], x)
        else if g = CHR '','' then map_option (\<lambda>(ms, y). ((k, v) # ms, y)) (json_members d x) else None)"
    if q: "ws s = ws (line m @ json_string k @ '': '' @ json_indent m v @ q)" "ends q" for q
  proof (rule json_members_eq)
    show "ws s = dquote # json_body k @ dquote # '': '' @ json_indent m v @ q"
      using q(1) by (simp add: json_string_def) (simp add: ws_def is_ws_def)
    show "json_chars (json_body k @ dquote # '': '' @ json_indent m v @ q) = Some (k, '': '' @ json_indent m v @ q)"
      using v(1) by (rule json_chars_body)
    show "ws ('': '' @ json_indent m v @ q) = CHR '':'' # CHR '' '' # json_indent m v @ q" by simp
    show "json_value d (ws (CHR '' '' # json_indent m v @ q)) = Some (v, q)" using reads_ws [OF v(2) q(2)] by simp
  qed
  show ?case
  proof (cases "ms = []")
    case True
    then show ?thesis using step [of "line n @ ''}'' @ r"] Cons.prems(3) kv by simp
  next
    case False
    let ?t = "Join '','' (map (\<lambda>(k, v). line m @ json_string k @ '': '' @ json_indent m v) ms) @ line n @ ''}'' @ r"
    have "json_members d ?t = Some (ms, r)" using Cons.IH [OF False, of ?t] Cons.prems(2) by simp
    then show ?thesis using step [of "'','' @ ?t"] Cons.prems(3) kv False by (cases ms) simp_all
  qed
qed simp

lemma ws_lines:
  assumes "vs \<noteq> []" "\<And>q. starts (f (hd vs) @ q)"
  shows "starts (ws (Join '','' (map (\<lambda>v. line m @ f v) vs) @ r))"
proof -
  obtain w ws' where vs: "vs = w # ws'" using assms(1) by (cases vs) auto
  then obtain q where "Join '','' (map (\<lambda>v. line m @ f v) vs) @ r = line m @ f w @ q" by (cases ws') auto
  then show ?thesis using assms(2) [of q] starts_ws vs by simp
qed

theorem json_reads: "json_ok d v \<Longrightarrow> reads d n v"
proof (induction d v arbitrary: n rule: json_ok.induct)
  case (5 d vs)
  show ?case
  proof (cases "vs = []")
    case False
    have vs: "\<forall>v \<in> set vs. reads (d + 1) (n + 1) v" using 5 by auto
    have "json_value d (json_indent n (JArr vs) @ r) = Some (JArr vs, r)" for r
    proof -
      let ?t = "Join '','' (map (\<lambda>v. line (n + 1) @ json_indent (n + 1) v) vs) @ line n @ '']'' @ r"
      have "json_ok (d + 1) (hd vs)" using False "5.prems" by simp
      then have "starts (ws ?t)" by (intro ws_lines [OF False]) (rule starts_indent)
      then obtain e q where e: "ws ?t = e # q" "e \<noteq> CHR '']''" by (auto simp: starts_def split: list.splits)
      have "json_elems (d + 1) (ws ?t) = Some (vs, r)" using json_elems_indent [OF False vs] by simp
      then show ?thesis using False e "5.prems" by simp
    qed
    then show ?thesis using "5.prems" by (simp add: reads_def)
  qed (use "5.prems" in \<open>simp add: reads_def\<close>)
next
  case (6 d ms)
  show ?case
  proof (cases "ms = []")
    case False
    have ms: "\<forall>(k, v) \<in> set ms. valid_utf8 k \<and> reads (d + 1) (n + 1) v" using 6 by fastforce
    have "json_value d (json_indent n (JObj ms) @ r) = Some (JObj ms, r)" for r
    proof -
      let ?f = "\<lambda>(k, v). json_string k @ '': '' @ json_indent (n + 1) v"
      let ?g = "\<lambda>(k, v). line (n + 1) @ json_string k @ '': '' @ json_indent (n + 1) v"
      let ?t = "Join '','' (map ?g ms) @ line n @ ''}'' @ r"
      have g: "?g = (\<lambda>kv. line (n + 1) @ ?f kv)" by auto
      have "starts (?f (hd ms) @ q)" for q by (simp split: prod.split)
      then have "starts (ws ?t)" unfolding g by (intro ws_lines [OF False])
      then obtain e q where e: "ws ?t = e # q" "e \<noteq> CHR ''}''" by (auto simp: starts_def split: list.splits)
      have "json_members (d + 1) (ws ?t) = Some (ms, r)" by (rule json_members_indent [OF False ms, of _ n]) simp
      then show ?thesis using False e "6.prems" by simp
    qed
    then show ?thesis using "6.prems" by (simp add: reads_def)
  qed (use "6.prems" in \<open>simp add: reads_def\<close>)
qed (rule reads_print; simp)+

theorem json_parse_indent: "json_ok 0 v \<Longrightarrow> json_parse (json_indent 0 v) = Some v" "json_ok 0 v \<Longrightarrow> json_parse (json_indent 0 v @ [nl]) = Some v"
proof -
  assume v: "json_ok 0 v"
  note r = reads_ws [OF json_reads [OF v], of _ 0]
  from r [of "[]"] r [of "[nl]"]
  show "json_parse (json_indent 0 v) = Some v" "json_parse (json_indent 0 v @ [nl]) = Some v" by (simp_all add: json_parse_def)
qed

end
