(* ===== verification/Api.thy ===== *)
theory Api
  imports Agent_Ops Go_Url Go_Rfc3339 Json_Indent
begin

text \<open>
  The control API of the agent, \<^verbatim>\<open>serveAPI\<close> of \<^verbatim>\<open>cmd/dnxd/main.go\<close>: the queries its handlers accept, the results of
  the operations behind them (\<^verbatim>\<open>pingEncrypted\<close>, \<^verbatim>\<open>pingByName\<close>, \<^verbatim>\<open>serveTunnel\<close>) and the JSON they are written as. An
  operation waits for answers; what it came to is the argument from which the result is built. The
  texts of errors from the operating system and of the resolver are carried as they come.
\<close>

section \<open>Answers\<close>

definition writeJSON :: "(string \<times> json) list \<Rightarrow> string" where
  "writeJSON ms = json_indent 0 (JObj ms) @ [nl]"

text \<open>
  A duration in microseconds as \<^verbatim>\<open>encoding/json\<close> prints the \<^verbatim>\<open>float64\<close> of its milliseconds: the shortest decimal. For less
  than \<open>10 ^ 15\<close> microseconds that is the exact quotient, since decimals of 15 digits are told apart by \<^verbatim>\<open>float64\<close>.
\<close>

definition show_ms :: "nat \<Rightarrow> string" where
  "show_ms us =
     (let f = us mod 1000
      in show_nat (us div 1000) @
         (if f = 0 then [] else ''.'' @ trim_zeros [digit_char (f div 100), digit_char (f div 10 mod 10), digit_char (f mod 10)]))"

section \<open>Ping results\<close>

record pingResult =
  pr_Target :: string
  pr_RTT :: nat
  pr_Verified :: bool
  pr_Encrypted :: bool
  pr_Handshake :: nat
  pr_NsPath :: string
  pr_Error :: string

definition ping_members :: "pingResult \<Rightarrow> (string \<times> json) list" where
  "ping_members r =
     [(''target'', JStr (pr_Target r)), (''rtt_ms'', JNum (show_ms (pr_RTT r))), (''identity_verified'', JBool (pr_Verified r)),
      (''encrypted'', JBool (pr_Encrypted r))] @
     (if pr_Handshake r = 0 then [] else [(''handshake_ms'', JNum (show_ms (pr_Handshake r)))]) @
     opt_string ''ns_path'' (pr_NsPath r) @ opt_string ''error'' (pr_Error r)"

definition pingResult0 :: "string \<Rightarrow> pingResult" where
  "pingResult0 target = \<lparr>pr_Target = target, pr_RTT = 0, pr_Verified = False, pr_Encrypted = False, pr_Handshake = 0, pr_NsPath = '''', pr_Error = ''''\<rparr>"

text \<open>What an encrypted ping came to: resolution or session failed (with the text of the error), the session has
  another key, no answer in time, or an answer; with the namespace path and the times measured.\<close>

datatype ping_run = NoResolve string | NoSession string string | KeyDiffers string nat | NoPong string nat | Ponged string nat nat

fun pingEncrypted :: "string \<Rightarrow> ping_run \<Rightarrow> pingResult" where
  "pingEncrypted target (NoResolve e) = (pingResult0 target)\<lparr>pr_Encrypted := True, pr_Error := e\<rparr>"
| "pingEncrypted target (NoSession path e) = (pingResult0 target)\<lparr>pr_Encrypted := True, pr_NsPath := path, pr_Error := e\<rparr>"
| "pingEncrypted target (KeyDiffers path hs) = (pingResult0 target)\<lparr>pr_Encrypted := True, pr_NsPath := path, pr_Handshake := hs,
     pr_Error := ''session key does not match the registry'' @ [CHR 0x27] @ ''s binding for this name''\<rparr>"
| "pingEncrypted target (NoPong path hs) = (pingResult0 target)\<lparr>pr_Encrypted := True, pr_NsPath := path, pr_Handshake := hs, pr_Verified := True,
     pr_Error := ''encrypted ping timeout''\<rparr>"
| "pingEncrypted target (Ponged path hs rtt) = (pingResult0 target)\<lparr>pr_Encrypted := True, pr_NsPath := path, pr_Handshake := hs, pr_Verified := True,
     pr_RTT := rtt\<rparr>"

section \<open>The plain ping\<close>

text \<open>\<^verbatim>\<open>pingByName\<close>, split where it waits: the signed RESOLVE; then, with the answer, INTRO and the first PING.\<close>

definition plain_key :: "string \<Rightarrow> string" where
  "plain_key target = KindResolveResp @ ''|'' @ target"

definition plain_begin :: "prims \<Rightarrow> time \<Rightarrow> string \<Rightarrow> string \<Rightarrow> agent \<Rightarrow> nat \<times> out \<times> agent" where
  "plain_begin P now nonce target a =
     (let (ch, a1) = wait (plain_key target) a
      in (ch, Msg (ag_regAddr a) (Sign P (ag_priv a) (Message0\<lparr>m_Kind := KindResolve, m_Name := id_Name (ag_id a), m_Target := target,
            m_TS := to_millis now, m_Nonce := nonce\<rparr>)), a1))"

definition plain_second :: "prims \<Rightarrow> time \<Rightarrow> string \<Rightarrow> string \<Rightarrow> string \<Rightarrow> string \<Rightarrow> agent \<Rightarrow> nat \<times> out list \<times> agent" where
  "plain_second P now introNonce nonce target addr a =
     (let (ch, a1) = wait nonce a
      in (ch, [Msg (ag_regAddr a) (Sign P (ag_priv a) (Message0\<lparr>m_Kind := KindIntro, m_Name := id_Name (ag_id a), m_Target := target,
                 m_TS := to_millis now, m_Nonce := introNonce\<rparr>)),
               plain_ping P now nonce addr a], a1))"

text \<open>The result: \<open>reply\<close> is the answer to the RESOLVE, if any, and \<open>pong\<close> the PONG with the time it took, if any.\<close>

definition pingByName :: "prims \<Rightarrow> (string \<Rightarrow> string option) \<Rightarrow> string \<Rightarrow> message option \<Rightarrow> (nat \<times> message) option \<Rightarrow> pingResult" where
  "pingByName P udp target reply pong =
     (let r = pingResult0 target
      in case reply of
           None \<Rightarrow> r\<lparr>pr_Error := ''resolve timeout (registry unreachable?)''\<rparr>
         | Some m \<Rightarrow>
             (case plain_resolved udp (Some m) of
                Inl (PlainRemote e) \<Rightarrow> r\<lparr>pr_Error := e\<rparr>
              | Inl _ \<Rightarrow> r\<lparr>pr_Error := ''registry returned bad endpoint''\<rparr>
              | Inr (peerKey, addr) \<Rightarrow>
                  (case pong of
                     None \<Rightarrow> r\<lparr>pr_Error := ''ping timeout (peer offline or NAT unpunchable '' @ [CHR 0xE2, CHR 0x80, CHR 0x94] @
                                '' v0.2 adds relay fallback)''\<rparr>
                   | Some (rtt, p) \<Rightarrow>
                       if Verify P p peerKey = Inr () then r\<lparr>pr_RTT := rtt, pr_Verified := True\<rparr>
                       else r\<lparr>pr_RTT := rtt, pr_Error := ''pong signature did not match resolved identity (spoofing?)''\<rparr>)))"

section \<open>Tunnels\<close>

text \<open>What a probe and the local listener came to.\<close>

datatype tunnel_run = TunNoResolve string | TunNoSession string | TunKeyDiffers | TunProbed probe_result "string + unit"

fun serveTunnel :: "string \<Rightarrow> int \<Rightarrow> int \<Rightarrow> tunnel_run \<Rightarrow> string option" where
  "serveTunnel peer local remote (TunNoResolve e) = Some (''cannot resolve '' @ peer @ '': '' @ e)"
| "serveTunnel peer local remote (TunNoSession e) = Some (''no session with '' @ peer @ '': '' @ e)"
| "serveTunnel peer local remote TunKeyDiffers =
     Some (''session key does not match the registry'' @ [CHR 0x27] @ ''s binding for '' @ peer)"
| "serveTunnel peer local remote (TunProbed (ProbeRefused info) l) =
     Some (peer @ '' refused a tunnel to port '' @ show_int remote @ '': '' @ info)"
| "serveTunnel peer local remote (TunProbed ProbeSilent l) =
     Some (peer @ '' did not answer a tunnel request for port '' @ show_int remote)"
| "serveTunnel peer local remote (TunProbed ProbeOk (Inl e)) = Some (''cannot listen on port '' @ show_int local @ '': '' @ e)"
| "serveTunnel peer local remote (TunProbed ProbeOk (Inr _)) = None"

text \<open>
  \<^verbatim>\<open>openTunnelStream\<close> for one accepted connection, by what resolution and session came to (\<open>connect_begin\<close>, \<open>getSession_end\<close>):
  a session in its slot with the key the registry gave, or a failure, after which the connection is closed. The result is
  the tunnel that is piped, if any.
\<close>

datatype conn_run = ConnNoResolve | ConnNoSession | ConnSession nat string

fun openTunnelStream :: "prims \<Rightarrow> string \<Rightarrow> int \<Rightarrow> conn_run \<Rightarrow> agent \<Rightarrow> (nat option \<times> out list \<times> agent) option" where
  "openTunnelStream P peerName remotePort ConnNoResolve a = Some (None, [], a)"
| "openTunnelStream P peerName remotePort ConnNoSession a = Some (None, [], a)"
| "openTunnelStream P peerName remotePort (ConnSession i peerKey) a = open_tunnel P peerName i peerKey remotePort a"

text \<open>A connection is only piped over a session whose key is the one the registry gave.\<close>

lemma piped_to_owner:
  assumes "openTunnelStream P peerName remotePort run a = Some (Some k, xs, a')"
  shows "\<exists>i key s. run = ConnSession i key \<and> check_peer i key a = KeyOk s \<and> PeerIDKey s = key"
  using assms
  by (cases run) (auto simp: open_tunnel_def check_peer_def Let_def split: key_check.splits option.splits prod.splits if_splits)

section \<open>The handlers\<close>

text \<open>The operations of the agent as the handlers see them.\<close>

record api_ops =
  op_ping :: "string \<Rightarrow> pingResult"
  op_plain :: "string \<Rightarrow> pingResult"
  op_tunnel :: "string \<Rightarrow> int \<Rightarrow> int \<Rightarrow> string option"

text \<open>What the operations came to, for every argument, and the operations with these results.\<close>

record api_runs =
  rn_ping :: "string \<Rightarrow> ping_run"
  rn_reply :: "string \<Rightarrow> message option"
  rn_pong :: "string \<Rightarrow> (nat \<times> message) option"
  rn_tunnel :: "string \<Rightarrow> int \<Rightarrow> int \<Rightarrow> tunnel_run"

definition ops_of :: "prims \<Rightarrow> (string \<Rightarrow> string option) \<Rightarrow> api_runs \<Rightarrow> api_ops" where
  "ops_of P udp R =
     \<lparr>op_ping = (\<lambda>n. pingEncrypted n (rn_ping R n)),
      op_plain = (\<lambda>n. pingByName P udp n (rn_reply R n) (rn_pong R n)),
      op_tunnel = (\<lambda>n l r. serveTunnel n l r (rn_tunnel R n l r))\<rparr>"

text \<open>\<^verbatim>\<open>http.Error\<close> writes the text and a line feed.\<close>

definition missing_name :: string where
  "missing_name = ''missing ?name=<fqdn>'' @ [nl]"

definition api_ping :: "(string \<Rightarrow> pingResult) \<Rightarrow> (string \<times> string) list \<Rightarrow> string" where
  "api_ping ping q =
     (let target = query_get ''name'' q
      in if target = '''' then missing_name else writeJSON (ping_members (ping target)))"

definition query_int :: "string \<Rightarrow> (string \<times> string) list \<Rightarrow> int" where
  "query_int k q = (case scan_d (query_get k q) of Some (i, _) \<Rightarrow> i | None \<Rightarrow> 0)"

definition api_tunnel :: "(string \<Rightarrow> int \<Rightarrow> int \<Rightarrow> string option) \<Rightarrow> (string \<times> string) list \<Rightarrow> string" where
  "api_tunnel tunnel q =
     (let name = query_get ''name'' q; local = query_int ''local'' q; remote = query_int ''remote'' q
      in if name = '''' \<or> local = 0 \<or> remote = 0
         then writeJSON [(''error'', JStr ''need ?name=<fqdn>&local=<port>&remote=<port>'')]
         else (case tunnel name local remote of
                 Some e \<Rightarrow> writeJSON [(''error'', JStr e)]
               | None \<Rightarrow> writeJSON [(''listening'', JStr (''127.0.0.1:'' @ show_int local)), (''peer'', JStr name), (''peer_port'', JInt remote)]))"

definition api_status :: "agent \<Rightarrow> string" where
  "api_status a = writeJSON [(''name'', JStr (id_Name (ag_id a))), (''public_endpoint'', JStr (ag_public a)),
     (''pubkey'', JStr (id_PubB64 (ag_id a))), (''registry'', JStr (id_Registry (ag_id a)))]"

text \<open>\<^verbatim>\<open>ServeMux\<close>: the exact paths, and its own answer to any other.\<close>

definition serveAPI :: "api_ops \<Rightarrow> agent \<Rightarrow> string \<Rightarrow> string" where
  "serveAPI ops a url =
     (case Cut (CHR ''?'') url of
        (path, q) \<Rightarrow>
          if path = ''/ping'' then api_ping (op_ping ops) (ParseQuery q)
          else if path = ''/ping-plain'' then api_ping (op_plain ops) (ParseQuery q)
          else if path = ''/tunnel'' then api_tunnel (op_tunnel ops) (ParseQuery q)
          else if path = ''/status'' then api_status a
          else ''404 page not found'' @ [nl])"

end
