(* ===== verification/Cli.thy ===== *)
theory Cli
  imports Api Json_Containers
begin

text \<open>
  The command line client, \<^verbatim>\<open>cmd/dnx/main.go\<close>: its arguments, the requests it makes to the control API, how it
  reads the answers, and what it reports. \<open>http\<close> is the exchange with the agent: the path and query of a
  request to the body of the response, or nothing when the agent cannot be reached. The layout of the
  printed lines is not modelled; the values printed are.
\<close>

section \<open>Outcomes\<close>

datatype cli_out =
    CliUsage | CliUsagePing | CliUsagePlain | CliUsageTunnel | CliBadPorts | CliNoAgent | CliBadResponse string | CliFail string
  | CliPing string string bool bool string
  | CliPlain string string bool
  | CliTunnel string string int int
  | CliStatus string string string string
  | CliId string string

text \<open>The exit status: 0 only for the outcomes that report something.\<close>

fun cli_exit :: "cli_out \<Rightarrow> nat" where
  "cli_exit (CliPing t r v e h) = 0"
| "cli_exit (CliPlain t r v) = 0"
| "cli_exit (CliTunnel l p r lp) = 0"
| "cli_exit (CliStatus n r k e) = 0"
| "cli_exit (CliId n k) = 0"
| "cli_exit _ = 1"

definition get :: "(string \<Rightarrow> string option) \<Rightarrow> string \<Rightarrow> (json \<Rightarrow> 'a option) \<Rightarrow> cli_out + 'a" where
  "get http path dec =
     (case http path of
        None \<Rightarrow> Inl CliNoAgent
      | Some b \<Rightarrow>
          (case json_parse b of
             None \<Rightarrow> Inl (CliBadResponse b)
           | Some v \<Rightarrow> (case dec v of None \<Rightarrow> Inl (CliBadResponse b) | Some r \<Rightarrow> Inr r)))"

definition first12 :: "string \<Rightarrow> string" where
  "first12 s = (if length s > 12 then take 12 s else s)"

section \<open>Reading answers\<close>

text \<open>A number for a \<^verbatim>\<open>float64\<close> keeps its literal; literals beyond the range of \<^verbatim>\<open>float64\<close>, which no agent writes, are not
  told apart.\<close>

definition get_float :: "json \<Rightarrow> string \<Rightarrow> string option" where
  "get_float v old = (case v of JNull \<Rightarrow> Some old | JNum lit \<Rightarrow> Some lit | _ \<Rightarrow> None)"

record cli_ping =
  cp_Target :: string
  cp_RTT :: string
  cp_Verified :: bool
  cp_Encrypted :: bool
  cp_Handshake :: string
  cp_Error :: string

definition cli_ping0 :: cli_ping where
  "cli_ping0 = \<lparr>cp_Target = '''', cp_RTT = ''0'', cp_Verified = False, cp_Encrypted = False, cp_Handshake = ''0'', cp_Error = ''''\<rparr>"

definition ping_fields :: "string list" where
  "ping_fields = [''target'', ''rtt_ms'', ''identity_verified'', ''encrypted'', ''handshake_ms'', ''error'']"

definition ping_store :: "string \<Rightarrow> json \<Rightarrow> cli_ping \<Rightarrow> cli_ping option" where
  "ping_store n v r =
     (if n = ''target'' then map_option (\<lambda>s. r\<lparr>cp_Target := s\<rparr>) (get_string v (cp_Target r))
      else if n = ''rtt_ms'' then map_option (\<lambda>s. r\<lparr>cp_RTT := s\<rparr>) (get_float v (cp_RTT r))
      else if n = ''identity_verified'' then map_option (\<lambda>b. r\<lparr>cp_Verified := b\<rparr>) (get_bool v (cp_Verified r))
      else if n = ''encrypted'' then map_option (\<lambda>b. r\<lparr>cp_Encrypted := b\<rparr>) (get_bool v (cp_Encrypted r))
      else if n = ''handshake_ms'' then map_option (\<lambda>s. r\<lparr>cp_Handshake := s\<rparr>) (get_float v (cp_Handshake r))
      else map_option (\<lambda>s. r\<lparr>cp_Error := s\<rparr>) (get_string v (cp_Error r)))"

text \<open>The plain ping reads fewer fields.\<close>

definition plain_fields :: "string list" where
  "plain_fields = [''target'', ''rtt_ms'', ''identity_verified'', ''error'']"

record cli_tunnel =
  ct_Listening :: string
  ct_Peer :: string
  ct_PeerPort :: int
  ct_Error :: string

definition cli_tunnel0 :: cli_tunnel where
  "cli_tunnel0 = \<lparr>ct_Listening = '''', ct_Peer = '''', ct_PeerPort = 0, ct_Error = ''''\<rparr>"

definition tunnel_fields :: "string list" where
  "tunnel_fields = [''listening'', ''peer'', ''peer_port'', ''error'']"

definition tunnel_store :: "string \<Rightarrow> json \<Rightarrow> cli_tunnel \<Rightarrow> cli_tunnel option" where
  "tunnel_store n v r =
     (if n = ''listening'' then map_option (\<lambda>s. r\<lparr>ct_Listening := s\<rparr>) (get_string v (ct_Listening r))
      else if n = ''peer'' then map_option (\<lambda>s. r\<lparr>ct_Peer := s\<rparr>) (get_string v (ct_Peer r))
      else if n = ''peer_port'' then map_option (\<lambda>i. r\<lparr>ct_PeerPort := i\<rparr>) (get_int 64 v (ct_PeerPort r))
      else map_option (\<lambda>s. r\<lparr>ct_Error := s\<rparr>) (get_string v (ct_Error r)))"

text \<open>An object read into a \<^verbatim>\<open>map[string]string\<close>.\<close>

definition get_map :: "json \<Rightarrow> (string \<times> string) list option" where
  "get_map v = (case v of JNull \<Rightarrow> Some [] | JObj ms \<Rightarrow> decode_map (\<lambda>v. get_string v []) ms [] | _ \<Rightarrow> None)"

section \<open>Commands\<close>

text \<open>\<^verbatim>\<open>Sscanf(arg, "%d:%d", ...)\<close>: what follows the second number is not looked at.\<close>

definition scan_ports :: "string \<Rightarrow> (int \<times> int) option" where
  "scan_ports s =
     (case scan_d s of
        None \<Rightarrow> None
      | Some (l, r) \<Rightarrow>
          (case r of
             [] \<Rightarrow> None
           | c # q \<Rightarrow> if c \<noteq> CHR '':'' then None else (case scan_d q of None \<Rightarrow> None | Some (p, _) \<Rightarrow> Some (l, p))))"

definition tunnel_url :: "string \<Rightarrow> int \<Rightarrow> int \<Rightarrow> string" where
  "tunnel_url name local remote =
     ''/tunnel?name='' @ QueryEscape name @ ''&local='' @ show_int local @ ''&remote='' @ show_int remote"

definition cli_ping_cmd :: "(string \<Rightarrow> string option) \<Rightarrow> string \<Rightarrow> cli_out" where
  "cli_ping_cmd http target =
     (case get http (''/ping?name='' @ QueryEscape target) (decode_struct ping_fields ping_store cli_ping0) of
        Inl x \<Rightarrow> x
      | Inr r \<Rightarrow>
          if cp_Error r \<noteq> '''' then CliFail (cp_Error r)
          else CliPing (cp_Target r) (cp_RTT r) (cp_Verified r) (cp_Encrypted r) (cp_Handshake r))"

definition cli_plain_cmd :: "(string \<Rightarrow> string option) \<Rightarrow> string \<Rightarrow> cli_out" where
  "cli_plain_cmd http target =
     (case get http (''/ping-plain?name='' @ QueryEscape target) (decode_struct plain_fields ping_store cli_ping0) of
        Inl x \<Rightarrow> x
      | Inr r \<Rightarrow> if cp_Error r \<noteq> '''' then CliFail (cp_Error r) else CliPlain (cp_Target r) (cp_RTT r) (cp_Verified r))"

definition cli_tunnel_cmd :: "(string \<Rightarrow> string option) \<Rightarrow> string \<Rightarrow> string \<Rightarrow> cli_out" where
  "cli_tunnel_cmd http target ports =
     (case scan_ports ports of
        None \<Rightarrow> CliBadPorts
      | Some (local, remote) \<Rightarrow>
          (case get http (tunnel_url target local remote) (decode_struct tunnel_fields tunnel_store cli_tunnel0) of
             Inl x \<Rightarrow> x
           | Inr r \<Rightarrow>
               if ct_Error r \<noteq> '''' then CliFail (ct_Error r) else CliTunnel (ct_Listening r) (ct_Peer r) (ct_PeerPort r) local))"

definition cli_status_cmd :: "(string \<Rightarrow> string option) \<Rightarrow> cli_out" where
  "cli_status_cmd http =
     (case get http ''/status'' get_map of
        Inl x \<Rightarrow> x
      | Inr m \<Rightarrow> CliStatus (query_get ''name'' m) (query_get ''registry'' m) (query_get ''pubkey'' m) (query_get ''public_endpoint'' m))"

definition cli_id_cmd :: "(string \<Rightarrow> string option) \<Rightarrow> cli_out" where
  "cli_id_cmd http =
     (case get http ''/status'' get_map of
        Inl x \<Rightarrow> x
      | Inr m \<Rightarrow> CliId (query_get ''name'' m) (first12 (query_get ''pubkey'' m)))"

text \<open>\<^verbatim>\<open>main\<close>, on the arguments after the name of the program.\<close>

definition dnx :: "(string \<Rightarrow> string option) \<Rightarrow> string list \<Rightarrow> cli_out" where
  "dnx http args =
     (case args of
        [] \<Rightarrow> CliUsage
      | cmd # rest \<Rightarrow>
          if cmd = ''ping'' then (case rest of [] \<Rightarrow> CliUsagePing | target # _ \<Rightarrow> cli_ping_cmd http target)
          else if cmd = ''ping-plain'' then (case rest of [] \<Rightarrow> CliUsagePlain | target # _ \<Rightarrow> cli_plain_cmd http target)
          else if cmd = ''tunnel'' then (case rest of target # ports # _ \<Rightarrow> cli_tunnel_cmd http target ports | _ \<Rightarrow> CliUsageTunnel)
          else if cmd = ''status'' then cli_status_cmd http
          else if cmd = ''id'' then cli_id_cmd http
          else CliUsage)"

end
