(* ===== verification/Cli_Props.thy ===== *)
theory Cli_Props
  imports Cli Agent_Props
begin

text \<open>
  The client and the agent agree: what the agent writes the client reads, and names and ports given on the command
  line arrive at the operation unchanged.
\<close>

section \<open>Answers are read back\<close>

lemma writeJSON_parse: "members_ok 1 ms \<Longrightarrow> json_parse (writeJSON ms) = Some (JObj ms)"
  unfolding writeJSON_def by (rule json_parse_indent) (simp del: json_ok.simps add: json_ok_obj maxNestingDepth_def)

lemma get_writeJSON:
  assumes "http path = Some (writeJSON ms)" "members_ok 1 ms"
  shows "get http path dec = (case dec (JObj ms) of None \<Rightarrow> Inl (CliBadResponse (writeJSON ms)) | Some r \<Rightarrow> Inr r)"
  using assms writeJSON_parse by (simp add: get_def split: option.splits)

section \<open>Milliseconds\<close>

lemma digits_run:
  assumes "list_all is_digit ds" "ds \<noteq> []" "q = [] \<or> \<not> is_digit (hd q)"
  shows "digits (ds @ q) = Some (ds, q)"
proof -
  have "takeWhile is_digit (ds @ q) = ds" "dropWhile is_digit (ds @ q) = q"
    using assms by (cases q; simp add: list_all_iff takeWhile_append2 dropWhile_append2)+
  then show ?thesis using assms(2) by (simp add: digits_def Let_def)
qed

lemma ends_not_digit: "ends r \<Longrightarrow> r = [] \<or> \<not> is_digit (hd r)"
  by (cases r) (auto simp: ends_def)

lemma scan_exp_ends: "ends r \<Longrightarrow> scan_exp lit r = Some (lit, r)"
  by (auto simp: ends_def scan_exp_def split: list.splits)

lemma scan_number_decimal:
  assumes "ends r" "list_all is_digit ds" "ds \<noteq> []"
  shows "scan_number (show_nat n @ ''.'' @ ds @ r) = Some (show_nat n @ ''.'' @ ds, r)"
proof -
  have f: "scan_frac lit (''.'' @ ds @ r) = Some (lit @ ''.'' @ ds, r)" for lit
    using digits_run [OF assms(2,3) ends_not_digit [OF assms(1)]] scan_exp_ends [OF assms(1)] by (simp add: scan_frac_def)
  obtain c t where c: "show_nat n = c # t" using show_nat_ne_Nil by (meson neq_Nil_conv)
  have "is_digit c" using show_nat_digits [of n] c by simp
  then have m: "c \<noteq> CHR ''-''" by (auto simp: is_digit_def)
  show ?thesis
  proof (cases "n = 0")
    case True
    then have "c = CHR ''0''" "t = []" using c by (simp_all add: show_nat.simps [of 0] digit_char_def short_chars)
    then show ?thesis using f [of "[c]"] c by (simp add: scan_number_def scan_int_def)
  next
    case False
    then have z: "c \<noteq> CHR ''0''" using show_nat_hd [of n] c by simp
    have "digits (show_nat n @ ''.'' @ ds @ r) = Some (show_nat n, ''.'' @ ds @ r)" by (rule digits_run) (simp_all add: is_digit_def)
    then show ?thesis using f [of "c # t"] c m z by (simp add: scan_number_def scan_int_def)
  qed
qed

lemma trim_zeros_digits: "list_all is_digit s \<Longrightarrow> list_all is_digit (trim_zeros s)"
  by (auto simp: trim_zeros_def list_all_iff dest: set_dropWhileD)

lemma trim_zeros_Nil: "trim_zeros s = [] \<Longrightarrow> \<forall>c \<in> set s. c = CHR ''0''"
  by (simp add: trim_zeros_def)

lemma digit_char_zero: "n < 10 \<Longrightarrow> digit_char n = CHR ''0'' \<Longrightarrow> n = 0"
proof -
  assume n: "n < 10" and h: "digit_char n = CHR ''0''"
  have "byte (digit_char n) = 48 + n" using n by (simp add: digit_char_def byte_char_of)
  then show "n = 0" using h by simp
qed

lemma three_digits: "(f :: nat) div 100 = 0 \<Longrightarrow> f div 10 mod 10 = 0 \<Longrightarrow> f mod 10 = 0 \<Longrightarrow> f = 0"
proof -
  assume h: "f div 100 = 0" "f div 10 mod 10 = 0" "f mod 10 = 0"
  have "f < 100" using h(1) by (simp add: div_eq_0_iff)
  then have "f div 10 < 10" by linarith
  then have "f div 10 = 0" using h(2) by simp
  then show "f = 0" using h(3) by (simp add: div_eq_0_iff)
qed

lemma ascii_digits: "list_all is_digit s \<Longrightarrow> ascii s"
  using is_digit_ascii by (auto simp: ascii_def list_all_iff)

lemma number_show_ms: "number (show_ms us)"
proof -
  let ?f = "us mod 1000" and ?n = "us div 1000"
  let ?ds = "[digit_char (?f div 100), digit_char (?f div 10 mod 10), digit_char (?f mod 10)]"
  have "?f div 100 < 10" using mod_less_divisor [of 1000 us] by linarith
  then have d: "list_all is_digit ?ds" by simp
  have h: "is_digit (hd (show_nat ?n @ q))" for q using show_nat_digits [of ?n] by (cases "show_nat ?n") auto
  show ?thesis
  proof (cases "?f = 0")
    case True
    then have "show_ms us = show_int (int ?n)" by (simp add: show_ms_def show_int_def)
    then show ?thesis by simp
  next
    case False
    have "trim_zeros ?ds \<noteq> []"
    proof
      assume "trim_zeros ?ds = []"
      then have "\<forall>c \<in> set ?ds. c = CHR ''0''" by (rule trim_zeros_Nil)
      then have z: "digit_char (?f div 100) = CHR ''0''" "digit_char (?f div 10 mod 10) = CHR ''0''" "digit_char (?f mod 10) = CHR ''0''" by auto
      have "?f div 10 mod 10 < 10" "?f mod 10 < 10" by simp_all
      then have "?f div 100 = 0" "?f div 10 mod 10 = 0" "?f mod 10 = 0"
        using digit_char_zero [OF \<open>?f div 100 < 10\<close> z(1)] digit_char_zero [OF _ z(2)] digit_char_zero [OF _ z(3)] by blast+
      from three_digits [OF this] show False using False by contradiction
    qed
    then have "scan_number (show_nat ?n @ ''.'' @ trim_zeros ?ds @ r) = Some (show_nat ?n @ ''.'' @ trim_zeros ?ds, r)" if "ends r" for r
      using scan_number_decimal [OF that trim_zeros_digits [OF d]] by blast
    moreover have "show_ms us = show_nat ?n @ ''.'' @ trim_zeros ?ds" using False by (simp add: show_ms_def Let_def)
    ultimately show ?thesis using h [of "''.'' @ trim_zeros ?ds"] ascii_digits [OF trim_zeros_digits [OF d]] by (simp add: number_def)
  qed
qed

section \<open>Ping\<close>

lemma parse_name: "ParseQuery (''name='' @ QueryEscape n) = [(''name'', n)]"
proof -
  have "parse_pair (''name'' @ ''='' @ QueryEscape n) = [(''name'', n)]" by (rule parse_pair_escape) (simp add: is_alnum_def)
  then show ?thesis using Split_id [of "CHR ''&''" "''name='' @ QueryEscape n"] escape_no_sep(1) [of n] by (simp add: ParseQuery_def)
qed

lemma serve_ping:
  "serveAPI ops a (''/ping?name='' @ QueryEscape n) = api_ping (op_ping ops) [(''name'', n)]"
  "serveAPI ops a (''/ping-plain?name='' @ QueryEscape n) = api_ping (op_plain ops) [(''name'', n)]"
proof -
  have "Cut (CHR ''?'') (''/ping'' @ CHR ''?'' # ''name='' @ QueryEscape n) = (''/ping'', ''name='' @ QueryEscape n)"
    "Cut (CHR ''?'') (''/ping-plain'' @ CHR ''?'' # ''name='' @ QueryEscape n) = (''/ping-plain'', ''name='' @ QueryEscape n)"
    by (rule Cut_append, simp)+
  then show "serveAPI ops a (''/ping?name='' @ QueryEscape n) = api_ping (op_ping ops) [(''name'', n)]"
    "serveAPI ops a (''/ping-plain?name='' @ QueryEscape n) = api_ping (op_plain ops) [(''name'', n)]"
    using parse_name [of n] by (simp_all add: serveAPI_def)
qed

definition result_ok :: "pingResult \<Rightarrow> bool" where
  "result_ok r \<longleftrightarrow> valid_utf8 (pr_Target r) \<and> valid_utf8 (pr_NsPath r) \<and> valid_utf8 (pr_Error r)"

lemma ping_members_ok: "result_ok r \<Longrightarrow> members_ok 1 (ping_members r)"
  by (simp add: ping_members_def result_ok_def number_show_ms)

lemma fields_ping:
  "field ping_fields ''target'' = Some ''target''" "field ping_fields ''rtt_ms'' = Some ''rtt_ms''"
  "field ping_fields ''identity_verified'' = Some ''identity_verified''" "field ping_fields ''encrypted'' = Some ''encrypted''"
  "field ping_fields ''handshake_ms'' = Some ''handshake_ms''" "field ping_fields ''ns_path'' = None" "field ping_fields ''error'' = Some ''error''"
  "field plain_fields ''target'' = Some ''target''" "field plain_fields ''rtt_ms'' = Some ''rtt_ms''"
  "field plain_fields ''identity_verified'' = Some ''identity_verified''" "field plain_fields ''encrypted'' = None"
  "field plain_fields ''handshake_ms'' = None" "field plain_fields ''ns_path'' = None" "field plain_fields ''error'' = Some ''error''"
  by code_simp+

lemma show_ms_0: "show_ms 0 = ''0''"
  by code_simp

lemma decode_ping:
  "decode_struct ping_fields ping_store cli_ping0 (JObj (ping_members r)) =
     Some \<lparr>cp_Target = pr_Target r, cp_RTT = show_ms (pr_RTT r), cp_Verified = pr_Verified r, cp_Encrypted = pr_Encrypted r,
       cp_Handshake = show_ms (pr_Handshake r), cp_Error = pr_Error r\<rparr>"
  by (simp add: decode_struct_def ping_members_def opt_string_def fields_ping ping_store_def cli_ping0_def get_string_def get_float_def get_bool_def show_ms_0)

lemma decode_plain:
  "decode_struct plain_fields ping_store cli_ping0 (JObj (ping_members r)) =
     Some \<lparr>cp_Target = pr_Target r, cp_RTT = show_ms (pr_RTT r), cp_Verified = pr_Verified r, cp_Encrypted = False,
       cp_Handshake = ''0'', cp_Error = pr_Error r\<rparr>"
  by (simp add: decode_struct_def ping_members_def opt_string_def fields_ping ping_store_def cli_ping0_def get_string_def get_float_def get_bool_def)

lemma get_ping:
  assumes "n \<noteq> ''''" "result_ok (op n)" "http path = Some (api_ping op [(''name'', n)])"
  shows "get http path dec = (case dec (JObj (ping_members (op n))) of None \<Rightarrow> Inl (CliBadResponse (writeJSON (ping_members (op n)))) | Some r \<Rightarrow> Inr r)"
proof (rule get_writeJSON [OF _ ping_members_ok [OF assms(2)]])
  show "http path = Some (writeJSON (ping_members (op n)))" using assms(1,3) by (simp add: api_ping_def query_get_def)
qed

fun ping_run_ok :: "ping_run \<Rightarrow> bool" where
  "ping_run_ok (NoResolve e) = (e \<noteq> '''' \<and> valid_utf8 e)"
| "ping_run_ok (NoSession path e) = (valid_utf8 path \<and> e \<noteq> '''' \<and> valid_utf8 e)"
| "ping_run_ok (KeyDiffers path hs) = valid_utf8 path"
| "ping_run_ok (NoPong path hs) = valid_utf8 path"
| "ping_run_ok (Ponged path hs rtt) = valid_utf8 path"

abbreviation agent_http :: "prims \<Rightarrow> (string \<Rightarrow> string option) \<Rightarrow> api_runs \<Rightarrow> agent \<Rightarrow> string \<Rightarrow> string option" where
  "agent_http P udp R a \<equiv> (\<lambda>u. Some (serveAPI (ops_of P udp R) a u))"

text \<open>C14. \<^verbatim>\<open>dnx ping\<close> reports what the agent's operation came to, for every name that can be typed: a verified,
  encrypted reply with its times exactly when a PONG came back in a session with the right key, and
  otherwise the failure with its text. Neither the escaping of the name in the URL nor the JSON of the
  answer changes anything. The texts of the agent's errors are assumed not to be empty, and strings to be
  valid UTF-8.\<close>

theorem dnx_ping_reports:
  assumes "name \<noteq> ''''" "valid_utf8 name" "ping_run_ok (rn_ping R name)"
  shows "dnx (agent_http P udp R a) [''ping'', name] =
    (case rn_ping R name of
       NoResolve e \<Rightarrow> CliFail e
     | NoSession path e \<Rightarrow> CliFail e
     | KeyDiffers path hs \<Rightarrow> CliFail (''session key does not match the registry'' @ [CHR 0x27] @ ''s binding for this name'')
     | NoPong path hs \<Rightarrow> CliFail ''encrypted ping timeout''
     | Ponged path hs rtt \<Rightarrow> CliPing name (show_ms rtt) True True (show_ms hs))"
proof -
  have ok: "result_ok (op_ping (ops_of P udp R) name)"
    using assms(2,3) by (cases "rn_ping R name") (simp_all add: ops_of_def result_ok_def pingResult0_def)
  have http: "agent_http P udp R a (''/ping?name='' @ QueryEscape name) = Some (api_ping (op_ping (ops_of P udp R)) [(''name'', name)])"
    by (simp only: serve_ping(1))
  have "cli_ping_cmd (agent_http P udp R a) name =
      (let r = op_ping (ops_of P udp R) name
       in if pr_Error r \<noteq> '''' then CliFail (pr_Error r) else CliPing (pr_Target r) (show_ms (pr_RTT r)) (pr_Verified r) (pr_Encrypted r) (show_ms (pr_Handshake r)))"
    unfolding cli_ping_cmd_def get_ping [where op = "op_ping (ops_of P udp R)" and http = "agent_http P udp R a", OF assms(1) ok http] decode_ping by (simp add: Let_def)
  then show ?thesis using assms(3) by (cases "rn_ping R name") (simp_all add: dnx_def ops_of_def pingResult0_def)
qed

definition ex_runs :: api_runs where
  "ex_runs = \<lparr>rn_ping = (\<lambda>n. Ponged ''1.1'' 700 2500), rn_reply = (\<lambda>n. None), rn_pong = (\<lambda>n. None), rn_tunnel = (\<lambda>n l r. TunProbed ProbeOk (Inr ()))\<rparr>"

theorem dnx_ping_reports_witness:
  "dnx (agent_http toy Some ex_runs ex_agent) [''ping'', ''a&b=%''] = CliPing ''a&b=%'' ''2.5'' True True ''0.7''"
proof -
  have "show_ms 2500 = ''2.5''" "show_ms 700 = ''0.7''" by code_simp+
  then show ?thesis using dnx_ping_reports [of "''a&b=%''" ex_runs toy Some ex_agent] by (simp add: ex_runs_def)
qed

section \<open>Tunnels\<close>

lemma serveTunnel_text: "serveTunnel n l r t = Some e \<Longrightarrow> e \<noteq> ''''"
  by (induction n l r t rule: serveTunnel.induct) auto

lemma Split_three: "d \<notin> set u \<Longrightarrow> d \<notin> set v \<Longrightarrow> d \<notin> set w \<Longrightarrow> Split d (u @ d # v @ d # w) = [u, v, w]"
  by (simp add: Split_append Split_id)

lemma parse_tunnel: "ParseQuery (''name='' @ QueryEscape n @ ''&local='' @ show_int l @ ''&remote='' @ show_int r) =
  [(''name'', n), (''local'', show_int l), (''remote'', show_int r)]"
proof -
  have p: "parse_pair (k @ ''='' @ QueryEscape v) = [(k, v)]" if "k \<in> {''name'', ''local'', ''remote''}" for k v
    using that by (intro parse_pair_escape) (auto simp: is_alnum_def)
  have amp: "CHR ''&'' \<notin> set (k @ ''='' @ QueryEscape v)" if "k \<in> {''name'', ''local'', ''remote''}" for k v
    using that escape_no_sep(1) [of v] by auto
  have "Split (CHR ''&'') ((''name'' @ ''='' @ QueryEscape n) @ CHR ''&'' # (''local'' @ ''='' @ QueryEscape (show_int l)) @ CHR ''&'' #
        (''remote'' @ ''='' @ QueryEscape (show_int r))) =
      [''name'' @ ''='' @ QueryEscape n, ''local'' @ ''='' @ QueryEscape (show_int l), ''remote'' @ ''='' @ QueryEscape (show_int r)]"
    by (rule Split_three; rule amp) simp_all
  then have "Split (CHR ''&'') (''name='' @ QueryEscape n @ ''&local='' @ show_int l @ ''&remote='' @ show_int r) =
      [''name'' @ ''='' @ QueryEscape n, ''local'' @ ''='' @ QueryEscape (show_int l), ''remote'' @ ''='' @ QueryEscape (show_int r)]"
    by (simp only: escape_show_int append.simps append_assoc)
  then show ?thesis unfolding ParseQuery_def using p by (simp del: append.simps)
qed

lemma serve_tunnel_url:
  "serveAPI ops a (tunnel_url n l r) = api_tunnel (op_tunnel ops) [(''name'', n), (''local'', show_int l), (''remote'', show_int r)]"
proof -
  have "Cut (CHR ''?'') (''/tunnel'' @ CHR ''?'' # ''name='' @ QueryEscape n @ ''&local='' @ show_int l @ ''&remote='' @ show_int r) =
      (''/tunnel'', ''name='' @ QueryEscape n @ ''&local='' @ show_int l @ ''&remote='' @ show_int r)"
    by (rule Cut_append) simp
  then show ?thesis using parse_tunnel [of n l r] by (simp add: serveAPI_def tunnel_url_def)
qed

lemma scan_ports_show: "fits 64 l \<Longrightarrow> fits 64 r \<Longrightarrow> scan_ports (show_int l @ '':'' @ show_int r) = Some (l, r)"
  using scan_d_show [of l "CHR '':'' # show_int r"] scan_d_show [of r "[]"] by (simp add: scan_ports_def is_digit_def)

lemma fields_tunnel:
  "field tunnel_fields ''listening'' = Some ''listening''" "field tunnel_fields ''peer'' = Some ''peer''"
  "field tunnel_fields ''peer_port'' = Some ''peer_port''" "field tunnel_fields ''error'' = Some ''error''"
  by code_simp+

lemma valid_lits [simp]: "valid_utf8 (''127.0.0.1:'' @ show_int l)"
  by (rule ascii_valid) simp

text \<open>C15. \<^verbatim>\<open>dnx tunnel\<close>: the name, the local port and the remote port typed on the command line are the ones the agent
  opens the tunnel with, for every name and all non-zero ports of 64 bits, and the client reports success
  exactly when \<^verbatim>\<open>serveTunnel\<close> had no error, and its text otherwise.\<close>

theorem dnx_tunnel_passes_arguments:
  assumes "name \<noteq> ''''" "valid_utf8 name" "fits 64 l" "fits 64 r" "l \<noteq> 0" "r \<noteq> 0"
    and "\<And>e. serveTunnel name l r (rn_tunnel R name l r) = Some e \<Longrightarrow> valid_utf8 e"
  shows "dnx (agent_http P udp R a) [''tunnel'', name, show_int l @ '':'' @ show_int r] =
    (case serveTunnel name l r (rn_tunnel R name l r) of
       Some e \<Rightarrow> CliFail e
     | None \<Rightarrow> CliTunnel (''127.0.0.1:'' @ show_int l) name r l)"
proof -
  let ?q = "[(''name'', name), (''local'', show_int l), (''remote'', show_int r)]"
  let ?run = "serveTunnel name l r (rn_tunnel R name l r)"
  have q: "query_get ''name'' ?q = name" "query_int ''local'' ?q = l" "query_int ''remote'' ?q = r"
    using scan_d_show [OF assms(3), of "[]"] scan_d_show [OF assms(4), of "[]"] by (simp_all add: query_get_def query_int_def)
  have s: "scan_ports (show_int l @ '':'' @ show_int r) = Some (l, r)" using scan_ports_show assms(3,4) .
  have cmd: "dnx (agent_http P udp R a) [''tunnel'', name, show_int l @ '':'' @ show_int r] =
      (case get (agent_http P udp R a) (tunnel_url name l r) (decode_struct tunnel_fields tunnel_store cli_tunnel0) of
         Inl x \<Rightarrow> x
       | Inr x \<Rightarrow> if ct_Error x \<noteq> [] then CliFail (ct_Error x) else CliTunnel (ct_Listening x) (ct_Peer x) (ct_PeerPort x) l)"
    unfolding dnx_def by (simp add: cli_tunnel_cmd_def s [simplified])
  have api: "agent_http P udp R a (tunnel_url name l r) = Some (writeJSON ms)" if "api_tunnel (op_tunnel (ops_of P udp R)) ?q = writeJSON ms" for ms
    using that by (simp add: serve_tunnel_url)
  let ?dec = "decode_struct tunnel_fields tunnel_store cli_tunnel0"
  note dec = decode_struct_def fields_tunnel tunnel_store_def cli_tunnel0_def get_string_def get_int_show [OF assms(4)]
  show ?thesis
  proof (cases ?run)
    case None
    define addr where "addr = ''127.0.0.1:'' @ show_int l"
    let ?ms = "[(''listening'', JStr addr), (''peer'', JStr name), (''peer_port'', JInt r)]"
    have "api_tunnel (op_tunnel (ops_of P udp R)) ?q = writeJSON ?ms"
      unfolding api_tunnel_def q addr_def using assms(1,5,6) None by (simp add: ops_of_def)
    moreover have d: "?dec (JObj ?ms) = Some \<lparr>ct_Listening = addr, ct_Peer = name, ct_PeerPort = r, ct_Error = []\<rparr>" by (simp add: dec)
    moreover have "members_ok 1 ?ms" using assms(2) valid_lits [of l] unfolding addr_def [symmetric] by (simp add: JInt_def)
    ultimately have "get (agent_http P udp R a) (tunnel_url name l r) (decode_struct tunnel_fields tunnel_store cli_tunnel0) =
        Inr \<lparr>ct_Listening = addr, ct_Peer = name, ct_PeerPort = r, ct_Error = []\<rparr>"
      using get_writeJSON [where http = "agent_http P udp R a" and dec = ?dec, OF api, of ?ms] d by simp
    then show ?thesis unfolding cmd by (simp add: None addr_def)
  next
    case (Some e)
    have "api_tunnel (op_tunnel (ops_of P udp R)) ?q = writeJSON [(''error'', JStr e)]"
      unfolding api_tunnel_def q using assms(1,5,6) Some by (simp add: ops_of_def)
    moreover have d: "?dec (JObj [(''error'', JStr e)]) = Some \<lparr>ct_Listening = [], ct_Peer = [], ct_PeerPort = 0, ct_Error = e\<rparr>" by (simp add: dec)
    ultimately have "get (agent_http P udp R a) (tunnel_url name l r) (decode_struct tunnel_fields tunnel_store cli_tunnel0) =
        Inr \<lparr>ct_Listening = [], ct_Peer = [], ct_PeerPort = 0, ct_Error = e\<rparr>"
      using get_writeJSON [where http = "agent_http P udp R a" and dec = ?dec, OF api, of "[(''error'', JStr e)]"] assms(7) [OF Some] d by simp
    then show ?thesis unfolding cmd using serveTunnel_text [OF Some] by (simp add: Some)
  qed
qed

theorem dnx_tunnel_passes_arguments_witness:
  "dnx (agent_http toy Some ex_runs ex_agent) [''tunnel'', ''h.z'', show_int 2222 @ '':'' @ show_int 22] = CliTunnel (''127.0.0.1:'' @ show_int 2222) ''h.z'' 22 2222"
  using dnx_tunnel_passes_arguments [of "''h.z''" 2222 22 ex_runs toy Some ex_agent] by (simp add: ex_runs_def fits_def)

section \<open>Status\<close>

lemma dnx_status_reports:
  assumes "valid_utf8 (id_Name (ag_id a))" "valid_utf8 (id_Registry (ag_id a))" "valid_utf8 (id_PubB64 (ag_id a))" "valid_utf8 (ag_public a)"
  shows "dnx (agent_http P udp R a) [''status''] = CliStatus (id_Name (ag_id a)) (id_Registry (ag_id a)) (id_PubB64 (ag_id a)) (ag_public a)"
    "dnx (agent_http P udp R a) [''id''] = CliId (id_Name (ag_id a)) (first12 (id_PubB64 (ag_id a)))"
proof -
  let ?ms = "[(''name'', JStr (id_Name (ag_id a))), (''public_endpoint'', JStr (ag_public a)), (''pubkey'', JStr (id_PubB64 (ag_id a))),
    (''registry'', JStr (id_Registry (ag_id a)))]"
  have "json_parse (writeJSON ?ms) = Some (JObj ?ms)" using assms by (intro writeJSON_parse) simp_all
  moreover have "serveAPI (ops_of P udp R) a ''/status'' = writeJSON ?ms" by (simp add: serveAPI_def Cut_def api_status_def)
  ultimately show "dnx (agent_http P udp R a) [''status''] = CliStatus (id_Name (ag_id a)) (id_Registry (ag_id a)) (id_PubB64 (ag_id a)) (ag_public a)"
    "dnx (agent_http P udp R a) [''id''] = CliId (id_Name (ag_id a)) (first12 (id_PubB64 (ag_id a)))"
    by (simp_all add: dnx_def cli_status_cmd_def cli_id_cmd_def get_def get_map_def get_string_def query_get_def)
qed

section \<open>The plain ping\<close>

text \<open>C16. The plain ping trusts whoever answers: while it waits for the resolution, any datagram from any address
  that claims to be a RESOLVE_RESP for the name, without a signature, is taken as the answer, although the
  agent has a registry key to check answers with; and the owner of the key in that datagram is then reported
  as the verified owner of the name.\<close>

theorem plain_ping_trusts_anyone:
  assumes "plain_begin P now nonce target a = (ch, rq, a1)" "m_Kind m = KindResolveResp" "m_Target m = target" "wire_message m"
    "m_Sig m = ''''" "m_Nonce m = ''''" "m_PubKey m = EncodeToString pub" "ed_pair P priv pub" "udp (m_Endpoint m) = Some addr"
  shows "\<exists>a2. agent_receive P E src (Encode m) a1 = Some ([], [], a2) \<and> ag_chans a2 ! ch = [m] \<and>
    pr_Verified (pingByName P udp target (Some m) (Some (rtt, Sign P priv p)))"
proof -
  have a1: "ch = length (ag_chans a)" "map_of (ag_waiters a1) (plain_key target) = Some ch" "ag_chans a1 = ag_chans a @ [[]]"
    using assms(1) by (auto simp: plain_begin_def wait_def Let_def)
  have k: "plain_key target \<noteq> ''''" "plain_key target \<noteq> ''|''" by (simp_all add: plain_key_def kind_defs)
  have "agent_receive P E src (Encode m) a1 = Some ([], [], deliver m a1)"
    using assms(2) by (simp add: receive_Encode [OF assms(4)] handle_message_def kind_defs)
  moreover have "deliver m a1 = chan_push ch m a1"
    using assms(2,3,6) a1(2) k by (simp add: deliver_def plain_key_def split: option.splits)
  then have "ag_chans (deliver m a1) ! ch = [m]" using a1(1,3) by (simp add: chan_push_def chanCap_def)
  moreover have "pr_Verified (pingByName P udp target (Some m) (Some (rtt, Sign P priv p)))"
    using assms(2,7,9) Verify_Sign [OF assms(8)] by (simp add: pingByName_def plain_resolved_def kind_defs)
  ultimately show ?thesis by blast
qed

theorem plain_ping_trusts_anyone_witness:
  "\<exists>a2. agent_receive toy ex_aenv ''6.6.6.6:6'' (Encode (Message0\<lparr>m_Kind := KindResolveResp, m_Target := ''b'', m_PubKey := ex_pub 6, m_Endpoint := ''6.6.6.6:6''\<rparr>))
       (snd (snd (plain_begin toy 0 ''n'' ''b'' ex_agent))) = Some ([], [], a2) \<and> ag_registryKey ex_agent \<noteq> ''''"
proof -
  let ?m = "Message0\<lparr>m_Kind := KindResolveResp, m_Target := ''b'', m_PubKey := ex_pub 6, m_Endpoint := ''6.6.6.6:6''\<rparr>"
  have b: "plain_begin toy 0 ''n'' ''b'' ex_agent = (fst (plain_begin toy 0 ''n'' ''b'' ex_agent), fst (snd (plain_begin toy 0 ''n'' ''b'' ex_agent)),
      snd (snd (plain_begin toy 0 ''n'' ''b'' ex_agent)))" by simp
  have m: "m_Kind ?m = KindResolveResp" "m_Target ?m = ''b''" "wire_message ?m" "m_Sig ?m = ''''" "m_Nonce ?m = ''''" "m_PubKey ?m = EncodeToString (ex_key 6)"
    by (simp_all add: wire_message_def Message0_def kind_defs fits_def ex_pub_def)
  have "ag_registryKey ex_agent \<noteq> ''''" by code_simp
  then show ?thesis
    using plain_ping_trusts_anyone [OF b m ex_key_pair [of 6], where udp = Some and E = ex_aenv and src = "''6.6.6.6:6''"] by blast
qed

end
