(* ===== verification/Node_Config.thy ===== *)
theory Node_Config
  imports Routerd Json_Containers
begin

text \<open>
  The configuration file of a router, \<^verbatim>\<open>main\<close> and the types \<^verbatim>\<open>routerCfg\<close> and \<^verbatim>\<open>nodeCfg\<close> of \<^verbatim>\<open>cmd/dnx-routerd/main.go\<close>: the bytes
  of the file, the document read from them, and the start of the node. In \<open>nodeDoc\<close> a nil slice or map is told
  apart from an empty one, because \<^verbatim>\<open>/topology\<close> prints the document; the rest of the program does not tell
  them apart and works on \<open>cfg_of\<close> the document.
\<close>

section \<open>The document\<close>

type_synonym string_map = "(string \<times> string) list"

record routerDoc =
  rd_Name :: string
  rd_Depth :: int
  rd_NIDs :: "string_map option"

record nodeDoc =
  no_Node :: string
  no_Routers :: "routerDoc list option"
  no_Hops :: "string_map option"
  no_Firsthop :: string
  no_Namespace :: "string list option"

definition or_empty :: "'a list option \<Rightarrow> 'a list" where
  "or_empty x = (case x of None \<Rightarrow> [] | Some xs \<Rightarrow> xs)"

definition router_of :: "routerDoc \<Rightarrow> routerCfg" where
  "router_of r = \<lparr>rc_Name = rd_Name r, rc_Depth = rd_Depth r, rc_NIDs = or_empty (rd_NIDs r)\<rparr>"

definition cfg_of :: "nodeDoc \<Rightarrow> nodeCfg" where
  "cfg_of c = \<lparr>nc_Node = no_Node c, nc_Routers = map router_of (or_empty (no_Routers c)), nc_Hops = or_empty (no_Hops c),
     nc_Firsthop = no_Firsthop c, nc_Namespace = or_empty (no_Namespace c)\<rparr>"

section \<open>Reading\<close>

definition get_strings :: "json \<Rightarrow> string_map option \<Rightarrow> string_map option option" where
  "get_strings v old =
     (case v of
        JNull \<Rightarrow> Some None
      | JObj ms \<Rightarrow> map_option Some (decode_map (\<lambda>v. get_string v []) ms (or_empty old))
      | _ \<Rightarrow> None)"

definition router0 :: routerDoc where
  "router0 = \<lparr>rd_Name = '''', rd_Depth = 0, rd_NIDs = None\<rparr>"

definition router_fields :: "string list" where
  "router_fields = [''name'', ''depth'', ''nids'']"

definition router_store :: "string \<Rightarrow> json \<Rightarrow> routerDoc \<Rightarrow> routerDoc option" where
  "router_store n v r =
     (if n = ''name'' then map_option (\<lambda>s. r\<lparr>rd_Name := s\<rparr>) (get_string v (rd_Name r))
      else if n = ''depth'' then map_option (\<lambda>i. r\<lparr>rd_Depth := i\<rparr>) (get_int 64 v (rd_Depth r))
      else map_option (\<lambda>m. r\<lparr>rd_NIDs := m\<rparr>) (get_strings v (rd_NIDs r)))"

definition get_router :: "json \<Rightarrow> routerDoc \<Rightarrow> routerDoc option" where
  "get_router v r = decode_struct router_fields router_store r v"

record nodeBuf =
  nb_Node :: string
  nb_Routers :: "routerDoc slice"
  nb_Hops :: "string_map option"
  nb_Firsthop :: string
  nb_Namespace :: "string slice"

definition node0 :: nodeBuf where
  "node0 = \<lparr>nb_Node = '''', nb_Routers = slice0, nb_Hops = None, nb_Firsthop = '''', nb_Namespace = slice0\<rparr>"

definition node_fields :: "string list" where
  "node_fields = [''node'', ''routers'', ''hops'', ''firsthop'', ''namespace'']"

definition node_store :: "string \<Rightarrow> json \<Rightarrow> nodeBuf \<Rightarrow> nodeBuf option" where
  "node_store n v b =
     (if n = ''node'' then map_option (\<lambda>s. b\<lparr>nb_Node := s\<rparr>) (get_string v (nb_Node b))
      else if n = ''routers'' then map_option (\<lambda>s. b\<lparr>nb_Routers := s\<rparr>) (get_slice get_router router0 v (nb_Routers b))
      else if n = ''hops'' then map_option (\<lambda>m. b\<lparr>nb_Hops := m\<rparr>) (get_strings v (nb_Hops b))
      else if n = ''firsthop'' then map_option (\<lambda>s. b\<lparr>nb_Firsthop := s\<rparr>) (get_string v (nb_Firsthop b))
      else map_option (\<lambda>s. b\<lparr>nb_Namespace := s\<rparr>) (get_slice get_string [] v (nb_Namespace b)))"

definition node_of :: "nodeBuf \<Rightarrow> nodeDoc" where
  "node_of b = \<lparr>no_Node = nb_Node b, no_Routers = slice_opt (nb_Routers b), no_Hops = nb_Hops b, no_Firsthop = nb_Firsthop b,
     no_Namespace = slice_opt (nb_Namespace b)\<rparr>"

definition cfg_parse :: "string \<Rightarrow> nodeDoc option" where
  "cfg_parse s =
     (case json_parse s of
        None \<Rightarrow> None
      | Some v \<Rightarrow> map_option node_of (decode_struct node_fields node_store node0 v))"

section \<open>Writing\<close>

definition strings_json :: "string_map option \<Rightarrow> json" where
  "strings_json m = (case m of None \<Rightarrow> JNull | Some xs \<Rightarrow> map_json JStr xs)"

definition router_json :: "routerDoc \<Rightarrow> json" where
  "router_json r = JObj [(''name'', JStr (rd_Name r)), (''depth'', JInt (rd_Depth r)), (''nids'', strings_json (rd_NIDs r))]"

definition cfg_json :: "nodeDoc \<Rightarrow> json" where
  "cfg_json c = JObj [(''node'', JStr (no_Node c)), (''routers'', slice_json router_json (no_Routers c)), (''hops'', strings_json (no_Hops c)),
     (''firsthop'', JStr (no_Firsthop c)), (''namespace'', slice_json JStr (no_Namespace c))]"

section \<open>Start\<close>

text \<open>The part of \<^verbatim>\<open>main\<close> before the sockets: the file (\<open>None\<close> when it cannot be read), then \<open>rt_start\<close>.\<close>

datatype main_error = CfgUnreadable | CfgParse | CfgStart start_error

definition rt_main :: "prims \<Rightarrow> string \<Rightarrow> string \<Rightarrow> string \<Rightarrow> bytes option \<Rightarrow> string option \<Rightarrow> main_error + nodeDoc \<times> daemon" where
  "rt_main P registry registryKey nonce answer raw =
     (case raw of
        None \<Rightarrow> Inl CfgUnreadable
      | Some s \<Rightarrow>
          (case cfg_parse s of
             None \<Rightarrow> Inl CfgParse
           | Some c \<Rightarrow>
               (case rt_start P registry registryKey nonce answer (cfg_of c) of Inl e \<Rightarrow> Inl (CfgStart e) | Inr d \<Rightarrow> Inr (c, d))))"

section \<open>What is read can be written and read again\<close>

definition strings_ok :: "string_map option \<Rightarrow> bool" where
  "strings_ok m \<longleftrightarrow> key_sorted (or_empty m) \<and> (\<forall>(k, x) \<in> set (or_empty m). valid_utf8 k \<and> valid_utf8 x)"

definition router_ok :: "routerDoc \<Rightarrow> bool" where
  "router_ok r \<longleftrightarrow> valid_utf8 (rd_Name r) \<and> fits 64 (rd_Depth r) \<and> strings_ok (rd_NIDs r)"

definition doc_ok :: "nodeDoc \<Rightarrow> bool" where
  "doc_ok c \<longleftrightarrow> valid_utf8 (no_Node c) \<and> valid_utf8 (no_Firsthop c) \<and> strings_ok (no_Hops c) \<and>
     (\<forall>r \<in> set (or_empty (no_Routers c)). router_ok r) \<and> (\<forall>s \<in> set (or_empty (no_Namespace c)). valid_utf8 s)"

lemma get_strings_ok: "get_strings v old = Some m \<Longrightarrow> json_valid v \<Longrightarrow> strings_ok old \<Longrightarrow> strings_ok m"
proof -
  assume h: "get_strings v old = Some m" "json_valid v" "strings_ok old"
  show ?thesis
  proof (cases "v = JNull")
    case True
    then show ?thesis using h(1) by (auto simp: get_strings_def strings_ok_def or_empty_def)
  next
    case False
    then obtain ms m' where v: "v = JObj ms" "decode_map (\<lambda>v. get_string v []) ms (or_empty old) = Some m'" "m = Some m'"
      using h(1) by (auto simp: get_strings_def split: json.splits)
    have "key_sorted m' \<and> (\<forall>(k, x) \<in> set m'. valid_utf8 k \<and> valid_utf8 x)"
      using h(2,3) v(1) by (intro decode_map_inv [OF v(2)]) (auto simp: strings_ok_def intro: get_string_valid)
    then show ?thesis using v(3) by (simp add: strings_ok_def or_empty_def)
  qed
qed

lemma get_router_ok: "get_router v r = Some r' \<Longrightarrow> json_valid v \<Longrightarrow> router_ok r \<Longrightarrow> router_ok r'"
  unfolding get_router_def
  by (erule decode_struct_inv)
    (auto simp: router_store_def router_ok_def split: if_splits intro: get_string_valid get_int_fits get_strings_ok)

definition buf_ok :: "nodeBuf \<Rightarrow> bool" where
  "buf_ok b \<longleftrightarrow> valid_utf8 (nb_Node b) \<and> valid_utf8 (nb_Firsthop b) \<and> strings_ok (nb_Hops b) \<and>
     (\<forall>r \<in> set (sl_back (nb_Routers b)). router_ok r) \<and> (\<forall>s \<in> set (sl_back (nb_Namespace b)). valid_utf8 s)"

lemma empty_ok [simp]: "router_ok router0" "buf_ok node0" "strings_ok None"
  by (simp_all add: router_ok_def router0_def buf_ok_def node0_def slice0_def strings_ok_def or_empty_def fits_def)

lemma node_store_ok:
  assumes "node_store n v b = Some b'" "json_valid v" "buf_ok b"
  shows "buf_ok b'"
proof -
  have r: "\<forall>r \<in> set (sl_back s). router_ok r" if "get_slice get_router router0 v (nb_Routers b) = Some s" for s
    using assms(2,3) get_router_ok by (intro get_slice_inv [OF that]) (auto simp: buf_ok_def)
  have n: "\<forall>x \<in> set (sl_back s). valid_utf8 x" if "get_slice get_string [] v (nb_Namespace b) = Some s" for s
    using assms(2,3) get_string_valid by (intro get_slice_inv [OF that]) (auto simp: buf_ok_def)
  show ?thesis using assms r n get_string_valid get_strings_ok
    by (auto simp: node_store_def buf_ok_def split: if_splits)
qed

lemma cfg_parse_ok: "cfg_parse s = Some c \<Longrightarrow> doc_ok c"
proof -
  assume "cfg_parse s = Some c"
  then obtain v b where h: "json_parse s = Some v" "decode_struct node_fields node_store node0 v = Some b" "c = node_of b"
    by (auto simp: cfg_parse_def split: option.splits)
  have "buf_ok b" by (rule decode_struct_inv [OF h(2) json_parse_valid [OF h(1)]]) (auto intro: node_store_ok)
  then show ?thesis using h(3)
    by (auto simp: buf_ok_def doc_ok_def node_of_def or_empty_def slice_opt_def slice_list_def dest: in_set_takeD)
qed

lemma get_strings_json: "strings_ok m \<Longrightarrow> get_strings (strings_json m) None = Some m"
proof (cases m)
  case (Some xs)
  assume "strings_ok m"
  then have "decode_map (\<lambda>v. get_string v []) (map (\<lambda>(k, x). (k, JStr x)) xs) [] = Some xs"
    using Some by (intro decode_map_json) (auto simp: strings_ok_def or_empty_def get_string_def)
  then show ?thesis using Some by (simp add: get_strings_def strings_json_def map_json_def or_empty_def)
qed (simp add: get_strings_def strings_json_def)

lemma get_router_json: "router_ok r \<Longrightarrow> get_router (router_json r) router0 = Some r"
  using get_int_show [of 64 "rd_Depth r"] get_strings_json [of "rd_NIDs r"]
  by (simp add: router_ok_def get_router_def decode_struct_def router_json_def field_exact router_fields_def router_store_def router0_def get_string_def)

lemma json_ok_strings: "strings_ok m \<Longrightarrow> d < maxNestingDepth \<Longrightarrow> json_ok d (strings_json m)"
  by (cases m) (auto simp: strings_json_def json_ok_map strings_ok_def or_empty_def)

lemma json_ok_cfg: "doc_ok c \<Longrightarrow> json_ok 0 (cfg_json c)"
proof -
  assume c: "doc_ok c"
  have r: "json_ok (Suc (Suc 0)) (router_json r)" if "router_ok r" for r
    using that json_ok_strings [of "rd_NIDs r" "Suc (Suc (Suc 0))"] by (simp add: router_json_def router_ok_def JInt_def maxNestingDepth_def)
  have "json_ok 1 (slice_json router_json (no_Routers c))" "json_ok 1 (slice_json JStr (no_Namespace c))"
    using c r by (auto simp: doc_ok_def slice_json_def or_empty_def maxNestingDepth_def split: option.splits)
  then show ?thesis using c json_ok_strings [of "no_Hops c" 1] by (simp add: cfg_json_def doc_ok_def maxNestingDepth_def)
qed

lemma cfg_read_back: "doc_ok c \<Longrightarrow> cfg_parse (json_print (cfg_json c)) = Some c"
proof -
  assume c: "doc_ok c"
  obtain rs where rs: "get_slice get_router router0 (slice_json router_json (no_Routers c)) slice0 = Some rs" "slice_opt rs = no_Routers c"
    using get_slice_json [of "no_Routers c" get_router router_json router0] get_router_json c by (auto simp: doc_ok_def or_empty_def)
  obtain ns where ns: "get_slice get_string [] (slice_json JStr (no_Namespace c)) slice0 = Some ns" "slice_opt ns = no_Namespace c"
    using get_slice_json [of "no_Namespace c" get_string JStr "[]"] by (auto simp: get_string_def)
  have "get_strings (strings_json (no_Hops c)) None = Some (no_Hops c)" using c by (simp add: doc_ok_def get_strings_json)
  then have "decode_struct node_fields node_store node0 (cfg_json c) =
      Some \<lparr>nb_Node = no_Node c, nb_Routers = rs, nb_Hops = no_Hops c, nb_Firsthop = no_Firsthop c, nb_Namespace = ns\<rparr>"
    by (simp add: decode_struct_def cfg_json_def field_exact node_fields_def node_store_def node0_def get_string_def rs ns)
  then show ?thesis by (simp add: cfg_parse_def json_parse_print [OF json_ok_cfg [OF c]] node_of_def rs ns)
qed

end
