(* ===== verification/Telemetry.thy ===== *)
theory Telemetry
  imports Node_Config Go_Url
begin

text \<open>
  The telemetry server of a router, \<^verbatim>\<open>serveTelemetry\<close> of \<^verbatim>\<open>cmd/dnx-routerd/main.go\<close>: the requests of the dashboard, the
  JSON of the answers, and the packet that \<^verbatim>\<open>/inject\<close> originates. A request is its path with the query, and
  its body; the answer is the headers set by the program and the body. \<open>isPrint\<close> is \<^verbatim>\<open>strconv.IsPrint\<close> on runes beyond
  ASCII, whose tables are data of the standard library.
\<close>

section \<open>Quoting\<close>

definition rune_val :: "string \<Rightarrow> nat" where
  "rune_val w =
     (case map byte w of
        [a] \<Rightarrow> a
      | [a, b] \<Rightarrow> (a - 0xC0) * 64 + (b - 0x80)
      | [a, b, c] \<Rightarrow> (a - 0xE0) * 4096 + (b - 0x80) * 64 + (c - 0x80)
      | [a, b, c, d] \<Rightarrow> (a - 0xF0) * 262144 + (b - 0x80) * 4096 + (c - 0x80) * 64 + (d - 0x80)
      | _ \<Rightarrow> RuneError)"

definition hex_digits :: "nat \<Rightarrow> nat \<Rightarrow> string" where
  "hex_digits w n = map (\<lambda>i. hex_char (n div 16 ^ (w - 1 - i) mod 16)) [0..<w]"

definition quote_rune :: "(nat \<Rightarrow> bool) \<Rightarrow> string \<Rightarrow> string" where
  "quote_rune isPrint w =
     (let r = rune_val w
      in if r = 0x22 \<or> r = 0x5C then bslash # w
         else if (if r < 0x80 then 0x20 \<le> r \<and> r < 0x7F else isPrint r) then w
         else if r = 7 then [bslash, CHR ''a'']
         else if r = 8 then [bslash, CHR ''b'']
         else if r = 12 then [bslash, CHR ''f'']
         else if r = 10 then [bslash, CHR ''n'']
         else if r = 13 then [bslash, CHR ''r'']
         else if r = 9 then [bslash, CHR ''t'']
         else if r = 11 then [bslash, CHR ''v'']
         else if r < 0x20 \<or> r = 0x7F then [bslash, CHR ''x''] @ hex_digits 2 r
         else if r < 0x10000 then [bslash, CHR ''u''] @ hex_digits 4 r
         else [bslash, CHR ''U''] @ hex_digits 8 r)"

function quote_body :: "(nat \<Rightarrow> bool) \<Rightarrow> string \<Rightarrow> string" where
  "quote_body isPrint [] = []"
| "quote_body isPrint (c # s) =
     (let k = rune_len (c # s)
      in if k = 0 then [bslash, CHR ''x''] @ hex_digits 2 (byte c) @ quote_body isPrint s
         else quote_rune isPrint (c # take (k - 1) s) @ quote_body isPrint (drop (k - 1) s))"
  by pat_completeness auto
termination by (relation "measure (\<lambda>(p, s). length s)") simp_all

text \<open>The verb \<^verbatim>\<open>%q\<close> on a string.\<close>

definition Quote :: "(nat \<Rightarrow> bool) \<Rightarrow> string \<Rightarrow> string" where
  "Quote isPrint s = [dquote] @ quote_body isPrint s @ [dquote]"

section \<open>Answers\<close>

record answer =
  an_headers :: "(string \<times> string) list"
  an_body :: string

definition tm_writeJSON :: "json \<Rightarrow> answer" where
  "tm_writeJSON v = \<lparr>an_headers = [(''Content-Type'', ''application/json'')], an_body = json_print v @ [CHR 0x0A]\<rparr>"

definition cors :: "answer \<Rightarrow> answer" where
  "cors r = r\<lparr>an_headers := (''Access-Control-Allow-Origin'', ''*'') # an_headers r\<rparr>"

definition event_json :: "event \<Rightarrow> json" where
  "event_json e = JObj [(''ts'', JInt (ev_TS e)), (''node'', JStr (ev_Node e)), (''router'', JStr (ev_Router e)), (''field'', JStr (ev_Field e)),
     (''value'', JStr (ev_Value e)), (''next_hop'', JStr (ev_NextHop e)), (''action'', JStr (ev_Action e)), (''detail'', JStr (ev_Detail e))]"

text \<open>An empty selection is a nil slice.\<close>

definition events_json :: "event list \<Rightarrow> json" where
  "events_json es = (if es = [] then JNull else JArr (map event_json es))"

definition since_of :: "(string \<times> string) list \<Rightarrow> int" where
  "since_of q = (case scan_d (query_get ''since'' q) of Some (i, _) \<Rightarrow> i | None \<Rightarrow> 0)"

definition tm_events :: "(string \<times> string) list \<Rightarrow> daemon \<Rightarrow> answer" where
  "tm_events q d = tm_writeJSON (JObj [(''events'', events_json (events_since (since_of q) d)), (''node'', JStr (nc_Node (dm_cfg d)))])"

definition tm_topology :: "nodeDoc \<Rightarrow> answer" where
  "tm_topology c = tm_writeJSON (cfg_json c)"

section \<open>Injection\<close>

text \<open>
  The body of \<^verbatim>\<open>/inject\<close>: \<^verbatim>\<open>Decode\<close> reads the first value and its error is ignored, so what could be stored before
  and after a member of the wrong type is kept, and what follows the value is not looked at.
\<close>

record inject_body =
  ib_Name :: string
  ib_Format :: string

definition inject_store :: "string \<times> json \<Rightarrow> inject_body \<Rightarrow> inject_body" where
  "inject_store kv b =
     (case field [''name'', ''format''] (fst kv) of
        None \<Rightarrow> b
      | Some n \<Rightarrow>
          if n = ''name'' then (case get_string (snd kv) (ib_Name b) of None \<Rightarrow> b | Some s \<Rightarrow> b\<lparr>ib_Name := s\<rparr>)
          else (case get_string (snd kv) (ib_Format b) of None \<Rightarrow> b | Some s \<Rightarrow> b\<lparr>ib_Format := s\<rparr>))"

definition read_body :: "string \<Rightarrow> inject_body" where
  "read_body s =
     (let z = \<lparr>ib_Name = '''', ib_Format = ''''\<rparr>
      in case json_value 0 (ws s) of Some (JObj ms, _) \<Rightarrow> fold inject_store ms z | _ \<Rightarrow> z)"

text \<open>The text of an error of \<^verbatim>\<open>Resolve\<close>, which fails in these two ways only.\<close>

definition ns_text :: "(nat \<Rightarrow> bool) \<Rightarrow> string \<Rightarrow> ns_error \<Rightarrow> string" where
  "ns_text isPrint name e =
     (if e = ErrEmpty then ''namespace path is empty'' else ''name has no allocated path: '' @ Quote isPrint name)"

fun inject_json :: "(nat \<Rightarrow> bool) \<Rightarrow> string \<Rightarrow> inject_result \<Rightarrow> json" where
  "inject_json isPrint name InjRetired =
     JObj [(''error'', JStr (''the fixed-address format is retired: the registry allocates namespace identifiers now, '' @
       ''and this network forwards paths only''))]"
| "inject_json isPrint name (InjUnknownFormat f) =
     JObj [(''error'', JStr (''unknown format '' @ Quote isPrint f @ '': this network forwards namespace paths (use '' @
       [dquote] @ ''path'' @ [dquote] @ '' or omit the field)''))]"
| "inject_json isPrint name (InjError e) = JObj [(''error'', JStr (ns_text isPrint name e))]"
| "inject_json isPrint name (Injected p n) =
     JObj [(''format'', JStr ''namespace-path''), (''injected'', JStr name), (''path'', JStr p), (''wire_bytes'', JInt (int n))]"

definition tm_inject :: "(nat \<Rightarrow> bool) \<Rightarrow> (string \<Rightarrow> string option) \<Rightarrow> time \<Rightarrow> string \<Rightarrow> daemon \<Rightarrow> answer \<times> (string \<times> bytes) option \<times> daemon" where
  "tm_inject isPrint resolve now body d =
     (let b = read_body body;
          (res, sent, d') = inject resolve now (ib_Name b) (ib_Format b) d
      in (tm_writeJSON (inject_json isPrint (ib_Name b) res), sent, d'))"

section \<open>Dispatch\<close>

definition serveTelemetry :: "(nat \<Rightarrow> bool) \<Rightarrow> (string \<Rightarrow> string option) \<Rightarrow> time \<Rightarrow> nodeDoc \<Rightarrow> string \<Rightarrow> string \<Rightarrow> daemon \<Rightarrow>
    answer \<times> (string \<times> bytes) option \<times> daemon" where
  "serveTelemetry isPrint resolve now c url body d =
     (case Cut (CHR ''?'') url of
        (path, q) \<Rightarrow>
          if path = ''/events'' then (cors (tm_events (ParseQuery q) d), None, d)
          else if path = ''/inject'' then
            (let (r, sent, d') = tm_inject isPrint resolve now body d in (cors r, sent, d'))
          else if path = ''/topology'' then (cors (tm_topology c), None, d)
          else (\<lparr>an_headers = [], an_body = ''404 page not found'' @ [CHR 0x0A]\<rparr>, None, d))"

end
