(* ===== verification/Telemetry_Props.thy ===== *)
theory Telemetry_Props
  imports Telemetry Routerd_Props Json_Indent
begin

text \<open>
  What the dashboard can rely on: the topology a node reports is its configuration, and the story of an injected
  packet is in the telemetry of the node.
\<close>

section \<open>Topology\<close>

text \<open>C18. The topology a node reports is a configuration file with the same content: whatever file the node read, a
  node that reads the body of the answer of \<^verbatim>\<open>/topology\<close> gets the same configuration, down to the difference
  between a member that is missing and one that is empty.\<close>

theorem topology_is_configuration:
  assumes "cfg_parse raw = Some c"
  shows "cfg_parse (an_body (fst (serveTelemetry isPrint resolve now c ''/topology'' body d))) = Some c"
proof -
  have c: "doc_ok c" using assms by (rule cfg_parse_ok)
  have "json_value 0 (json_print (cfg_json c) @ [CHR 0x0A]) = Some (cfg_json c, [CHR 0x0A])"
    by (rule json_value_print [OF json_ok_cfg [OF c]]) (simp add: ends_def is_digit_def)
  moreover have "ws (json_print (cfg_json c) @ r) = json_print (cfg_json c) @ r" for r
    by (rule starts_ws [OF starts_print [OF json_ok_cfg [OF c]]])
  moreover have "ws [CHR 0x0A] = []" by (simp add: ws_def is_ws_def)
  ultimately have "json_parse (json_print (cfg_json c) @ [CHR 0x0A]) = Some (cfg_json c)"
    by (simp add: json_parse_def del: json_value.simps)
  moreover have "json_parse (json_print (cfg_json c)) = Some (cfg_json c)" by (rule json_parse_print [OF json_ok_cfg [OF c]])
  ultimately have "cfg_parse (json_print (cfg_json c) @ [CHR 0x0A]) = Some c" using cfg_read_back [OF c] by (simp add: cfg_parse_def)
  then show ?thesis by (simp add: serveTelemetry_def Cut_def tm_topology_def tm_writeJSON_def cors_def)
qed

definition ex_file :: string where
  "ex_file = json_print (JObj [(''Node'', JStr ''n1''), (''hops'', JObj [(''b'', JStr ''x''), (''a'', JStr ''y'')]), (''routers'', JArr [])])"

theorem topology_is_configuration_witness:
  "\<exists>c. cfg_parse ex_file = Some c \<and> no_Node c = ''n1'' \<and> no_Hops c = Some [(''a'', ''y''), (''b'', ''x'')] \<and> no_Routers c = Some [] \<and> no_Namespace c = None \<and>
     cfg_parse (an_body (fst (serveTelemetry (\<lambda>r. False) Some 0 c ''/topology'' '''' ex_node))) = Some c"
proof -
  define c where "c = \<lparr>no_Node = ''n1'', no_Routers = Some [], no_Hops = Some [(''a'', ''y''), (''b'', ''x'')], no_Firsthop = '''', no_Namespace = None\<rparr>"
  have "cfg_parse ex_file = Some c" unfolding c_def by code_simp
  then show ?thesis using topology_is_configuration [of ex_file c "\<lambda>r. False" Some 0 "''''" ex_node] by (simp add: c_def)
qed

section \<open>Injection\<close>

definition inject_event :: "daemon \<Rightarrow> string \<Rightarrow> path \<Rightarrow> event" where
  "inject_event d name p = event0\<lparr>ev_Node := nc_Node (dm_cfg d), ev_Action := ''inject'',
     ev_Detail := name @ '' = ['' @ Path_String p @ ''] via namespace path, '' @
       show_nat (length (case ns_Encode p of Inl e \<Rightarrow> [] | Inr b \<Rightarrow> b)) @ '' bytes'', ev_Value := Path_String p\<rparr>"

definition stamped :: "time \<Rightarrow> event \<Rightarrow> event" where
  "stamped now e = e\<lparr>ev_TS := to_millis now\<rparr>"

lemma emit_simps [simp]: "dm_cfg (emit now e d) = dm_cfg d" "dm_routers (emit now e d) = dm_routers d" "dm_ns (emit now e d) = dm_ns d"
  by (simp_all add: emit_def Let_def)

lemma emit_fold_simps [simp]: "dm_cfg (fold (emit now) es d) = dm_cfg d"
  by (induction es arbitrary: d) simp_all

lemma route_loop_emit: "route_loop (emit now e d) p c = route_loop d p c"
proof (induction d p c rule: route_loop.induct)
  case (1 d p c)
  have cfg: "dm_routers (emit now e d) = dm_routers d" "dm_cfg (emit now e d) = dm_cfg d" by simp_all
  have ev: "ev_drop (emit now e d) = ev_drop d" "ev_match (emit now e d) = ev_match d" by (intro ext; simp)+
  show ?case
    unfolding route_loop.simps [of "emit now e d" p c] route_loop.simps [of d p c] cfg ev
    using 1 by (auto split: option.splits simp: Let_def)
qed

lemma emit_last: "dm_events (emit now e d) = drop (length (dm_events d) + 1 - 200) (dm_events d @ [stamped now e])"
  by (simp add: emit_def Let_def stamped_def)

lemma emit_events: "length es \<le> 200 \<Longrightarrow> \<exists>old. dm_events (fold (emit now) es d) = old @ map (stamped now) es"
proof (induction es rule: rev_induct)
  case (snoc e es)
  obtain old where old: "dm_events (fold (emit now) es d) = old @ map (stamped now) es" using snoc by auto
  let ?k = "length (old @ map (stamped now) es) + 1 - 200"
  have "?k - length old = 0" "?k - (length old + length es) = 0" using snoc.prems by simp_all
  then have "drop ?k (old @ map (stamped now) (es @ [e])) = drop ?k old @ map (stamped now) (es @ [e])" by simp
  then have "dm_events (fold (emit now) (es @ [e]) d) = drop ?k old @ map (stamped now) (es @ [e])"
    using emit_last [of now e "fold (emit now) es d"] old by simp
  then show ?case by blast
qed simp

lemma since_of_show: "fits 64 i \<Longrightarrow> since_of (ParseQuery (''since='' @ show_int i)) = i"
proof -
  assume i: "fits 64 i"
  have "parse_pair (''since'' @ ''='' @ QueryEscape (show_int i)) = [(''since'', show_int i)]" by (rule parse_pair_escape) (simp add: is_alnum_def)
  then have "ParseQuery (''since='' @ show_int i) = [(''since'', show_int i)]"
    using Split_id [of "CHR ''&''" "''since='' @ show_int i"] escape_no_sep(1) [of "show_int i"] by (simp add: ParseQuery_def escape_show_int)
  then show ?thesis using scan_d_show [OF i, of "[]"] by (simp add: since_of_def query_get_def)
qed


definition ex_inject :: string where
  "ex_inject = json_print (JObj [(''name'', JStr ''host.z'')]) @ ''!''"

definition ex_inject_node :: daemon where
  "ex_inject_node = ex_node\<lparr>dm_ns := tree_run [OpAllocate ''host.z''] NewTree\<rparr>"

definition ex_doc :: nodeDoc where
  "ex_doc = \<lparr>no_Node = ''n1'', no_Routers = None, no_Hops = None, no_Firsthop = '''', no_Namespace = None\<rparr>"


section \<open>The deployed network\<close>

text \<open>The two configuration files of the deployment, \<^verbatim>\<open>deploy/node1.json\<close> and \<^verbatim>\<open>deploy/node2.json\<close>. They are laid out as
  \<open>json_indent\<close> writes them.\<close>

definition deploy_node1 :: json where
  "deploy_node1 =
     JObj [(''node'', JStr ''dnxroute1''), (''routers'', JArr [JObj [(''name'', JStr ''core''), (''depth'', JInt 0), (''nids'',
     JObj [(''1'', JStr ''dom-dnxroute''), (''2'', JStr ''gov-core'')])], JObj [(''name'', JStr ''dnxroute-gw''), (''depth'', JInt 1), (''nids'', JObj [(''1'', JStr ''sub-dnx'')])]]), (''hops'', JObj [(''dom-dnxroute'', JStr '':localnext''), (''gov-core'',
     JStr '':deliver''), (''sub-dnx'', JStr ''134.122.7.99:4500'')]), (''firsthop'', JStr ''core''), (''namespace'', JArr [JStr
     ''host1.dnx.dnxroute.com'', JStr ''host2.dnx.dnxroute.com'', JStr ''core.gov''])]"

definition deploy_node2 :: json where
  "deploy_node2 =
     JObj [(''node'', JStr ''dnxroute2''), (''routers'', JArr [JObj [(''name'', JStr ''dnx-rtr''), (''depth'', JInt 2), (''nids'',
     JObj [(''1'', JStr ''leaf-sw'')])], JObj [(''name'', JStr ''leaf-sw''), (''depth'', JInt 3), (''nids'', JObj [(''1'', JStr
     ''host1''), (''2'', JStr ''host2'')])]]), (''hops'', JObj [(''leaf-sw'', JStr '':localnext''), (''host1'', JStr '':deliver''),
     (''host2'', JStr '':deliver'')]), (''firsthop'', JStr ''dnx-rtr''), (''namespace'', JArr [JStr ''host1.dnx.dnxroute.com'', JStr
     ''host2.dnx.dnxroute.com'', JStr ''core.gov''])]"

definition deploy_file :: "json \<Rightarrow> string" where
  "deploy_file v = json_indent 0 v @ [nl]"

lemma rt_main_file:
  assumes "json_ok 0 v" "decode_struct node_fields node_store node0 v = Some b" "start_legacy (cfg_of (node_of b)) = Inr d"
  shows "rt_main P '''' key nonce ans (Some (deploy_file v)) = Inr (node_of b, d)"
  using assms by (simp add: rt_main_def cfg_parse_def deploy_file_def json_parse_indent rt_start_def)

lemma deploy_ok: "json_ok 0 deploy_node1" "json_ok 0 deploy_node2"
  by (simp_all add: deploy_node1_def deploy_node2_def JInt_def maxNestingDepth_def)

definition deploy_doc :: "json \<Rightarrow> nodeDoc" where
  "deploy_doc v = node_of (the (decode_struct node_fields node_store node0 v))"

definition deploy_daemon :: "json \<Rightarrow> daemon" where
  "deploy_daemon v = (case start_legacy (cfg_of (deploy_doc v)) of Inr d \<Rightarrow> d | Inl e \<Rightarrow> ex_node)"

lemma deploy_starts:
  assumes "json_ok 0 v" "decode_struct node_fields node_store node0 v \<noteq> None" "\<not> isl (start_legacy (cfg_of (deploy_doc v)))"
  shows "rt_main P '''' key nonce ans (Some (deploy_file v)) = Inr (deploy_doc v, deploy_daemon v)"
  using assms rt_main_file [of v "the (decode_struct node_fields node_store node0 v)" "deploy_daemon v"]
  by (cases "start_legacy (cfg_of (deploy_doc v))") (auto simp: deploy_doc_def deploy_daemon_def)

definition inject_request :: "string \<Rightarrow> string" where
  "inject_request name = json_print (JObj [(''name'', JStr name)])"

text \<open>A packet injected at the first node: the address it is sent to, and the actions recorded on both nodes.\<close>

definition journey :: "daemon \<Rightarrow> daemon \<Rightarrow> string \<Rightarrow> string \<times> string list \<times> string list" where
  "journey d1 d2 name =
     (case serveTelemetry (\<lambda>r. True) Some 0 ex_doc ''/inject'' (inject_request name) d1 of
        (_, None, d1') \<Rightarrow> ('''', map ev_Action (dm_events d1'), [])
      | (_, Some (addr, b), d1') \<Rightarrow> (addr, map ev_Action (dm_events d1'), map ev_Action (dm_events (snd (rt_receive Some 0 b d2)))))"

text \<open>The files of the deployment make two nodes that carry packets for the hosts from the first to the second, where
  they are delivered, and deliver packets for \<^verbatim>\<open>core.gov\<close> on the first.\<close>

theorem deployed_network_delivers:
  "\<exists>c1 d1 c2 d2. rt_main P '''' key nonce ans (Some (deploy_file deploy_node1)) = Inr (c1, d1) \<and>
     rt_main P '''' key nonce ans (Some (deploy_file deploy_node2)) = Inr (c2, d2) \<and>
     journey d1 d2 ''host1.dnx.dnxroute.com'' = (''134.122.7.99:4500'', [''inject'', ''forward'', ''forward''], [''forward'', ''deliver'']) \<and>
     journey d1 d2 ''host2.dnx.dnxroute.com'' = (''134.122.7.99:4500'', [''inject'', ''forward'', ''forward''], [''forward'', ''deliver'']) \<and>
     journey d1 d2 ''core.gov'' = ('''', [''inject'', ''deliver''], [])"
proof -
  let ?d1 = "deploy_daemon deploy_node1" and ?d2 = "deploy_daemon deploy_node2"
  have "rt_main P '''' key nonce ans (Some (deploy_file deploy_node1)) = Inr (deploy_doc deploy_node1, ?d1)"
    by (rule deploy_starts [OF deploy_ok(1)]) code_simp+
  moreover have "rt_main P '''' key nonce ans (Some (deploy_file deploy_node2)) = Inr (deploy_doc deploy_node2, ?d2)"
    by (rule deploy_starts [OF deploy_ok(2)]) code_simp+
  moreover have "journey ?d1 ?d2 ''host1.dnx.dnxroute.com'' = (''134.122.7.99:4500'', [''inject'', ''forward'', ''forward''], [''forward'', ''deliver''])"
    "journey ?d1 ?d2 ''host2.dnx.dnxroute.com'' = (''134.122.7.99:4500'', [''inject'', ''forward'', ''forward''], [''forward'', ''deliver''])"
    "journey ?d1 ?d2 ''core.gov'' = ('''', [''inject'', ''deliver''], [])" by code_simp+
  ultimately show ?thesis by blast
qed

end
