(* ===== verification/Ns_Restore.thy ===== *)
theory Ns_Restore
  imports Ns_Persist
begin

text \<open>
  A restored tree is a tree like any other: \<^verbatim>\<open>Restore\<close> of an acceptable snapshot gives a heap that satisfies the
  invariant of the allocator, so that everything proved about \<^verbatim>\<open>Allocate\<close>, \<^verbatim>\<open>Forget\<close> and \<^verbatim>\<open>Graft\<close> holds after a restart.
\<close>

text \<open>The invariant for the part of a heap from \<open>a\<close> on.\<close>

definition heap_seg :: "heap \<Rightarrow> nat \<Rightarrow> bool" where
  "heap_seg h a \<longleftrightarrow>
     (\<forall>b. a \<le> b \<and> b < length h \<longrightarrow> node_ok h b) \<and>
     (\<forall>b c l m d. a \<le> b \<and> b < length h \<and> a \<le> c \<and> c < length h \<and> child_at h b l = Some d \<and> child_at h c m = Some d \<longrightarrow> b = c) \<and>
     (\<forall>b l c. a \<le> b \<and> b < length h \<and> child_at h b l = Some c \<longrightarrow> below_counter (nd_nid (h ! c)) (nd_nextNID (h ! b)))"

lemma segment_node: "heap_seg h a \<Longrightarrow> a \<le> b \<Longrightarrow> b < length h \<Longrightarrow> node_ok h b"
  unfolding heap_seg_def by blast

lemma segment_parent:
  "heap_seg h a \<Longrightarrow> a \<le> b \<Longrightarrow> b < length h \<Longrightarrow> a \<le> c \<Longrightarrow> c < length h \<Longrightarrow> child_at h b l = Some d \<Longrightarrow> child_at h c m = Some d \<Longrightarrow> b = c"
  unfolding heap_seg_def by blast

lemma segment_counter: "heap_seg h a \<Longrightarrow> a \<le> b \<Longrightarrow> b < length h \<Longrightarrow> child_at h b l = Some c \<Longrightarrow> below_counter (nd_nid (h ! c)) (nd_nextNID (h ! b))"
  unfolding heap_seg_def by blast

text \<open>A node is unaffected by changes to the heap that keep it and the nodes above it.\<close>

lemma node_ok_agree:
  assumes "node_ok h b" "h' ! b = h ! b" "length h \<le> length h'" "\<And>c. b < c \<Longrightarrow> c < length h \<Longrightarrow> h' ! c = h ! c"
  shows "node_ok h' b"
proof -
  have up: "b < c \<and> c < length h" if "child_at h b l = Some c" for l c using node_okD [OF assms(1) that] by simp
  have nid: "b < c \<and> c < length h" if "nid_at h b k = Some c" for k c using node_ok_nidD(2) [OF assms(1) that] up by blast
  show ?thesis
    unfolding node_ok_def assms(2)
  proof (intro conjI allI impI)
    fix l c assume c: "child_at h b l = Some c"
    then have "h' ! c = h ! c" using assms(4) up by blast
    then show "b < c" "c < length h'" "nd_label (h' ! c) = l" "nd_nid (h' ! c) \<noteq> 0" "nid_at h b (nd_nid (h' ! c)) = Some c"
      using node_okD [OF assms(1) c] assms(3) by simp_all
  next
    fix k c assume c: "nid_at h b k = Some c"
    then have "h' ! c = h ! c" using assms(4) nid by blast
    then show "nd_nid (h' ! c) = k" "child_at h b (nd_label (h' ! c)) = Some c" using node_ok_nidD [OF assms(1) c] by simp_all
  qed (use assms(1) in \<open>simp_all add: node_ok_def\<close>)
qed

text \<open>Linking a finished child under the node at \<open>n\<close>.\<close>

lemma segment_link:
  assumes n: "n < length h" and h1: "take (length h) h1 = h" "length h < length h1"
    and seg: "heap_seg h n" "heap_seg h1 (length h)"
    and c: "nd_label (h1 ! length h) = l" "nd_nid (h1 ! length h) = k" "k \<noteq> 0" "k < nd_nextNID (h ! n)"
    and new: "child_at h n l = None" "nid_at h n k = None"
    and h2: "h2 = h1[n := (h ! n)\<lparr>nd_children := nd_children (h ! n) @ [(l, length h)], nd_byNID := nd_byNID (h ! n) @ [(k, length h)]\<rparr>]"
  shows "heap_seg h2 n"
proof -
  let ?c = "length h"
  have low: "h2 ! b = h ! b" if "n < b" "b < ?c" for b using that h1(1) h2 by (metis nat_neq_iff nth_list_update_neq nth_take)
  have high: "h2 ! b = h1 ! b" if "?c \<le> b" for b using that n h2 by simp
  have len: "length h2 = length h1" by (simp add: h2)
  have at: "nd_children (h2 ! n) = nd_children (h ! n) @ [(l, ?c)]" "nd_byNID (h2 ! n) = nd_byNID (h ! n) @ [(k, ?c)]" "nd_nextNID (h2 ! n) = nd_nextNID (h ! n)"
    using n h1(2) h2 by simp_all
  have hn: "node_ok h n" using segment_node [OF seg(1) order_refl n] .
  have edge: "child_at h2 n m = Some d \<longleftrightarrow> child_at h n m = Some d \<or> m = l \<and> d = ?c" for m d
    using new(1) unfolding at by (auto simp: map_add_def split: option.splits if_splits)
  have nedge: "nid_at h2 n j = Some d \<longleftrightarrow> nid_at h n j = Some d \<or> j = k \<and> d = ?c" for j d
    using new(2) unfolding at by (auto simp: map_add_def split: option.splits if_splits)
  have old: "n < d \<and> d < ?c" if "child_at h n m = Some d" for m d using node_okD [OF hn that] by simp
  have oldn: "n < d \<and> d < ?c" if "nid_at h n j = Some d" for j d using node_ok_nidD(2) [OF hn that] old by blast
  have node_n: "node_ok h2 n"
    unfolding node_ok_def
  proof (intro conjI allI impI)
    show "distinct (map fst (nd_children (h2 ! n)))" "distinct (map fst (nd_byNID (h2 ! n)))"
      using hn new unfolding at by (auto simp: node_ok_def map_of_eq_None_iff)
  next
    fix m d assume "child_at h2 n m = Some d"
    then consider "child_at h n m = Some d" | "m = l" "d = ?c" using edge by blast
    then have "n < d \<and> d < length h2 \<and> nd_label (h2 ! d) = m \<and> nd_nid (h2 ! d) \<noteq> 0 \<and> nid_at h2 n (nd_nid (h2 ! d)) = Some d"
    proof cases
      case 1
      then show ?thesis using node_okD [OF hn 1] low [of d] h1(2) by (auto simp: nedge len)
    next
      case 2
      then show ?thesis using n h1(2) c high [of ?c] by (auto simp: nedge len)
    qed
    then show "n < d" "d < length h2" "nd_label (h2 ! d) = m" "nd_nid (h2 ! d) \<noteq> 0" "nid_at h2 n (nd_nid (h2 ! d)) = Some d" by blast+
  next
    fix j d assume "nid_at h2 n j = Some d"
    then consider "nid_at h n j = Some d" | "j = k" "d = ?c" using nedge by blast
    then have "nd_nid (h2 ! d) = j \<and> child_at h2 n (nd_label (h2 ! d)) = Some d"
    proof cases
      case 1
      then show ?thesis using node_ok_nidD [OF hn 1] oldn [OF 1] low [of d] by (auto simp: edge)
    next
      case 2
      then show ?thesis using c high [of ?c] by (auto simp: edge)
    qed
    then show "nd_nid (h2 ! d) = j" "child_at h2 n (nd_label (h2 ! d)) = Some d" by blast+
  qed
  have node: "node_ok h2 b" if b: "n \<le> b" "b < length h2" for b
  proof -
    consider "b = n" | "n < b" "b < ?c" | "?c \<le> b" using b by linarith
    then show ?thesis
    proof cases
      case 2
      have "node_ok h b" using segment_node [OF seg(1)] 2 by simp
      then show ?thesis by (rule node_ok_agree) (use low 2 h1(2) len in simp_all)
    next
      case 3
      have "node_ok h1 b" using segment_node [OF seg(2)] 3 b(2) len by simp
      then show ?thesis by (rule node_ok_agree) (use high 3 len in simp_all)
    qed (use node_n in simp)
  qed
  have origin: "b < ?c \<and> child_at h b m = Some d \<and> d < ?c \<or> b = n \<and> m = l \<and> d = ?c \<or> ?c \<le> b \<and> child_at h1 b m = Some d \<and> ?c < d"
    if b: "n \<le> b" "b < length h2" and e: "child_at h2 b m = Some d" for b m d
  proof -
    consider "b = n" | "n < b" "b < ?c" | "?c \<le> b" using b by linarith
    then show ?thesis
    proof cases
      case 1
      then show ?thesis using e n old by (auto simp: edge)
    next
      case 2
      then have "child_at h b m = Some d" using e low by simp
      then show ?thesis using 2 node_okD(2) [OF segment_node [OF seg(1), of b], of m d] by simp
    next
      case 3
      then have "child_at h1 b m = Some d" using e high by simp
      then show ?thesis using 3 b(2) len node_okD(1) [OF segment_node [OF seg(2), of b], of m d] by simp
    qed
  qed
  show ?thesis
    unfolding heap_seg_def
  proof (intro conjI allI impI; elim conjE)
    fix b assume "n \<le> b" "b < length h2"
    then show "node_ok h2 b" by (rule node)
  next
    fix b c m m' d
    assume b: "n \<le> b" "b < length h2" "n \<le> c" "c < length h2" "child_at h2 b m = Some d" "child_at h2 c m' = Some d"
    consider "d < ?c" | "d = ?c" | "?c < d" by linarith
    then show "b = c"
    proof cases
      case 1
      then have "b < ?c" "child_at h b m = Some d" "c < ?c" "child_at h c m' = Some d" using origin [OF b(1,2,5)] origin [OF b(3,4,6)] by auto
      then show ?thesis using segment_parent [OF seg(1) b(1) _ b(3)] by blast
    next
      case 2
      then show ?thesis using origin [OF b(1,2,5)] origin [OF b(3,4,6)] by simp
    next
      case 3
      then have "?c \<le> b" "child_at h1 b m = Some d" "?c \<le> c" "child_at h1 c m' = Some d" using origin [OF b(1,2,5)] origin [OF b(3,4,6)] by auto
      then show ?thesis using segment_parent [OF seg(2)] b(2,4) len by simp
    qed
  next
    fix b m d assume b: "n \<le> b" "b < length h2" "child_at h2 b m = Some d"
    consider "b < ?c" "child_at h b m = Some d" "d < ?c" | "b = n" "m = l" "d = ?c" | "?c \<le> b" "child_at h1 b m = Some d" "?c < d"
      using origin [OF b] by blast
    then show "below_counter (nd_nid (h2 ! d)) (nd_nextNID (h2 ! b))"
    proof cases
      case 1
      have "n < d" using node_okD(1) [OF node [OF b(1,2)] b(3)] b(1) by simp
      moreover have "nd_nextNID (h2 ! b) = nd_nextNID (h ! b)" using low [of b] 1(1) b(1) at(3) by (cases "b = n") auto
      ultimately show ?thesis using segment_counter [OF seg(1) b(1) 1(1,2)] low [of d] 1(3) by simp
    next
      case 2
      then show ?thesis using c high [of ?c] at(3) by (simp add: below_counter_def)
    next
      case 3
      then show ?thesis using segment_counter [OF seg(2) 3(1) _ 3(2)] high b(2) len by simp
    qed
  qed
qed

lemma segment_new: "heap_seg (h @ [(newNode l k)\<lparr>nd_nextNID := x\<rparr>]) (length h)"
  by (auto simp: heap_seg_def node_ok_def less_Suc_eq nth_append newNode_def)

text \<open>What \<open>unpack\<close> returns, along its own recursion.\<close>

lemma unpack_segment:
  "snap_ok s \<Longrightarrow> depth + snap_depth s \<le> MaxDepth \<Longrightarrow> unpack label s depth h = Inr (c, h') \<Longrightarrow>
     heap_seg h' (length h) \<and> nd_label (h' ! length h) = label"
  "building h n nid nxt ds \<Longrightarrow> snap_ok (SnapNode nid nxt (ds @ cs)) \<Longrightarrow> \<forall>p \<in> set cs. depth + Suc (snap_depth (snd p)) \<le> MaxDepth \<Longrightarrow>
   heap_seg h n \<Longrightarrow> unpack_children n cs depth h = Inr h'' \<Longrightarrow> heap_seg h'' n \<and> nd_label (h'' ! n) = nd_label (h ! n)"
proof (induction label s depth h and n cs depth h arbitrary: c h' and nid nxt ds h'' rule: unpack_unpack_children.induct)
  case (1 label nid nxt cs depth h)
  let ?h1 = "h @ [(newNode label nid)\<lparr>nd_nextNID := nxt\<rparr>]"
  have nxt: "nxt > 0" using "1.prems"(1) by simp
  have d: "\<not> depth > MaxDepth" "\<forall>p \<in> set cs. depth + Suc (snap_depth (snd p)) \<le> MaxDepth"
    using "1.prems"(2) fold_max_le [of "map (\<lambda>p. Suc (snap_depth (snd p))) cs" 0 "MaxDepth - depth"] by auto
  have u: "unpack_children (length h) cs depth ?h1 = Inr h'"
    using "1.prems"(3) d(1) nxt by (auto simp: Let_def split: sum.splits)
  have "heap_seg h' (length h) \<and> nd_label (h' ! length h) = nd_label (?h1 ! length h)"
    using "1.IH" [OF d(1) refl refl refl, where ds = "[]" and nid = nid and nxt = nxt] building_start [OF nxt] "1.prems"(1) d(2) nxt segment_new u
    by simp
  then show ?case by (simp add: newNode_def)
next
  case (3 n l s cs depth h)
  have ok: "snap_ok s" "sn_NID s \<noteq> 0" "sn_NID s < nxt" "l \<notin> fst ` set ds" "sn_NID s \<notin> (\<lambda>p. sn_NID (snd p)) ` set ds"
    using "3.prems"(2) by auto
  have dep: "depth + 1 + snap_depth s \<le> MaxDepth" using "3.prems"(3) by simp
  obtain h1 where u: "unpack l s (depth + 1) h = Inr (length h, h1)" and bt: "built h h1 s"
    using unpack_ok(1) [OF ok(1) dep] by blast
  have n: "n < length h" using "3.prems"(1) region_bounds unfolding building_def by blast
  have h1n: "h1 ! n = h ! n" using built_prefix [OF bt n] .
  have nid: "nd_nid (h1 ! length h) = sn_NID s" using bt by (auto simp: built_def)
  have bn: "map fst (nd_children (h ! n)) = map fst ds" "nd_nextNID (h ! n) = nxt" "fst ` set (nd_byNID (h ! n)) = (\<lambda>p. sn_NID (snd p)) ` set ds"
    using "3.prems"(1) by (auto simp: building_def)
  have free: "l \<notin> fst ` set (nd_children (h ! n))" "sn_NID s \<notin> fst ` set (nd_byNID (h ! n))" using bn ok(4,5) by (metis list.set_map, simp)
  let ?h = "h1[n := (h1 ! n)\<lparr>nd_children := AList.update l (length h) (nd_children (h1 ! n)),
      nd_byNID := AList.update (nd_nid (h1 ! length h)) (length h) (nd_byNID (h1 ! n))\<rparr>]"
  have b: "building ?h n nid nxt (ds @ [(l, s)])" using building_snoc [OF "3.prems"(1) bt ok(4,5)] .
  have s1: "heap_seg h1 (length h)" "nd_label (h1 ! length h) = l" using "3.IH"(1) [OF ok(1) _ u] dep by auto
  have len: "take (length h) h1 = h" "length h < length h1" using bt region_bounds unfolding built_def by blast+
  have "heap_seg ?h n"
    by (rule segment_link [OF n len "3.prems"(4) s1(1,2) nid ok(2)]) (use free bn(2) ok(3) h1n nid in \<open>simp_all add: update_absent map_of_eq_None_iff\<close>)
  moreover have rest: "unpack_children n cs depth ?h = Inr h''"
    using "3.prems"(5) u ok nid free bn(2) h1n by (auto simp: map_of_eq_None_iff split: if_splits)
  moreover have "map_of (nd_byNID (h1 ! n)) (nd_nid (h1 ! length h)) = None" using free nid h1n by (simp add: map_of_eq_None_iff)
  ultimately have "heap_seg h'' n \<and> nd_label (h'' ! n) = nd_label (?h ! n)"
    using "3.IH"(2) [OF u refl _ _ _ b] "3.prems"(2,3) ok nid bn(2) h1n by simp
  then show ?case using n len(2) h1n by simp
qed simp

theorem Restore_inv:
  assumes "snap_ok s" "snap_depth s \<le> MaxDepth" "Restore s = Inr t"
  shows "tree_inv t"
proof -
  obtain c h' where u: "unpack '''' s 0 [] = Inr (c, h')" "t = \<lparr>t_heap = h', t_root = c\<rparr>" using assms(3) by (auto simp: Restore_def split: sum.splits)
  obtain h where "unpack '''' s 0 [] = Inr (length ([] :: heap), h)" "built [] h s"
    using unpack_ok(1) [OF assms(1), of 0 "''''" "[]"] assms(2) by auto
  then have c: "c = 0" "0 < length h'" using u(1) region_bounds by (auto simp: built_def)
  have seg: "heap_seg h' 0" using unpack_segment(1) [OF assms(1) _ u(1)] assms(2) by simp
  have "heap_inv h'"
    unfolding heap_inv_def using segment_node [OF seg le0] segment_parent [OF seg le0 _ le0] by meson
  moreover have "counters_ok h'" unfolding counters_ok_def using segment_counter [OF seg le0] by meson
  ultimately show ?thesis using u(2) c by (simp add: tree_inv_def)
qed

end
