(* ===== verification/Snap_File.thy ===== *)
theory Snap_File
  imports Go_Json Json_Indent Ns_Restore "HOL-Library.Multiset"
begin

text \<open>
  The file of the identifier table: the bytes \<^verbatim>\<open>Snapshot\<close> writes and \<^verbatim>\<open>Restore\<close> reads (\<^verbatim>\<open>internal/nspath/persist.go\<close>). The
  children of a node are a Go map, so the file lists them in the order of their labels (\<open>canon\<close>). In what is
  read a child may be \<^verbatim>\<open>null\<close>, a nil pointer that \<^verbatim>\<open>Restore\<close> would follow.
\<close>

section \<open>Writing\<close>

fun canon :: "snapNode \<Rightarrow> snapNode" where
  "canon (SnapNode nid nxt cs) = SnapNode nid nxt (sort_key fst (map (\<lambda>(l, s). (l, canon s)) cs))"

fun snap_json :: "snapNode \<Rightarrow> json" where
  "snap_json (SnapNode nid nxt cs) =
     JObj ([(''nid'', JInt (uint nid)), (''next'', JInt (uint nxt))] @
       (if cs = [] then [] else [(''children'', JObj (map (\<lambda>(l, s). (l, snap_json s)) cs))]))"

definition Snapshot_text :: "tree \<Rightarrow> string" where
  "Snapshot_text t = json_indent 0 (snap_json (canon (Snapshot t)))"

section \<open>Reading\<close>

datatype snapIn = SnapIn u32 u32 "(string \<times> snapIn option) list"

definition snap_fields :: "string list" where
  "snap_fields = [''nid'', ''next'', ''children'']"

function (sequential) get_snap :: "json \<Rightarrow> snapIn \<Rightarrow> snapIn option"
  and get_snap_fields :: "(string \<times> json) list \<Rightarrow> snapIn \<Rightarrow> snapIn option"
  and get_kids :: "(string \<times> json) list \<Rightarrow> (string \<times> snapIn option) list \<Rightarrow> (string \<times> snapIn option) list option" where
  "get_snap JNull s = Some s"
| "get_snap (JObj ms) s = get_snap_fields ms s"
| "get_snap _ s = None"
| "get_snap_fields [] s = Some s"
| "get_snap_fields ((k, v) # ms) (SnapIn nid nxt cs) =
     (case field snap_fields k of
        None \<Rightarrow> get_snap_fields ms (SnapIn nid nxt cs)
      | Some f \<Rightarrow>
          if f = ''nid'' then (case get_nid v nid of None \<Rightarrow> None | Some n \<Rightarrow> get_snap_fields ms (SnapIn n nxt cs))
          else if f = ''next'' then (case get_nid v nxt of None \<Rightarrow> None | Some n \<Rightarrow> get_snap_fields ms (SnapIn nid n cs))
          else (case v of
                  JNull \<Rightarrow> get_snap_fields ms (SnapIn nid nxt [])
                | JObj ks \<Rightarrow> (case get_kids ks cs of None \<Rightarrow> None | Some cs' \<Rightarrow> get_snap_fields ms (SnapIn nid nxt cs'))
                | _ \<Rightarrow> None))"
| "get_kids [] m = Some m"
| "get_kids ((k, v) # ks) m =
     (if v = JNull then get_kids ks (map_put k None m)
      else (case get_snap v (SnapIn 0 0 []) of None \<Rightarrow> None | Some s \<Rightarrow> get_kids ks (map_put k (Some s) m)))"
  by pat_completeness auto
termination
  by (relation "measure (case_sum (\<lambda>(v, s). size v) (case_sum (\<lambda>(ms, s). size_list (size_prod (\<lambda>_. 0) size) ms) (\<lambda>(ks, m). size_list (size_prod (\<lambda>_. 0) size) ks)))")
    auto

fun snap_of :: "snapIn \<Rightarrow> snapNode option"
  and kids_of :: "(string \<times> snapIn option) list \<Rightarrow> (string \<times> snapNode) list option" where
  "snap_of (SnapIn nid nxt cs) = map_option (SnapNode nid nxt) (kids_of cs)"
| "kids_of [] = Some []"
| "kids_of ((l, None) # cs) = None"
| "kids_of ((l, Some s) # cs) =
     (case (snap_of s, kids_of cs) of (Some x, Some xs) \<Rightarrow> Some ((l, x) # xs) | _ \<Rightarrow> None)"

datatype restore_error = SnapSyntax | SnapRefused snap_error

text \<open>
  \<^verbatim>\<open>Restore\<close> on the bytes of a file. \<open>None\<close>: a child is a nil pointer, and the call panics unless it meets another
  error first in the order in which it visits the children.
\<close>

definition Restore_text :: "string \<Rightarrow> (restore_error + tree) option" where
  "Restore_text s =
     (case json_parse s of
        None \<Rightarrow> Some (Inl SnapSyntax)
      | Some v \<Rightarrow>
          (case get_snap v (SnapIn 0 0 []) of
             None \<Rightarrow> Some (Inl SnapSyntax)
           | Some i \<Rightarrow>
               (case snap_of i of
                  None \<Rightarrow> None
                | Some n \<Rightarrow> (case Restore n of Inl e \<Rightarrow> Some (Inl (SnapRefused e)) | Inr t \<Rightarrow> Some (Inr t)))))"

section \<open>The order of the children\<close>

lemma map_insort_snd: "map (\<lambda>(l, s). (l, f s)) (insort_key fst x cs) = insort_key fst ((\<lambda>(l, s). (l, f s)) x) (map (\<lambda>(l, s). (l, f s)) cs)"
  by (induction cs) (auto simp: case_prod_beta)

lemma sort_key_map_snd: "sort_key fst (map (\<lambda>(l, s). (l, f s)) cs) = map (\<lambda>(l, s). (l, f s)) (sort_key fst cs)"
  by (induction cs) (simp_all add: map_insort_snd)

lemma distinct_sort_key: "distinct (map f (sort_key g cs)) \<longleftrightarrow> distinct (map f cs)"
  by (metis mset_eq_imp_distinct_iff mset_map mset_sort)

lemma map_of_sort: "distinct (map fst cs) \<Longrightarrow> map_of (sort_key fst cs) = map_of cs"
  by (subst map_of_inject_set) (simp_all add: distinct_sort_key)

lemma canon_simp: "canon (SnapNode nid nxt cs) = SnapNode nid nxt (map (\<lambda>(l, s). (l, canon s)) (sort_key fst cs))"
  by (simp add: sort_key_map_snd)

declare canon.simps [simp del]

lemma canon_NID [simp]: "sn_NID (canon s) = sn_NID s"
  by (cases s) (simp add: canon_simp)

lemma comp_snd: "fst \<circ> (\<lambda>(l, s). (l, f s)) = fst" "(\<lambda>p. sn_NID (snd p)) \<circ> (\<lambda>(l, s). (l, canon s)) = (\<lambda>p. sn_NID (snd p))"
  by auto

lemma snap_ok_canon: "snap_ok s \<Longrightarrow> snap_ok (canon s)"
  by (induction s rule: canon.induct) (auto simp: canon_simp distinct_sort_key comp_snd)

lemma snap_depth_canon: "snap_depth s \<le> d \<Longrightarrow> snap_depth (canon s) \<le> d"
proof (induction s arbitrary: d rule: canon.induct)
  case (1 nid nxt cs)
  have "Suc (snap_depth (canon c)) \<le> d" if "(l, c) \<in> set cs" for l c
  proof -
    have "Suc (snap_depth c) \<le> d" using that "1.prems" by (force simp: fold_max_le)
    then show ?thesis using "1.IH" [OF that refl, of "d - 1"] by (cases d) simp_all
  qed
  then show ?case by (auto simp: canon_simp fold_max_le)
qed

lemma map_of_map_snd: "map_of (map (\<lambda>(l, s). (l, f s)) cs) l = map_option f (map_of cs l)"
  by (induction cs) auto

lemma snap_resolve_canon: "snap_ok s \<Longrightarrow> snap_resolve (canon s) ls acc = snap_resolve s ls acc"
proof (induction ls arbitrary: s acc)
  case (Cons l ls)
  obtain nid nxt cs where s: "s = SnapNode nid nxt cs" by (cases s)
  have m: "map_of (sn_Children (canon s)) l = map_option canon (map_of cs l)"
    using Cons.prems by (simp add: s canon_simp map_of_map_snd map_of_sort)
  show ?case
  proof (cases "map_of cs l")
    case (Some c)
    then have "snap_ok c" using Cons.prems map_of_SomeD [OF Some] by (auto simp: s)
    then show ?thesis using Cons.IH Some m by (simp add: s)
  qed (use m in \<open>simp add: s\<close>)
qed simp

text \<open>Sorted all the way down, with labels that satisfy \<open>P\<close>.\<close>

fun snap_keys :: "(string \<Rightarrow> bool) \<Rightarrow> snapNode \<Rightarrow> bool" where
  "snap_keys P (SnapNode nid nxt cs) \<longleftrightarrow> (\<forall>p \<in> set cs. P (fst p) \<and> snap_keys P (snd p))"

fun snap_sorted :: "snapNode \<Rightarrow> bool" where
  "snap_sorted (SnapNode nid nxt cs) \<longleftrightarrow> key_sorted cs \<and> (\<forall>p \<in> set cs. snap_sorted (snd p))"

lemma key_sorted_sort: "distinct (map fst cs) \<Longrightarrow> key_sorted (sort_key fst cs)"
  by (simp add: key_sorted_def strict_sorted_iff distinct_sort_key)

lemma canon_keys: "snap_keys P s \<Longrightarrow> snap_keys P (canon s)"
  by (induction s rule: canon.induct) (auto simp: canon_simp)

lemma canon_sorted: "snap_ok s \<Longrightarrow> snap_sorted (canon s)"
proof (induction s rule: canon.induct)
  case (1 nid nxt cs)
  have "key_sorted (map (\<lambda>(l, s). (l, canon s)) (sort_key fst cs))"
    using key_sorted_sort [of cs] "1.prems" by (simp add: key_sorted_def comp_snd)
  then show ?case using 1 by (auto simp: canon_simp)
qed

lemma canon_id: "snap_sorted s \<Longrightarrow> canon s = s"
proof (induction s rule: canon.induct)
  case (1 nid nxt cs)
  have "sorted (map fst cs)" using "1.prems" by (simp add: key_sorted_def strict_sorted_iff)
  then have "sort_key fst cs = cs" by (simp add: sorted_sort_id sort_key_id_if_sorted)
  moreover have "map (\<lambda>(l, s). (l, canon s)) cs = cs" using 1 by (intro map_idI) auto
  ultimately show ?case by (simp add: canon_simp)
qed

section \<open>What is written is read back\<close>

fun in_of :: "snapNode \<Rightarrow> snapIn" where
  "in_of (SnapNode nid nxt cs) = SnapIn nid nxt (map (\<lambda>(l, s). (l, Some (in_of s))) cs)"

lemma snap_of_in: "snap_of (in_of s) = Some s"
proof (induction s rule: in_of.induct)
  case (1 nid nxt cs)
  have "\<forall>p \<in> set cs. snap_of (in_of (snd p)) = Some (snd p)" using 1 by auto
  then have "kids_of (map (\<lambda>(l, s). (l, Some (in_of s))) cs) = Some cs" by (induction cs) auto
  then show ?case by simp
qed

lemma get_nid_JInt [simp]: "get_nid (JInt (uint n)) old = Some n"
  using get_uint_word [of n "unat old"] by (simp add: get_nid_def)

lemma snap_json_ne [simp]: "snap_json s \<noteq> JNull"
  by (cases s) simp

lemma get_snap_json: "snap_sorted s \<Longrightarrow> get_snap (snap_json s) (SnapIn 0 0 []) = Some (in_of s)"
proof (induction s rule: in_of.induct)
  case (1 nid nxt cs)
  have "get_kids (map (\<lambda>(l, s). (l, snap_json s)) ds) (map (\<lambda>(l, s). (l, Some (in_of s))) es) = Some (map (\<lambda>(l, s). (l, Some (in_of s))) (es @ ds))"
    if "cs = es @ ds" for es ds
    using that
  proof (induction ds arbitrary: es)
    case (Cons d ds)
    obtain l s where d: "d = (l, s)" by fastforce
    have mem: "d \<in> set cs" by (simp only: Cons.prems) simp
    then have "snap_sorted s" using "1.prems" d by auto
    then have s: "get_snap (snap_json s) (SnapIn 0 0 []) = Some (in_of s)" using "1.IH" [OF mem d [symmetric]] by simp
    have "\<forall>x \<in> fst ` set es. x < l" using "1.prems" Cons.prems d by (simp add: key_sorted_def sorted_wrt_append)
    moreover have "fst ` set (map (\<lambda>(l, s). (l, Some (in_of s))) es) = fst ` set es" by force
    ultimately have "map_put l (Some (in_of s)) (map (\<lambda>(l, s). (l, Some (in_of s))) es) = map (\<lambda>(l, s). (l, Some (in_of s))) (es @ [d])"
      using map_put_last [of "map (\<lambda>(l, s). (l, Some (in_of s))) es" l] d by simp
    then show ?case using Cons.IH [of "es @ [d]"] Cons.prems d s by simp
  qed simp
  from this [of "[]" cs] show ?case by (simp add: field_exact snap_fields_def)
qed

lemma json_ok_snap: "snap_keys valid_utf8 s \<Longrightarrow> d + 2 * snap_depth s + 2 \<le> maxNestingDepth \<Longrightarrow> json_ok d (snap_json s)"
proof (induction s arbitrary: d rule: in_of.induct)
  case (1 nid nxt cs)
  have "json_ok (d + 2) (snap_json c)" if "(l, c) \<in> set cs" for l c
  proof -
    have "Suc (snap_depth c) \<le> snap_depth (SnapNode nid nxt cs)" 
      using that fold_max_le [of "map (\<lambda>p. Suc (snap_depth (snd p))) cs" 0 "snap_depth (SnapNode nid nxt cs)"] by force
    then show ?thesis using "1.IH" [OF that refl, of "d + 2"] "1.prems" that by auto
  qed
  then show ?case using "1.prems" by (auto simp: JInt_def)
qed

lemma Snapshot_text_read:
  assumes "snap_ok (Snapshot t)" "snap_depth (Snapshot t) \<le> MaxDepth" "snap_keys valid_utf8 (Snapshot t)"
  shows "json_parse (Snapshot_text t) = Some (snap_json (canon (Snapshot t)))"
    "get_snap (snap_json (canon (Snapshot t))) (SnapIn 0 0 []) = Some (in_of (canon (Snapshot t)))"
proof -
  let ?s = "canon (Snapshot t)"
  have "snap_depth ?s \<le> MaxDepth" using assms(2) by (rule snap_depth_canon)
  then have "json_ok 0 (snap_json ?s)" using canon_keys [OF assms(3)] by (intro json_ok_snap) (simp_all add: MaxDepth_def maxNestingDepth_def)
  then show "json_parse (Snapshot_text t) = Some (snap_json ?s)" unfolding Snapshot_text_def by (rule json_parse_indent)
  show "get_snap (snap_json ?s) (SnapIn 0 0 []) = Some (in_of ?s)" using assms(1) by (intro get_snap_json canon_sorted)
qed

text \<open>A restart from the file: the restored tree resolves every name as before, and writes the same file.\<close>

lemma Snapshot_restored:
  assumes "tree_inv t" "depth_ok (t_root t) (t_heap t)" "\<forall>a < length (t_heap t). nd_nextNID (t_heap t ! a) \<noteq> 0"
  obtains t' where "snap_ok (Snapshot t)" "snap_depth (Snapshot t) \<le> MaxDepth" "Restore (canon (Snapshot t)) = Inr t'" "tree_inv t'"
    "Snapshot t' = canon (Snapshot t)" "\<And>n. Resolve t' n = Resolve t n"
proof -
  let ?s = "Snapshot t"
  have ok: "snap_ok ?s" "snap_depth ?s \<le> MaxDepth"
    using assms(1-3) pack_ok pack_depth by (auto simp: Snapshot_def tree_inv_def depth_ok_def)
  have c: "snap_ok (canon ?s)" "snap_depth (canon ?s) \<le> MaxDepth" using ok by (auto intro: snap_ok_canon snap_depth_canon)
  obtain t' where t: "Restore (canon ?s) = Inr t'" "Snapshot t' = canon ?s" using Restore_ok [OF c] by blast
  have "Resolve t' n = Resolve t n" for n
    using Restore_Resolve [OF c t(1)] Resolve_Snapshot [OF assms(1)] snap_resolve_canon [OF ok(1)] by simp
  then show ?thesis using that [OF ok t(1) Restore_inv [OF c t(1)] t(2)] by blast
qed

lemma restore_file:
  assumes "tree_inv t" "depth_ok (t_root t) (t_heap t)" "\<forall>a < length (t_heap t). nd_nextNID (t_heap t ! a) \<noteq> 0" "snap_keys valid_utf8 (Snapshot t)"
  shows "\<exists>t'. Restore_text (Snapshot_text t) = Some (Inr t') \<and> tree_inv t' \<and> Snapshot_text t' = Snapshot_text t \<and> (\<forall>n. Resolve t' n = Resolve t n)"
proof -
  obtain t' where t': "snap_ok (Snapshot t)" "snap_depth (Snapshot t) \<le> MaxDepth" "Restore (canon (Snapshot t)) = Inr t'" "tree_inv t'"
    "Snapshot t' = canon (Snapshot t)" "\<And>n. Resolve t' n = Resolve t n" using Snapshot_restored [OF assms(1-3)] by metis
  have "Snapshot_text t' = Snapshot_text t" by (simp add: Snapshot_text_def t'(5) canon_id [OF canon_sorted [OF t'(1)]])
  then show ?thesis using Snapshot_text_read [OF t'(1,2) assms(4)] t'(3,4,6) by (simp add: Restore_text_def snap_of_in)
qed

definition ex_run :: "tree_op list" where
  "ex_run = [OpAllocate ''b.a'', OpAllocate ''c.a'', OpForget ''b.a'']"

text \<open>C29. A restart loses nothing, down to the bytes of the file: whatever allocations and releases led to the tree,
  as long as no counter is used up, \<^verbatim>\<open>Restore\<close> accepts the file that \<^verbatim>\<open>Snapshot\<close> wrote, the restored tree satisfies the
  invariant of the allocator, writes the same file again (counters included), and resolves every name as before. Labels are valid UTF-8, as they
  are when names arrive in messages; JSON would replace other bytes.\<close>

theorem restart_keeps_everything:
  assumes "list_all (\<lambda>d. nd_nextNID d \<noteq> 0) (t_heap (tree_run ops NewTree))" and "snap_keys valid_utf8 (Snapshot (tree_run ops NewTree))"
  shows "\<exists>t'. Restore_text (Snapshot_text (tree_run ops NewTree)) = Some (Inr t') \<and> tree_inv t' \<and>
    Snapshot_text t' = Snapshot_text (tree_run ops NewTree) \<and> (\<forall>n. Resolve t' n = Resolve (tree_run ops NewTree) n)"
  using restore_file [OF _ _ _ assms(2)] tree_run_depth [of ops] assms(1) by (auto simp: list_all_length)

theorem restart_keeps_everything_witness:
  "\<exists>t'. Restore_text (Snapshot_text (tree_run ex_run NewTree)) = Some (Inr t') \<and> Resolve t' ''c.a'' = Inr [1, 2]"
proof -
  have "list_all (\<lambda>d. nd_nextNID d \<noteq> 0) (t_heap (tree_run ex_run NewTree))" "snap_keys valid_utf8 (Snapshot (tree_run ex_run NewTree))" by code_simp+
  moreover have "Resolve (tree_run ex_run NewTree) ''c.a'' = Inr [1, 2]" by code_simp
  ultimately show ?thesis using restart_keeps_everything [of ex_run] by metis
qed

end
