(* ===== verification/State_Files.thy ===== *)
theory State_Files
  imports Registry Identity Snap_File Go_Rfc3339
begin

text \<open>
  The files of a registry and of an agent as bytes: ownership (\<^verbatim>\<open>persistedBinding\<close>), delegations, the signing key
  (\<^verbatim>\<open>registryKeyFile\<close>), the identifier table and the identity. The operations of \<open>Registry\<close> and \<open>Identity\<close> work on what
  reading a file gives; here that is computed from the bytes, and the bytes that are written are those from
  which the same value is read. The offset of the local zone, which only shows in the text of times, is an
  argument.
\<close>

datatype stored = NoFile | NoAccess | Text string

definition read_as :: "(json \<Rightarrow> 'a option) \<Rightarrow> stored \<Rightarrow> 'a disk" where
  "read_as get f =
     (case f of
        NoFile \<Rightarrow> Missing
      | NoAccess \<Rightarrow> Unreadable
      | Text s \<Rightarrow> (case json_parse s of None \<Rightarrow> Corrupt | Some v \<Rightarrow> (case get v of None \<Rightarrow> Corrupt | Some x \<Rightarrow> Content x)))"

definition write_as :: "('a \<Rightarrow> json) \<Rightarrow> 'a \<Rightarrow> stored" where
  "write_as put x = Text (json_indent 0 (put x))"

lemma read_write: "json_ok 0 (put x) \<Longrightarrow> get (put x) = Some y \<Longrightarrow> read_as get (write_as put x) = Content y"
  by (simp add: read_as_def write_as_def json_parse_indent)

section \<open>Identity\<close>

definition identity_fields :: "string list" where
  "identity_fields = [''name'', ''registry'', ''pubkey'', ''privkey'']"

definition identity_store :: "string \<Rightarrow> json \<Rightarrow> identity \<Rightarrow> identity option" where
  "identity_store n v i =
     (if n = ''name'' then map_option (\<lambda>s. i\<lparr>id_Name := s\<rparr>) (get_string v (id_Name i))
      else if n = ''registry'' then map_option (\<lambda>s. i\<lparr>id_Registry := s\<rparr>) (get_string v (id_Registry i))
      else if n = ''pubkey'' then map_option (\<lambda>s. i\<lparr>id_PubB64 := s\<rparr>) (get_string v (id_PubB64 i))
      else map_option (\<lambda>s. i\<lparr>id_PrivB64 := s\<rparr>) (get_string v (id_PrivB64 i)))"

definition get_identity :: "json \<Rightarrow> identity option" where
  "get_identity = decode_struct identity_fields identity_store \<lparr>id_Name = '''', id_Registry = '''', id_PubB64 = '''', id_PrivB64 = ''''\<rparr>"

definition identity_json :: "identity \<Rightarrow> json" where
  "identity_json i = JObj [(''name'', JStr (id_Name i)), (''registry'', JStr (id_Registry i)), (''pubkey'', JStr (id_PubB64 i)), (''privkey'', JStr (id_PrivB64 i))]"

text \<open>\<^verbatim>\<open>LoadOrCreate\<close> on the file: a file that cannot be read counts as absent.\<close>

definition id_file_of :: "stored \<Rightarrow> id_file" where
  "id_file_of f = (case read_as get_identity f of Missing \<Rightarrow> NoIdentity | Unreadable \<Rightarrow> NoIdentity | Corrupt \<Rightarrow> BadIdentity | Content i \<Rightarrow> HasIdentity i)"

definition load_identity :: "bool \<Rightarrow> (bytes \<times> bytes) option \<Rightarrow> bool \<Rightarrow> string \<Rightarrow> string \<Rightarrow> stored \<Rightarrow> (id_error + identity) \<times> stored" where
  "load_identity home gen io name registry f =
     (case LoadOrCreate home gen io name registry (id_file_of f) of
        (r, HasIdentity i) \<Rightarrow> (r, if id_file_of f = NoIdentity then write_as identity_json i else f)
      | (r, _) \<Rightarrow> (r, f))"

lemma get_identity_json: "get_identity (identity_json i) = Some i"
  by (simp add: get_identity_def identity_json_def decode_struct_def field_exact identity_fields_def identity_store_def get_string_def)

section \<open>The signing key\<close>

definition key_fields :: "string list" where "key_fields = [''pubkey'', ''privkey'']"

definition key_store :: "string \<Rightarrow> json \<Rightarrow> registryKeyFile \<Rightarrow> registryKeyFile option" where
  "key_store n v k =
     (if n = ''pubkey'' then map_option (\<lambda>s. k\<lparr>kf_PubB64 := s\<rparr>) (get_string v (kf_PubB64 k))
      else map_option (\<lambda>s. k\<lparr>kf_PrivB64 := s\<rparr>) (get_string v (kf_PrivB64 k)))"

definition get_key :: "json \<Rightarrow> registryKeyFile option" where
  "get_key = decode_struct key_fields key_store \<lparr>kf_PubB64 = '''', kf_PrivB64 = ''''\<rparr>"

definition key_json :: "registryKeyFile \<Rightarrow> json" where
  "key_json k = JObj [(''pubkey'', JStr (kf_PubB64 k)), (''privkey'', JStr (kf_PrivB64 k))]"

lemma get_key_json: "get_key (key_json k) = Some k"
  by (simp add: get_key_def key_json_def decode_struct_def field_exact key_fields_def key_store_def get_string_def)

section \<open>Delegations\<close>

definition delegation_fields :: "string list" where "delegation_fields = [''zone'', ''endpoint'', ''key'', ''path'']"

definition delegation_store :: "string \<Rightarrow> json \<Rightarrow> delegation \<Rightarrow> delegation option" where
  "delegation_store n v d =
     (if n = ''zone'' then map_option (\<lambda>s. d\<lparr>dg_Zone := s\<rparr>) (get_string v (dg_Zone d))
      else if n = ''endpoint'' then map_option (\<lambda>s. d\<lparr>dg_Endpoint := s\<rparr>) (get_string v (dg_Endpoint d))
      else if n = ''key'' then map_option (\<lambda>s. d\<lparr>dg_KeyB64 := s\<rparr>) (get_string v (dg_KeyB64 d))
      else map_option (\<lambda>s. d\<lparr>dg_Path := s\<rparr>) (get_string v (dg_Path d)))"

definition delegation0 :: delegation where
  "delegation0 = \<lparr>dg_Zone = '''', dg_Endpoint = '''', dg_KeyB64 = '''', dg_Path = ''''\<rparr>"

definition get_delegation :: "json \<Rightarrow> delegation \<Rightarrow> delegation option" where
  "get_delegation v d = decode_struct delegation_fields delegation_store d v"

definition get_delegations :: "json \<Rightarrow> delegation list option" where
  "get_delegations v = map_option slice_list (get_slice get_delegation delegation0 v slice0)"

section \<open>Ownership\<close>

text \<open>
  A time is a string in JSON and is parsed as such; \<^verbatim>\<open>null\<close> leaves it alone. The zero time stands where no time
  was read.
\<close>

definition get_time :: "json \<Rightarrow> time \<Rightarrow> time option" where
  "get_time v old = (case v of JNull \<Rightarrow> Some old | JStr s \<Rightarrow> rfc3339_parse s | _ \<Rightarrow> None)"

definition binding_fields :: "string list" where "binding_fields = [''name'', ''pubkey'', ''last_seen'']"

definition binding_store :: "string \<Rightarrow> json \<Rightarrow> persistedBinding \<Rightarrow> persistedBinding option" where
  "binding_store n v p =
     (if n = ''name'' then map_option (\<lambda>s. p\<lparr>pb_Name := s\<rparr>) (get_string v (pb_Name p))
      else if n = ''pubkey'' then map_option (\<lambda>s. p\<lparr>pb_PubB64 := s\<rparr>) (get_string v (pb_PubB64 p))
      else map_option (\<lambda>t. p\<lparr>pb_LastSeen := t\<rparr>) (get_time v (pb_LastSeen p)))"

definition binding0 :: persistedBinding where
  "binding0 = \<lparr>pb_Name = '''', pb_PubB64 = '''', pb_LastSeen = zeroTime\<rparr>"

definition get_binding :: "json \<Rightarrow> persistedBinding \<Rightarrow> persistedBinding option" where
  "get_binding v p = decode_struct binding_fields binding_store p v"

definition get_bindings :: "json \<Rightarrow> persistedBinding list option" where
  "get_bindings v = map_option slice_list (get_slice get_binding binding0 v slice0)"

text \<open>Writing fails when a time has no RFC 3339 form, which only has four digits for the year.\<close>

definition binding_json :: "int \<Rightarrow> persistedBinding \<Rightarrow> json option" where
  "binding_json off p =
     map_option (\<lambda>s. JObj [(''name'', JStr (pb_Name p)), (''pubkey'', JStr (pb_PubB64 p)), (''last_seen'', JStr s)]) (rfc3339 off (pb_LastSeen p))"

fun bindings_json :: "int \<Rightarrow> persistedBinding list \<Rightarrow> json list option" where
  "bindings_json off [] = Some []"
| "bindings_json off (p # ps) =
     (case (binding_json off p, bindings_json off ps) of (Some v, Some vs) \<Rightarrow> Some (v # vs) | _ \<Rightarrow> None)"

definition bindings_file :: "int \<Rightarrow> persistedBinding list \<Rightarrow> stored option" where
  "bindings_file off ps = map_option (\<lambda>vs. Text (json_indent 0 (JArr vs))) (bindings_json off ps)"

text \<open>
  \<^verbatim>\<open>save\<close> of the registry and of its identifiers, on the files. A write that fails leaves the old file, since a
  temporary file is written and renamed.
\<close>

definition bindings_of :: "registry \<Rightarrow> persistedBinding list" where
  "bindings_of r = map (\<lambda>(name, rec). \<lparr>pb_Name = name, pb_PubB64 = rr_PubB64 rec, pb_LastSeen = rr_LastSeen rec\<rparr>) (rg_names r)"

definition save_file :: "int \<Rightarrow> bool \<Rightarrow> registry \<Rightarrow> stored \<Rightarrow> bool \<times> stored" where
  "save_file off io r f =
     (if rg_statePath r = '''' then (True, f)
      else case bindings_file off (bindings_of r) of
             None \<Rightarrow> (False, f)
           | Some g \<Rightarrow> if \<not> io then (False, f) else (True, g))"

definition nid_save_file :: "bool \<Rightarrow> nidStore \<Rightarrow> stored \<Rightarrow> bool \<times> stored" where
  "nid_save_file io s f =
     (if ns_path s = '''' then (True, f)
      else if \<not> io then (False, f)
      else (True, Text (Snapshot_text (ns_tree s))))"

text \<open>The administrative release, on the bytes of the ownership file.\<close>

definition release_file :: "int \<Rightarrow> bool \<Rightarrow> string \<Rightarrow> stored \<Rightarrow> string \<Rightarrow> bool \<times> stored" where
  "release_file off io statePath f name =
     (case release_command io statePath (read_as get_bindings f) name of
        (True, Content ps) \<Rightarrow> (case bindings_file off ps of None \<Rightarrow> (False, f) | Some g \<Rightarrow> (True, g))
      | (b, _) \<Rightarrow> (b, f))"

text \<open>\<^verbatim>\<open>loadOrCreateKey\<close>, on the bytes of the key file.\<close>

definition load_key :: "(bytes \<times> bytes) option \<Rightarrow> bool \<Rightarrow> string \<Rightarrow> stored \<Rightarrow> (key_error + bytes \<times> string) \<times> stored" where
  "load_key gen io path f =
     (case loadOrCreateKey gen io path (read_as get_key f) of
        (r, Content k) \<Rightarrow> (r, if read_as get_key f = Missing then write_as key_json k else f)
      | (r, _) \<Rightarrow> (r, f))"

section \<open>Start from the files\<close>

text \<open>
  \<open>None\<close>: the identifier table names a child that is \<^verbatim>\<open>null\<close>. It is not read without \<^verbatim>\<open>--nids\<close>, nor after delegations
  that are refused.
\<close>

definition read_snap :: "stored \<Rightarrow> snapNode disk option" where
  "read_snap f =
     (case f of
        NoFile \<Rightarrow> Some Missing
      | NoAccess \<Rightarrow> Some Unreadable
      | Text s \<Rightarrow>
          (case json_parse s of
             None \<Rightarrow> Some Corrupt
           | Some v \<Rightarrow>
               (case get_snap v (SnapIn 0 0 []) of
                  None \<Rightarrow> Some Corrupt
                | Some i \<Rightarrow> map_option Content (snap_of i))))"

record reg_files =
  fl_key :: stored
  fl_state :: stored
  fl_delegations :: stored
  fl_nids :: stored

definition boot_files :: "bool \<Rightarrow> reg_config \<Rightarrow> reg_files \<Rightarrow> (boot_error + registry) option" where
  "boot_files io cf fl =
     (let st = read_as get_bindings (fl_state fl);
          ds = read_as get_delegations (fl_delegations fl)
      in case loadDelegations (cf_delegations cf) ds (Normalise (cf_zone cf)) of
           Inl e \<Rightarrow> Some (Inl (BootDelegations e))
         | Inr _ \<Rightarrow>
             if cf_nids cf = '''' then Some (boot io cf \<lparr>dk_state = st, dk_delegations = ds, dk_nids = Missing\<rparr>)
             else map_option (\<lambda>n. boot io cf \<lparr>dk_state = st, dk_delegations = ds, dk_nids = n\<rparr>) (read_snap (fl_nids fl)))"

definition start :: "(bytes \<times> bytes) option \<Rightarrow> bool \<Rightarrow> string \<Rightarrow> reg_config \<Rightarrow> reg_files \<Rightarrow>
    ((key_error + boot_error) + registry) option \<times> reg_files" where
  "start gen io keyPath cf fl =
     (case load_key gen io keyPath (fl_key fl) of
        (Inl e, k) \<Rightarrow> (Some (Inl (Inl e)), fl\<lparr>fl_key := k\<rparr>)
      | (Inr (priv, pub), k) \<Rightarrow>
          (map_option (\<lambda>x. case x of Inl e \<Rightarrow> Inl (Inr e) | Inr r \<Rightarrow> Inr r)
             (boot_files io (cf\<lparr>cf_priv := priv, cf_pub := pub\<rparr>) (fl\<lparr>fl_key := k\<rparr>)),
           fl\<lparr>fl_key := k\<rparr>))"

end
