(* ===== verification/State_Props.thy ===== *)
theory State_Props
  imports State_Files Registry_Props
begin

text \<open>
  A registry that is stopped and started again: what it wrote to its files is read back, the prefixes it was given
  are already in the restored tree, and the owners and paths it knew are those it knew before. The same for the identity of an agent and
  the key of a registry.
\<close>

section \<open>Ownership is read back\<close>

lemma digits_ascii: "list_all is_digit s \<Longrightarrow> ascii s"
  using is_digit_ascii by (auto simp: ascii_def list_all_iff)

lemma fraction_ascii: "ascii (fraction ns)"
proof -
  have "ascii (pad 9 ns)" by (intro digits_ascii) simp
  then have "ascii (trim_zeros (pad 9 ns))" by (subst (asm) trim_zeros_split) simp
  then show ?thesis by (simp add: fraction_def Let_def byte_def)
qed

lemma rfc3339_ascii: "rfc3339 off t = Some s \<Longrightarrow> ascii s"
  using fraction_ascii digits_ascii [OF pad_digits]
  by (auto simp: rfc3339_def zone_text_def byte_def Let_def split: prod.splits if_splits)

definition binding_ok :: "persistedBinding \<Rightarrow> bool" where
  "binding_ok p \<longleftrightarrow> valid_utf8 (pb_Name p) \<and> valid_utf8 (pb_PubB64 p)"

lemma get_binding_json:
  assumes "binding_json off p = Some v" "-1440 < off" "off < 1440"
  shows "get_binding v binding0 = Some p"
  using assms rfc3339_roundtrip [OF _ assms(2,3)]
  by (auto simp: binding_json_def get_binding_def decode_struct_def field_exact binding_fields_def binding_store_def get_string_def get_time_def
    binding0_def)

lemma binding_json_ok: "binding_json off p = Some v \<Longrightarrow> binding_ok p \<Longrightarrow> json_ok (Suc 0) v"
  using ascii_valid [OF rfc3339_ascii] by (auto simp: binding_json_def binding_ok_def maxNestingDepth_def)

lemma bindings_json_read:
  assumes "bindings_json off ps = Some vs" "-1440 < off" "off < 1440" "list_all binding_ok ps"
  shows "get_elems get_binding binding0 vs [] = Some ps \<and> (\<forall>v \<in> set vs. json_ok (Suc 0) v)"
  using assms(1,4)
proof (induction ps arbitrary: vs)
  case (Cons p ps)
  then obtain v ws where v: "binding_json off p = Some v" "bindings_json off ps = Some ws" "vs = v # ws" by (auto split: option.splits)
  then show ?case using Cons get_binding_json [OF v(1) assms(2,3)] binding_json_ok [OF v(1)] by simp
qed simp

lemma bindings_json_length: "bindings_json off ps = Some vs \<Longrightarrow> length vs = length ps"
  by (induction ps arbitrary: vs) (auto split: option.splits)

lemma bindings_file_read:
  assumes "bindings_file off ps = Some f" "-1440 < off" "off < 1440" "list_all binding_ok ps"
  shows "read_as get_bindings f = Content ps"
proof -
  obtain vs where vs: "bindings_json off ps = Some vs" "f = Text (json_indent 0 (JArr vs))"
    using assms(1) by (auto simp: bindings_file_def)
  note r = bindings_json_read [OF vs(1) assms(2-4)]
  have "json_ok 0 (JArr vs)" using r by (simp add: maxNestingDepth_def)
  then have "json_parse (json_indent 0 (JArr vs)) = Some (JArr vs)" by (rule json_parse_indent)
  moreover have "get_bindings (JArr vs) = Some ps"
    using r bindings_json_length [OF vs(1)] by (auto simp: get_bindings_def get_slice_def slice_list_def slice0_def)
  ultimately show ?thesis by (simp add: read_as_def vs(2))
qed

section \<open>Prefixes that are already there\<close>

lemma graft_from_present:
  assumes "resolve_from ls cur [] h = Inr p" "heap_inv h" "cur < length h"
  shows "graft_from (zip ls p) cur h = (Inr (), h)"
  using assms(1,3)
proof (induction ls arbitrary: cur p)
  case (Cons l ls)
  then obtain c q where c: "child_at h cur l = Some c" "resolve_from ls c [] h = Inr q" "p = nd_nid (h ! c) # q"
    by (auto simp only: resolve_from_Cons)
  then show ?case using Cons.IH [OF c(2)] node_okD [OF heap_inv_node [OF assms(2) Cons.prems(2)] c(1)] by simp
qed simp


lemma Graft_present:
  assumes "tree_inv t" "length p \<le> MaxDepth" "Resolve t n = Inr p"
  shows "Graft n p t = (Inr (), t)"
proof -
  have r: "splitName n \<noteq> []" "resolve_from (splitName n) (t_root t) [] (t_heap t) = Inr p" using assms(3) by (auto simp: Resolve_Inr_iff)
  then show ?thesis using assms(1,2) resolve_from_length [OF r(2)] graft_from_present [OF r(2)] by (simp add: Graft_def Let_def tree_inv_def)
qed

text \<open>A prefix is granted when the tree already has it, so that grafting it once more changes nothing.\<close>

definition granted :: "tree \<Rightarrow> string \<Rightarrow> string \<Rightarrow> bool" where
  "granted t zone dotted \<longleftrightarrow>
     dotted = '''' \<or> (case ns_Parse dotted of Inl e \<Rightarrow> False | Inr p \<Rightarrow> length p = zone_Depth zone \<and> Resolve t zone = Inr p)"

lemma granted_mono: "granted t zone dotted \<Longrightarrow> (\<And>p. Resolve t zone = Inr p \<Longrightarrow> Resolve t' zone = Inr p) \<Longrightarrow> granted t' zone dotted"
  by (auto simp: granted_def split: sum.splits)

lemma parse_parts_length: "parse_parts ps = Inr p \<Longrightarrow> length p = length ps"
  by (induction ps arbitrary: p) (auto split: option.splits sum.splits if_splits)

lemma Parse_depth: "ns_Parse s = Inr p \<Longrightarrow> length p \<le> MaxDepth"
  using parse_parts_length by (auto simp: ns_Parse_def Let_def split: if_splits)


lemma granted_Graft:
  assumes "tree_inv t" "granted t zone dotted" "dotted \<noteq> ''''"
  obtains p where "ns_Parse dotted = Inr p" "length p = zone_Depth zone" "zone \<noteq> ''''" "Graft zone p t = (Inr (), t)"
proof -
  obtain p where p: "ns_Parse dotted = Inr p" "length p = zone_Depth zone" "Resolve t zone = Inr p"
    using assms(2,3) by (auto simp: granted_def split: sum.splits)
  have "splitName '''' = []" by code_simp
  then have "zone \<noteq> ''''" using p(3) by (auto simp: Resolve_Inr_iff)
  then show ?thesis using that [OF p(1,2)] Graft_present [OF assms(1) Parse_depth [OF p(1)] p(3)] by simp
qed

lemma seed_granted: "tree_inv t \<Longrightarrow> granted t zone dotted \<Longrightarrow> seedZonePrefix zone dotted t = Inr t"
  by (cases "dotted = ''''") (auto simp: seedZonePrefix_def elim!: granted_Graft)

lemma grant_granted: "tree_inv t \<Longrightarrow> list_all (\<lambda>d. granted t (dg_Zone d) (dg_Path d)) ds \<Longrightarrow> grantDelegationPrefixes ds t = Inr t"
proof (induction ds)
  case (Cons d ds)
  then show ?case by (cases "dg_Path d = ''''") (auto elim!: granted_Graft [of t "dg_Zone d" "dg_Path d"])
qed simp

section \<open>The identifier table is read back\<close>

lemma depth_pack:
  "heap_inv h \<Longrightarrow> a < length h \<Longrightarrow> snap_depth (pack h a) \<le> D \<Longrightarrow> descend ls a h = Some b \<Longrightarrow> length ls \<le> D"
proof (induction ls arbitrary: a D)
  case (Cons l ls)
  then obtain c where c: "child_at h a l = Some c" "descend ls c h = Some b" by (auto split: option.splits)
  have ok: "a < c" "c < length h" using node_okD [OF heap_inv_node [OF Cons.prems(1,2)] c(1)] by simp_all
  have "(l, c) \<in> set (nd_children (h ! a))" using c(1) by (simp add: map_of_SomeD)
  then have "Suc (snap_depth (pack h c)) \<le> D"
    using Cons.prems(3) unfolding pack.simps [of h a] snap_depth.simps fold_max_le kids_all [OF Cons.prems(1,2)] by fastforce
  then show ?case using Cons.IH [OF Cons.prems(1) ok(2) _ c(2), of "D - 1"] by (cases D) simp_all
qed simp

lemma nids_file_read:
  assumes "tree_inv t" "depth_ok (t_root t) (t_heap t)" "list_all (\<lambda>d. nd_nextNID d \<noteq> 0) (t_heap t)" "snap_keys valid_utf8 (Snapshot t)"
  obtains n t' where "read_snap (Text (Snapshot_text t)) = Some (Content n)" "Restore n = Inr t'" "tree_inv t'"
    "depth_ok (t_root t') (t_heap t')" "\<And>n. Resolve t' n = Resolve t n"
proof -
  have "\<forall>a < length (t_heap t). nd_nextNID (t_heap t ! a) \<noteq> 0" using assms(3) by (simp add: list_all_length)
  then obtain t' where t': "snap_ok (Snapshot t)" "snap_depth (Snapshot t) \<le> MaxDepth" "Restore (canon (Snapshot t)) = Inr t'" "tree_inv t'"
    "Snapshot t' = canon (Snapshot t)" "\<And>n. Resolve t' n = Resolve t n" using Snapshot_restored [OF assms(1,2)] by metis
  have "snap_depth (pack (t_heap t') (t_root t')) \<le> MaxDepth" using t'(2,5) snap_depth_canon by (simp add: Snapshot_def)
  then have "depth_ok (t_root t') (t_heap t')" using depth_pack t'(4) unfolding depth_ok_def tree_inv_def by blast
  then show ?thesis using that [OF _ t'(3,4) _ t'(6)] Snapshot_text_read [OF t'(1,2) assms(4)] by (simp add: read_snap_def snap_of_in)
qed

section \<open>The life of a registry\<close>

text \<open>A registry in service under a configuration. The tree holds the prefixes that the configuration grants.\<close>

definition serving :: "reg_config \<Rightarrow> registry \<Rightarrow> bool" where
  "serving cf r \<longleftrightarrow>
     reg_ok r \<and> rg_statePath r = cf_state cf \<and> rg_zoneName r = Normalise (cf_zone cf) \<and>
     (case rg_nids r of
        None \<Rightarrow> False
      | Some s \<Rightarrow>
          ns_path s = cf_nids cf \<and> tree_inv (ns_tree s) \<and> depth_ok (t_root (ns_tree s)) (t_heap (ns_tree s)) \<and>
          granted (ns_tree s) (rg_zoneName r) (cf_zonePath cf) \<and>
          list_all (\<lambda>d. granted (ns_tree s) (dg_Zone d) (dg_Path d)) (rg_delegations r))"

lemma servingD:
  assumes "serving cf r"
  obtains s where "rg_nids r = Some s" "ns_path s = cf_nids cf" "tree_inv (ns_tree s)" "depth_ok (t_root (ns_tree s)) (t_heap (ns_tree s))"
    "granted (ns_tree s) (rg_zoneName r) (cf_zonePath cf)" "list_all (\<lambda>d. granted (ns_tree s) (dg_Zone d) (dg_Path d)) (rg_delegations r)"
  using assms by (auto simp: serving_def split: option.splits)

definition same_setup :: "registry \<Rightarrow> registry \<Rightarrow> bool" where
  "same_setup r r' \<longleftrightarrow> rg_statePath r' = rg_statePath r \<and> rg_zoneName r' = rg_zoneName r \<and> rg_delegations r' = rg_delegations r"

lemma same_setup_refl [simp]: "same_setup r r"
  by (simp add: same_setup_def)

lemma same_setup_save [simp]: "same_setup r (snd (reg_save io r')) = same_setup r r'"
  by (simp add: same_setup_def reg_save_def Let_def)

lemma serving_same:
  assumes "serving cf r" "same_setup r r'" "reg_ok r'" "rg_nids r' = rg_nids r"
  shows "serving cf r'"
  using assms by (auto simp: serving_def same_setup_def split: option.splits)

lemma serving_allocateFor:
  assumes "serving cf r"
  shows "serving cf (allocateFor io n r) \<and> same_setup r (allocateFor io n r)"
proof -
  obtain s where s: "rg_nids r = Some s" "ns_path s = cf_nids cf" "tree_inv (ns_tree s)" "depth_ok (t_root (ns_tree s)) (t_heap (ns_tree s))"
    "granted (ns_tree s) (rg_zoneName r) (cf_zonePath cf)" "list_all (\<lambda>d. granted (ns_tree s) (dg_Zone d) (dg_Path d)) (rg_delegations r)"
    using servingD [OF assms] .
  let ?r = "allocateFor io n r" and ?t = "snd (Allocate n (ns_tree s))"
  have keep: "granted (ns_tree s) z d \<Longrightarrow> granted ?t z d" for z d
    using granted_mono [of "ns_tree s" z d ?t] Resolve_ext [OF s(3) Allocate_ext [OF s(3)] Allocate_root] by blast
  have save: "ns_tree (snd (nid_save io (s\<lparr>ns_tree := t\<rparr>))) = t" "ns_path (snd (nid_save io (s\<lparr>ns_tree := t\<rparr>))) = ns_path s" for t
    by (simp_all add: nid_save_def)
  have "?r = r \<or> ?r = r\<lparr>rg_nids := Some (s\<lparr>ns_tree := ?t\<rparr>)\<rparr> \<or> ?r = r\<lparr>rg_nids := Some (snd (nid_save io (s\<lparr>ns_tree := ?t\<rparr>)))\<rparr>"
    using s(1) by (simp add: allocateFor_def split: option.splits prod.splits sum.splits)
  moreover have "ns_tree (s\<lparr>ns_tree := ?t\<rparr>) = ?t" "ns_path (s\<lparr>ns_tree := ?t\<rparr>) = ns_path s" by simp_all
  ultimately have "?r = r \<or> (\<exists>s'. ?r = r\<lparr>rg_nids := Some s'\<rparr> \<and> ns_tree s' = ?t \<and> ns_path s' = ns_path s)" using save by blast
  then show ?thesis
  proof
    assume "\<exists>s'. ?r = r\<lparr>rg_nids := Some s'\<rparr> \<and> ns_tree s' = ?t \<and> ns_path s' = ns_path s"
    then show ?thesis using assms s keep Allocate_inv [OF s(3)] depth_Allocate [OF s(3,4), of n]
      by (auto simp: serving_def same_setup_def reg_ok_def list_all_iff Allocate_root)
  qed (use assms in \<open>simp add: same_setup_def\<close>)
qed

lemma same_setup_rebind: "rebind P n k sg ts no now r = (res, r') \<Longrightarrow> same_setup r r'"
  by (auto simp: rebind_def same_setup_def split: option.splits if_splits sum.splits)

lemma serving_handle:
  assumes "serving cf r" "reg_handle P E src m r = (out, r')"
  shows "serving cf r' \<and> same_setup r r'"
proof -
  have ok: "reg_ok r" using assms(1) by (simp add: serving_def)
  have same: "serving cf s \<and> same_setup r s" if "same_setup r s" "reg_ok s" "rg_nids s = rg_nids r" for s
    using serving_same [OF assms(1) that] that(1) by blast
  consider "handle_register P E src m r = (out, r')" | "handle_rebind P E src m r = (out, r')" | "r' = r"
    using assms(2) by (auto simp: reg_handle_def split: if_splits)
  then show ?thesis
  proof cases
    case 1
    obtain res r1 where b: "bind (ev_io E) (m_Name m) (m_PubKey m) src (ev_now E) r = (res, r1)" by (metis prod.exhaust)
    have "same_setup r r1" using b by (auto simp: bind_def Let_def same_setup_def reg_save_def split: option.splits if_splits)
    then have r1: "serving cf r1 \<and> same_setup r r1" using same reg_ok_bind [OF ok b] nids_bind [OF b] by blast
    have "r' = r \<or> r' = r1 \<or> r' = allocateFor (ev_nio E) (m_Name m) r1"
      using 1 b by (cases res) (auto simp: handle_register_def split: if_splits sum.splits)
    then show ?thesis using r1 serving_allocateFor [of cf r1] assms(1) by (auto simp: same_setup_def)
  next
    case 2
    obtain res r1 where b: "rebind P (m_Name m) (m_PubKey m) (m_Sig m) (m_TS m) (m_Nonce m) (ev_now E) r = (res, r1)" by (metis prod.exhaust)
    have "r' = r \<or> r' = r1 \<or> r' = snd (reg_save (ev_io E) r1)" using 2 b by (auto simp: handle_rebind_def split: if_splits sum.splits)
    then have "same_setup r r'" "rg_nids r' = rg_nids r" using same_setup_rebind [OF b] nids_rebind [OF b] by auto
    then show ?thesis using same reg_ok_handle [OF ok assms(2)] by blast
  next
    case 3
    then show ?thesis using assms(1) by (simp add: same_setup_def)
  qed
qed

lemma serving_prune: "serving cf r \<Longrightarrow> serving cf (prune_round io now r) \<and> same_setup r (prune_round io now r)"
proof -
  assume s: "serving cf r"
  have "same_setup r (prune_round io now r)" "rg_nids (prune_round io now r) = rg_nids r"
    by (auto simp: prune_round_def prune_def Let_def same_setup_def reg_save_def split: prod.splits)
  then show ?thesis using serving_same [OF s] reg_ok_prune s by (simp add: serving_def)
qed

inductive reg_step :: "prims \<Rightarrow> registry \<Rightarrow> registry \<Rightarrow> bool" for P where
  message: "reg_handle P E src m r = (out, r') \<Longrightarrow> reg_step P r r'"
| prune: "reg_step P r (prune_round io now r)"

lemma serving_fold_allocate:
  "serving cf r \<Longrightarrow> serving cf (fold (allocateFor io) ns r) \<and> same_setup r (fold (allocateFor io) ns r)"
proof (induction ns arbitrary: r)
  case (Cons n ns)
  then show ?case using Cons.IH serving_allocateFor [OF Cons.prems, of io n] by (auto simp: same_setup_def)
qed (simp add: same_setup_def)

lemma paths_fold_allocate:
  "nids_ok r \<Longrightarrow> nids_ok (fold (allocateFor io) ns r) \<and> (\<forall>m p. path_of r m = Some p \<longrightarrow> path_of (fold (allocateFor io) ns r) m = Some p)"
proof (induction ns arbitrary: r)
  case (Cons n ns)
  then show ?case using Cons.IH allocateFor_paths [OF Cons.prems, of io n] by simp
qed simp

section \<open>Restart\<close>

lemma distinct_load: "distinct (map fst ns) \<Longrightarrow> distinct (map fst (fold load_binding ps ns))"
  by (induction ps arbitrary: ns) (simp_all add: load_binding_def distinct_update)


lemma restart_disk:
  assumes "serving cf r0" "rg_nids r0 = Some s" "Restore n = Inr t" "tree_inv t" "depth_ok (t_root t) (t_heap t)"
    "\<And>m. Resolve t m = Resolve (ns_tree s) m" "cf_state cf \<noteq> ''''" "cf_nids cf \<noteq> ''''"
    "dk_state dk = Content (bindings_of r0)" "dk_nids dk = Content n"
    "loadDelegations (cf_delegations cf) (dk_delegations dk) (rg_zoneName r0) = Inr (rg_delegations r0)"
  shows "\<exists>r. boot io cf dk = Inr r \<and> serving cf r \<and> (\<forall>m. owner r m = owner r0 m) \<and> (\<forall>m p. path_of r0 m = Some p \<longrightarrow> path_of r m = Some p)"
proof -
  have cfg: "reg_ok r0" "rg_statePath r0 = cf_state cf" "rg_zoneName r0 = Normalise (cf_zone cf)" using assms(1) by (simp_all add: serving_def)
  let ?ps = "bindings_of r0" and ?ds = "rg_delegations r0"
  have g: "granted t (rg_zoneName r0) (cf_zonePath cf)" "list_all (\<lambda>d. granted t (dg_Zone d) (dg_Path d)) ?ds"
    using servingD [OF assms(1)] assms(2,6) granted_mono [of "ns_tree s" _ _ t] by (auto simp: list_all_iff)
  let ?s = "\<lparr>ns_tree = t, ns_path = cf_nids cf, ns_file = Content n\<rparr>"
  define r1 where "r1 = \<lparr>rg_names = fold load_binding ?ps [], rg_statePath = cf_state cf, rg_file = Content ?ps, rg_signPriv = cf_priv cf,
    rg_signPub = cf_pub cf, rg_zoneName = rg_zoneName r0, rg_delegations = ?ds, rg_nids = Some ?s\<rparr>"
  have nids: "boot_nids cf dk (rg_zoneName r0) ?ds = Inr (Some ?s)"
    using assms(3,8,10) seed_granted [OF assms(4) g(1)] grant_granted [OF assms(4) g(2)] by (simp add: boot_nids_def loadNIDStore_def Let_def)
  have boot: "boot io cf dk = Inr (if ?ps \<noteq> [] then allocateForRestored io r1 else r1)"
    using assms(7,9,11) cfg(3) nids by (simp add: boot_def reg_load_def Let_def r1_def)
  have sv: "serving cf r1" using assms(4,5) g cfg(3) distinct_load [of "[]" ?ps] by (simp add: serving_def r1_def reg_ok_def)
  have ow: "owner r1 m = owner r0 m" for m
    using load_owner [of "rg_names r0" "[]" m] cfg(1) by (auto simp: owner_def reg_ok_def r1_def bindings_of_def split: option.splits)
  have pa: "path_of r1 m = path_of r0 m" for m using assms(2,6) by (simp add: path_of_def r1_def)
  have ok: "nids_ok r1" using assms(4) by (simp add: nids_ok_def r1_def)
  let ?r = "allocateForRestored io r1"
  have "serving cf ?r" "\<forall>m p. path_of r0 m = Some p \<longrightarrow> path_of ?r m = Some p"
    using serving_fold_allocate [OF sv] paths_fold_allocate [OF ok] pa by (auto simp: allocateForRestored_def)
  moreover have "\<forall>m. owner ?r m = owner r0 m" using owner_names [OF names_allocateForRestored] ow by simp
  ultimately show ?thesis using sv ow pa boot by (cases "?ps = []") auto
qed

text \<open>
  The files that a registry leaves when both tables were written. Names, keys and labels are valid UTF-8, as they are when they
  arrive in messages, and no counter is used up: \<^verbatim>\<open>Restore\<close> refuses a table with a counter of 0.
\<close>

definition leaves :: "int \<Rightarrow> registry \<Rightarrow> reg_files \<Rightarrow> bool" where
  "leaves off r fl \<longleftrightarrow>
     (case rg_nids r of
        None \<Rightarrow> False
      | Some s \<Rightarrow>
          save_file off True r (fl_state fl) = (True, fl_state fl) \<and> nid_save_file True s (fl_nids fl) = (True, fl_nids fl) \<and>
          list_all binding_ok (bindings_of r) \<and> list_all (\<lambda>d. nd_nextNID d \<noteq> 0) (t_heap (ns_tree s)) \<and>
          snap_keys valid_utf8 (Snapshot (ns_tree s)))"

lemma restart:
  assumes "serving cf r0" "leaves off r0 fl" "-1440 < off" "off < 1440" "cf_state cf \<noteq> ''''" "cf_nids cf \<noteq> ''''"
    "loadDelegations (cf_delegations cf) (read_as get_delegations (fl_delegations fl)) (rg_zoneName r0) = Inr (rg_delegations r0)"
  shows "\<exists>r. boot_files io cf fl = Some (Inr r) \<and> serving cf r \<and> (\<forall>m. owner r m = owner r0 m) \<and>
    (\<forall>m p. path_of r0 m = Some p \<longrightarrow> path_of r m = Some p)"
proof -
  obtain s where s: "rg_nids r0 = Some s" "ns_path s = cf_nids cf" "tree_inv (ns_tree s)" "depth_ok (t_root (ns_tree s)) (t_heap (ns_tree s))"
    using servingD [OF assms(1)] .
  have cfg: "rg_statePath r0 = cf_state cf" "rg_zoneName r0 = Normalise (cf_zone cf)" using assms(1) by (simp_all add: serving_def)
  have l: "save_file off True r0 (fl_state fl) = (True, fl_state fl)" "nid_save_file True s (fl_nids fl) = (True, fl_nids fl)"
    "list_all binding_ok (bindings_of r0)" "list_all (\<lambda>d. nd_nextNID d \<noteq> 0) (t_heap (ns_tree s))" "snap_keys valid_utf8 (Snapshot (ns_tree s))"
    using assms(2) s(1) by (simp_all add: leaves_def)
  have "bindings_file off (bindings_of r0) = Some (fl_state fl)" using l(1) cfg(1) assms(5) by (auto simp: save_file_def split: option.splits)
  from bindings_file_read [OF this assms(3,4) l(3)] have st: "read_as get_bindings (fl_state fl) = Content (bindings_of r0)" .
  obtain n t where t: "read_snap (fl_nids fl) = Some (Content n)" "Restore n = Inr t" "tree_inv t" "depth_ok (t_root t) (t_heap t)"
    "\<And>m. Resolve t m = Resolve (ns_tree s) m"
    using nids_file_read [OF s(3,4) l(4,5)] l(2) s(2) assms(6) by (auto simp: nid_save_file_def)
  let ?dk = "\<lparr>dk_state = Content (bindings_of r0), dk_delegations = read_as get_delegations (fl_delegations fl), dk_nids = Content n\<rparr>"
  have "boot_files io cf fl = Some (boot io cf ?dk)" using assms(6,7) cfg(2) st t(1) by (simp add: boot_files_def Let_def)
  then show ?thesis using restart_disk [OF assms(1) s(1) t(2-5) assms(5,6), of ?dk io] assms(7) by auto
qed

interpretation service: invariant_system "reg_step P" "\<lambda>r. serving cf r \<and> same_setup r0 r" for P cf r0
proof unfold_locales
  fix r r' assume "reg_step P r r'" "serving cf r \<and> same_setup r0 r"
  then show "serving cf r' \<and> same_setup r0 r'"
    by (induction rule: reg_step.induct) (use serving_handle serving_prune in \<open>(fastforce simp: same_setup_def)+\<close>)
qed

definition ex_cf2 :: reg_config where
  "ex_cf2 = \<lparr>cf_state = ''s'', cf_zone = ''Z.'', cf_delegations = '''', cf_nids = ''n'', cf_zonePath = '''', cf_priv = ex_key 9, cf_pub = ex_pub 9\<rparr>"

definition ex_reg2 :: registry where
  "ex_reg2 = ex_reg\<lparr>rg_delegations := [], rg_nids := Some \<lparr>ns_tree = tree_run [OpAllocate ''host.z''] NewTree, ns_path = ''n'', ns_file = Missing\<rparr>\<rparr>"

definition ex_files :: reg_files where
  "ex_files = \<lparr>fl_key = NoFile, fl_state = snd (save_file 120 True ex_reg2 NoFile), fl_delegations = NoFile,
     fl_nids = Text (Snapshot_text (tree_run [OpAllocate ''host.z''] NewTree))\<rparr>"

lemma ex_reg2_serving: "serving ex_cf2 ex_reg2"
proof -
  have "Normalise ''Z.'' = ''z''" by code_simp
  then show ?thesis using tree_run_depth [of "[OpAllocate ''host.z'']"]
    by (simp add: serving_def ex_reg2_def ex_reg_def ex_cf2_def reg_ok_def granted_def)
qed

lemma ex_files_left: "leaves 120 ex_reg2 ex_files"
proof -
  have "rfc3339 120 0 \<noteq> None" by code_simp
  then obtain g where "bindings_file 120 (bindings_of ex_reg2) = Some g"
    by (auto simp: bindings_file_def bindings_of_def binding_json_def ex_reg2_def ex_reg_def)
  moreover have "rg_statePath ex_reg2 = ''s''" by (simp add: ex_reg2_def ex_reg_def)
  ultimately have "save_file 120 True ex_reg2 (fl_state ex_files) = (True, fl_state ex_files)" by (simp add: save_file_def ex_files_def)
  moreover have "list_all binding_ok (bindings_of ex_reg2)" by code_simp
  moreover have "list_all (\<lambda>d. nd_nextNID d \<noteq> 0) (t_heap (tree_run [OpAllocate ''host.z''] NewTree))"
    "snap_keys valid_utf8 (Snapshot (tree_run [OpAllocate ''host.z''] NewTree))" by code_simp+
  ultimately show ?thesis unfolding leaves_def by (simp add: ex_reg2_def nid_save_file_def) (simp add: ex_files_def)
qed

text \<open>C6. A registry survives a restart, down to the bytes of its files: whatever messages it handled since it was in
  service, when its tables are written and the process is started again with the same configuration, it starts, knows every name by
  the key that owns it and no other name, resolves every name that had a path to the same path, and is in service again. The prefixes
  of the configuration, already in the tree, do not stand in the way. The times in the file carry any offset of less than a day.\<close>

theorem registry_survives_restart:
  assumes "serving cf r0" "(reg_step P)\<^sup>*\<^sup>* r0 r1" "leaves off r1 fl" "-1440 < off" "off < 1440" "cf_state cf \<noteq> ''''" "cf_nids cf \<noteq> ''''"
    "loadDelegations (cf_delegations cf) (read_as get_delegations (fl_delegations fl)) (rg_zoneName r0) = Inr (rg_delegations r0)"
  shows "\<exists>r. boot_files io cf fl = Some (Inr r) \<and> serving cf r \<and> (\<forall>n. owner r n = owner r1 n) \<and>
    (\<forall>n p. path_of r1 n = Some p \<longrightarrow> path_of r n = Some p)"
proof -
  have "serving cf r1" "same_setup r0 r1" using service.run_inv [OF assms(2), of cf r0] assms(1) by simp_all
  then show ?thesis using restart [OF _ assms(3-7)] assms(8) by (simp add: same_setup_def)
qed

theorem registry_survives_restart_witness:
  "\<exists>r. boot_files True ex_cf2 ex_files = Some (Inr r) \<and> owner r ''host.z'' = Some (ex_pub 1) \<and> path_of r ''host.z'' = Some [1, 1]"
proof -
  have "owner ex_reg2 ''host.z'' = Some (ex_pub 1)" by (simp add: owner_def ex_reg2_def ex_reg_def)
  moreover have "path_of ex_reg2 ''host.z'' = Some [1, 1]"
  proof -
    have "Resolve (tree_run [OpAllocate ''host.z''] NewTree) ''host.z'' = Inr [1, 1]" by code_simp
    then show ?thesis by (simp add: path_of_def ex_reg2_def)
  qed
  ultimately show ?thesis
    using registry_survives_restart [where P = toy and io = True, OF ex_reg2_serving rtranclp.rtrancl_refl ex_files_left]
    by (simp add: ex_cf2_def loadDelegations_def ex_reg2_def) metis
qed

section \<open>Identity and key\<close>

lemma identity_json_ok: "valid_utf8 (id_Name i) \<Longrightarrow> valid_utf8 (id_Registry i) \<Longrightarrow> ascii (id_PubB64 i) \<Longrightarrow> ascii (id_PrivB64 i) \<Longrightarrow> json_ok 0 (identity_json i)"
  by (simp add: identity_json_def maxNestingDepth_def ascii_valid)

text \<open>The identity minted at the first boot is read from its file at every later one: the name given later is ignored, only the
  registry can be overridden, and the file is left alone.\<close>

theorem identity_file_is_permanent:
  assumes "load_identity True gen io name registry f = (Inr i, f')" "f = NoFile \<or> f = NoAccess" "valid_utf8 name" "valid_utf8 registry"
  shows "\<exists>j. load_identity True gen' io' name' registry' f' = (Inr j, f') \<and> id_Name j = name \<and> id_PubB64 j = id_PubB64 i \<and>
    id_PrivB64 j = id_PrivB64 i \<and> id_Registry j = (if registry' = '''' then id_Registry i else registry')"
proof -
  have f: "id_file_of f = NoIdentity" using assms(2) by (auto simp: id_file_of_def read_as_def)
  have m: "LoadOrCreate True gen io name registry NoIdentity = (Inr i, HasIdentity i)" "f' = write_as identity_json i"
    using assms(1) f by (auto simp: load_identity_def LoadOrCreate_def Let_def split: if_splits option.splits)
  have "valid_utf8 default_registry" by code_simp
  then have "json_ok 0 (identity_json i)" using m(1) assms(3,4)
    by (intro identity_json_ok) (auto simp: LoadOrCreate_def Let_def split: if_splits option.splits)
  then have "id_file_of f' = HasIdentity i" using read_write [of identity_json i get_identity i] get_identity_json by (simp add: m(2) id_file_of_def)
  then show ?thesis using identity_is_permanent [OF m(1), of gen' io' name' registry']
    by (auto simp: load_identity_def LoadOrCreate_def)
qed

text \<open>The same for the signing key: a registry that wrote its key signs with it after every restart.\<close>

theorem key_file_is_permanent:
  assumes "load_key (Some (pub, priv)) io path NoFile = (Inr k, f)" "path \<noteq> ''''" "length priv = PrivateKeySize"
  shows "k = (priv, EncodeToString pub) \<and> load_key gen io' path f = (Inr k, f)"
proof -
  let ?kf = "\<lparr>kf_PubB64 = EncodeToString pub, kf_PrivB64 = EncodeToString priv\<rparr>"
  have k: "k = (priv, EncodeToString pub)" "f = write_as key_json ?kf"
    using assms(1,2) by (auto simp: load_key_def loadOrCreateKey_def read_as_def split: if_splits)
  have "json_ok 0 (key_json ?kf)" by (simp add: key_json_def maxNestingDepth_def ascii_valid)
  then have "read_as get_key f = Content ?kf" using read_write [of key_json ?kf get_key ?kf] get_key_json by (simp add: k(2))
  then show ?thesis using assms(2,3) k(1) by (simp add: load_key_def loadOrCreateKey_def)
qed

text \<open>Writing the ownership table, on the files: when the file holds what the registry last wrote, it does so after a write.\<close>

theorem save_file_refines:
  assumes "read_as get_bindings f = rg_file r" "-1440 < off" "off < 1440" "list_all binding_ok (bindings_of r)"
    "bindings_file off (bindings_of r) \<noteq> None"
  shows "read_as get_bindings (snd (save_file off io r f)) = rg_file (snd (reg_save io r)) \<and> fst (save_file off io r f) = fst (reg_save io r)"
proof -
  obtain g where g: "bindings_file off (bindings_of r) = Some g" using assms(5) by blast
  then show ?thesis using assms(1) bindings_file_read [OF g assms(2-4)] by (simp add: save_file_def reg_save_def bindings_of_def Let_def)
qed

text \<open>A registry that starts for the first time, without a prefix of its own, is in service.\<close>

lemma first_boot_serving:
  assumes "cf_zonePath cf = ''''" "cf_nids cf \<noteq> ''''" "fl_state fl = NoFile" "fl_delegations fl = NoFile" "fl_nids fl = NoFile"
  shows "\<exists>r. boot_files io cf fl = Some (Inr r) \<and> serving cf r"
  using assms tree_run_depth [of "[]"]
  by (simp add: boot_files_def boot_def boot_nids_def loadDelegations_def loadNIDStore_def seedZonePrefix_def reg_load_def read_as_def read_snap_def
    serving_def reg_ok_def granted_def tree_run_def Let_def)

end
