(* ===== verification/Spec2Isabelle.thy ===== *)
theory Spec2Isabelle
  imports Ns_Props Stream_Props Registry_Props Routerd_Props Locator Link Resolve_Props Cli_Props Telemetry_Props State_Props
begin

text \<open>
  DNX (the Go module under \<^verbatim>\<open>src/\<close>) names machines instead of addresses. A \<^emph>\<open>registry\<close> binds names to
  identity keys, answers signed resolutions, delegates zones to child registries and allocates
  namespace paths. A \<^emph>\<open>router\<close> forwards frames along such paths. An \<^emph>\<open>agent\<close> runs on each node: it
  registers its name, resolves others through chains of referrals, sets up encrypted sessions and carries
  TCP connections over reliable streams inside them. The agent talks to registries (\<^verbatim>\<open>REGISTER\<close>, \<^verbatim>\<open>RESOLVE\<close>,
  \<^verbatim>\<open>INTRO\<close>) and to other agents (\<^verbatim>\<open>HS_INIT\<close>, \<^verbatim>\<open>HS_RESP\<close>, sealed frames); a router fetches its table from a registry
  (\<^verbatim>\<open>NAMESPACE\<close>).

  \<^bold>\<open>Theories and sources.\<close>

  \<^item> \<open>Prelude\<close>, \<open>Go_Text\<close>, \<open>Go_Time\<close>, \<open>Go_Base64\<close>, \<open>Go_Utf8\<close>, \<open>Go_Url\<close>, \<open>Go_Rfc3339\<close>: the language side: machine words, big-endian fields, \<^verbatim>\<open>strings\<close>,
    \<^verbatim>\<open>strconv\<close>, \<^verbatim>\<open>time\<close> with its saturating subtraction and its text form, base64, UTF-8, URL queries. The prelude also
    has the interfaces \<open>wire_codec\<close>, \<open>prefix_codec\<close> and \<open>invariant_system\<close> that the components interpret.
  \<^item> \<open>Json_Value\<close>, \<open>Json_Struct\<close>, \<open>Json_Containers\<close>, \<open>Json_Indent\<close>: Go's \<^verbatim>\<open>encoding/json\<close>: the printers, compact and indented, the
    grammar with escapes, surrogates and the limit on nesting, and how structs, slices and maps are filled, repeated
    and missing members included. What is printed is read back (\<open>json_parse_print\<close>, \<open>json_parse_indent\<close>).
  \<^item> \<open>Go_Json\<close>, \<open>Proto_Json\<close>, \<open>Payload_Json\<close>, \<open>Snap_File\<close>, \<open>State_Files\<close>, \<open>State_Props\<close>: the JSON of the program: the namespace table, \<^verbatim>\<open>Encode\<close> and \<^verbatim>\<open>Decode\<close> of
    messages, sealed payloads, and the files of a registry and an agent as bytes. A registry restarted from its
    files knows the same owners and paths.
  \<^item> \<open>Ns_Path\<close>, \<open>Ns_Tree\<close>, \<open>Ns_Laws\<close>, \<open>Ns_Persist\<close>, \<open>Ns_Restore\<close>, \<open>Ns_Props\<close>: \<^verbatim>\<open>internal/nspath\<close>. Paths and their wire and text
    forms; the allocation tree as an explicit heap of nodes (\<open>Allocate\<close>, \<open>Resolve\<close>, \<open>Reverse\<close>, \<open>Forget\<close>,
    \<open>Graft\<close>); \<open>Walk\<close>, \<open>Snapshot\<close>, \<open>Restore\<close>. Identifiers are never reissued, names and paths correspond
    one to one, every operation touches only its own name, a restored tree is a tree like any other.
  \<^item> \<open>Stream\<close>, \<open>Stream_Recv\<close>, \<open>Stream_Send\<close>, \<open>Stream_Net\<close>, \<open>Stream_Props\<close>: \<^verbatim>\<open>internal/stream\<close>. Every method of
    \<^verbatim>\<open>Stream\<close> on one record; two ends joined by a network that loses, repeats and reorders (\<open>net_step\<close>).
    Delivery in order, end of file only at the end, totality on all bytes, window bounds, retransmission.
  \<^item> \<open>Zone\<close>, \<open>Locator\<close>: \<^verbatim>\<open>internal/zone\<close>, \<^verbatim>\<open>internal/locator\<close>. Containment as the suffix order on labels, and the
    interface \<open>delegation_order\<close> that bounds a chain of referrals by the depth of the name.
  \<^item> \<open>Proto\<close>, \<open>Secure\<close>, \<open>Nonce\<close>, \<open>Identity\<close>: \<^verbatim>\<open>internal/proto\<close>, \<^verbatim>\<open>internal/secure\<close>, \<^verbatim>\<open>internal/identity\<close>. Messages, signed
    strings (disjoint and injective), handshake strings, key derivation, sealed frames with the replay guard,
    nonces, the identity file.
  \<^item> \<open>Registry\<close>, \<open>Registry_Props\<close>: \<^verbatim>\<open>cmd/dnx-registry\<close>. The record \<open>registry\<close>, every branch of \<^verbatim>\<open>handle\<close>
    (\<open>reg_handle\<close>), the receive loop on bytes, expiry, persistence, delegations, identifiers, keys and start.
    Ownership changes only by the owner's signature or a year of silence, paths are stable, delegation is most
    specific.
  \<^item> \<open>Routerd\<close>, \<open>Routerd_Props\<close>, \<open>Node_Config\<close>, \<open>Telemetry\<close>, \<open>Telemetry_Props\<close>: \<^verbatim>\<open>cmd/dnx-routerd\<close>. Frames, \<open>rt_receive\<close>, the routing
    loop, adoption and refresh of the table, the configuration file, the telemetry server. Forwarding ends and keeps
    path and payload; an injected packet is reported hop by hop; the two configuration files of the deployment make a
    network that delivers.
  \<^item> \<open>Tunnel_Table\<close>, \<open>Agent\<close>, \<open>Agent_Ops\<close>: \<^verbatim>\<open>cmd/dnxd\<close>. The agent's maps hold pointers that goroutines keep, so
    peer sessions, channels and tunnels live in heaps and the maps hold addresses. \<open>agent_receive\<close> is one turn
    of \<^verbatim>\<open>readLoop\<close>; operations that wait are split where they wait.
  \<^item> \<open>Agent_Inv\<close>, \<open>Agent_Props\<close>, \<open>Agent_Tunnels\<close>, \<open>Link\<close>, \<open>Resolve_Props\<close>: the agent as a state machine (\<open>agent_step\<close>, any interleaving of the
    goroutines' steps) with its invariant \<open>agent_ok\<close>, and the interface \<open>stream_service\<close> through which tunnels use
    streams; totality, authenticated sessions, the tunnel allowlist; two agents linked by a handshake, pings and
    tunnel frames that cross between them; resolution through several registries.
  \<^item> \<open>Api\<close>, \<open>Cli\<close>, \<open>Cli_Props\<close>: the control API of the agent and the client \<^verbatim>\<open>cmd/dnx\<close>: what is typed reaches the operation and what
    the operation came to is reported.
  \<^item> This theory: a router and a registry together.

  \<^bold>\<open>Errors.\<close> A Go error is \<open>Inl\<close>, a panic is \<open>None\<close> (or a named outcome), a blocking wait is a result of the
  operation. Theorems that a handler returns are stated as such.

  \<^bold>\<open>Parameters.\<close> The cryptographic primitives are the record \<open>prims\<close>; what is used of them is named
  (\<open>ed_pair\<close>, \<open>aead_ok\<close>, \<open>dh_ok\<close>, \<open>kdf_ok\<close>, \<open>labels_separate\<close>) and holds of the concrete instances \<open>toy\<close> and
  \<open>toy2\<close>. Randomness, the clock, the zone of the clock, address resolution, the TCP dialer, whether a write
  succeeds, and the tables of printable runes are arguments. Each handler reads the clock once.

  \<^bold>\<open>Bounds and simplifications.\<close> Case folding of names is that of ASCII. Sequence numbers, identifiers and counters
  keep their width; the delivery theorems are for streams of less than 2 GB, as they state.
  \<open>resolve_loop\<close> has the code's own bound of eight questions as fuel. The order in which Go visits a map is the
  order of the association list. Critical sections are merged where nothing else writes what they read (see
  \<open>handleHSResp\<close>), and kept apart where it matters (\<open>open_begin\<close> and \<open>open_finish\<close>; \<open>getSession_begin\<close> and the
  operations after it). A round trip time is printed as the exact quotient. Of the texts of a time only the
  well-formed ones are read.

  \<^bold>\<open>Not modelled.\<close> What remains is input and output around the modelled operations: the parsing of the command line
  flags, the sockets (UDP, the TCP listener of \<^verbatim>\<open>serveTunnel\<close>, the HTTP servers and client of the standard library), the
  reading and writing of files as system calls, and the layout of the lines the client prints. Logging has no
  effect on the state.
\<close>

section \<open>Registry and router\<close>

lemma wire_simple: "valid_utf8 k \<Longrightarrow> fits 64 t \<Longrightarrow> valid_utf8 n \<Longrightarrow> wire_message (Message0\<lparr>m_Kind := k, m_TS := t, m_Nonce := n\<rparr>)"
  by (simp add: wire_message_def Message0_def)

lemma fetch_reply:
  assumes "ed_pair P (rg_signPriv r) pub" "rg_nids r = Some s" "\<forall>e \<in> set (Walk (ns_tree s)). valid_utf8 (en_Name e)"
    "valid_utf8 (rg_zoneName r)" "valid_utf8 nonce" "fits 64 (to_millis now)" "fits 64 (to_millis (ev_now E))"
  obtains b where "reg_receive P E src (fetch_request now nonce) r = ([(src, b)], r)"
    "fetchNamespace P (EncodeToString pub) nonce (Some b) = Inr (Walk (ns_tree s), rg_zoneName r)"
proof -
  note k = kind_defs
  define m where "m = Message0\<lparr>m_Kind := KindNamespace, m_TS := to_millis now, m_Nonce := nonce\<rparr>"
  define resp where "resp = snd (hd (handle_namespace P E src m r))"
  have h: "handle_namespace P E src m r = [(src, resp)]" using assms(2) by (simp add: resp_def handle_namespace_def Let_def)
  have "reg_handle P E src m r = ([(src, resp)], r)" using h by (simp add: reg_handle_def k m_def)
  moreover have "Decode (fetch_request now nonce) = Some m"
    unfolding fetch_request_def m_def using assms(5,6) by (intro Decode_Encode wire_simple) (simp_all add: k)
  ultimately have r: "reg_receive P E src (fetch_request now nonce) r = ([(src, Encode resp)], r)" by (simp add: reg_receive_def reply_def)
  have nonce: "m_Nonce m = nonce" by (simp add: m_def)
  have "wire_message resp" using assms(2,4,5,7) valid_table [OF assms(3)]
    by (simp add: resp_def handle_namespace_def Let_def wire_message_def Message0_def SignDetached_def k nonce)
  moreover have "fetch_check P (EncodeToString pub) nonce resp = Inr (Walk (ns_tree s), rg_zoneName r)"
    using Verify_SignDetached [OF assms(1)] assms(2) table_roundtrip [OF assms(3)]
    by (auto simp: resp_def handle_namespace_def fetch_check_def Let_def k nonce split: sum.splits)
  ultimately show ?thesis using that [OF r] by (simp add: fetchNamespace_def Decode_Encode)
qed

text \<open>C5. The registry and the routers agree on the namespace, over the bytes they exchange: the datagram with
  which the registry answers the request of a router passes the checks of a router that trusts the
  registry's key, the router starts with it, and from then on resolves every name as the registry does; the
  path it uses for a name is the path the registry prints in its answers to RESOLVE.\<close>

theorem router_agrees_with_registry:
  assumes "ed_pair P (rg_signPriv r) pub" and "rg_nids r = Some s" and "ns_tree s = tree_run ops NewTree"
    and "\<forall>e \<in> set (Walk (ns_tree s)). valid_utf8 (en_Name e)" and "valid_utf8 (rg_zoneName r)" and "length rnd = 12"
    and "fits 64 (to_millis now)" and "fits 64 (to_millis (ev_now E))"
  shows "\<exists>b d. reg_receive P E src (fetch_request now (NewNonce rnd)) r = ([(src, b)], r) \<and>
    start_registry P (EncodeToString pub) (NewNonce rnd) (Some b) cfg = Inr d \<and>
    (\<forall>n. Resolve (dm_ns d) n = Resolve (ns_tree s) n) \<and>
    (\<forall>n p. Resolve (dm_ns d) n = Inr p \<longrightarrow> pathFor r n = Path_String p)"
proof -
  obtain b where b: "reg_receive P E src (fetch_request now (NewNonce rnd)) r = ([(src, b)], r)"
    "fetchNamespace P (EncodeToString pub) (NewNonce rnd) (Some b) = Inr (Walk (ns_tree s), rg_zoneName r)"
    using fetch_reply [where P = P and E = E, OF assms(1,2,4,5) NewNonce_ok(1) [OF assms(6)] assms(7,8)] by blast
  have new: "t_root NewTree < length (t_heap NewTree)" "heap_inv (t_heap NewTree)" using tree_inv_New by (auto simp: tree_inv_def)
  obtain t where t: "adopt_entries (Walk (ns_tree s)) NewTree = (Inr (), t)" "\<forall>n. Resolve t n = Resolve (ns_tree s) n"
    using adopt_Walk [OF _ _ _ new replica_New refl] tree_run_depth [of ops] tree_run_labels [of ops] assms(3) by metis
  have st: "start_registry P (EncodeToString pub) (NewNonce rnd) (Some b) cfg =
      Inr \<lparr>dm_cfg = cfg, dm_routers = router_map (nc_Routers cfg), dm_events = [], dm_ns = t\<rparr>" (is "_ = Inr ?d")
    by (simp add: start_registry_def syncNamespace_def b(2) adoptNamespace_def t(1))
  have "pathFor r n = Path_String p" if "Resolve t n = Inr p" for n p
    using that t(2) assms(2) by (simp add: pathFor_def)
  then show ?thesis using b(1) st t(2) by auto
qed

definition ex_net_reg :: registry where
  "ex_net_reg = ex_reg\<lparr>rg_nids := Some \<lparr>ns_tree = tree_run [OpAllocate ''host.z''] NewTree, ns_path = '''', ns_file = Missing\<rparr>\<rparr>"

theorem router_agrees_with_registry_witness:
  "\<exists>b d. reg_receive toy ex_env ''2.2.2.2:2'' (fetch_request 0 (NewNonce (replicate 12 5))) ex_net_reg = ([(''2.2.2.2:2'', b)], ex_net_reg) \<and>
     start_registry toy (EncodeToString (ex_key 9)) (NewNonce (replicate 12 5)) (Some b) ex_cfg = Inr d \<and> Resolve (dm_ns d) ''host.z'' = Inr [1, 1]"
proof -
  let ?T = "tree_run [OpAllocate ''host.z''] NewTree"
  let ?s = "\<lparr>ns_tree = ?T, ns_path = '''', ns_file = Missing\<rparr>"
  have "ed_pair toy (rg_signPriv ex_net_reg) (ex_key 9)" using ex_key_pair [of 9] by (simp add: ex_net_reg_def ex_reg_def)
  moreover have "rg_nids ex_net_reg = Some ?s" by (simp add: ex_net_reg_def)
  moreover have "list_all (\<lambda>e. valid_utf8 (en_Name e)) (Walk ?T)" by code_simp
  moreover have "valid_utf8 (rg_zoneName ex_net_reg)" by code_simp
  moreover have "fits 64 (to_millis 0)" "fits 64 (to_millis (ev_now ex_env))" by code_simp+
  moreover have "Resolve ?T ''host.z'' = Inr [1, 1]" by code_simp
  ultimately show ?thesis
    using router_agrees_with_registry [of toy ex_net_reg "ex_key 9" ?s "[OpAllocate ''host.z'']" "replicate 12 5" 0 ex_env "''2.2.2.2:2''" ex_cfg]
    by (auto simp: list_all_iff)
qed

end
